(* ===== verification/Prelude.thy ===== *)
theory Prelude
  imports Main "HOL-Library.Word" "HOL-Library.AList"
begin

text \<open>
  Shared vocabulary of the development: the machine types of the Rust sources, the result
  type with its early-return operator, checked and saturating arithmetic, the association
  list that stands for a \<^verbatim>\<open>HashMap\<close>, and the generic lemmas about them that the component
  theories use. Facts about results are collected in \<open>result_simps\<close>, facts about hash maps
  in \<open>hashmap_simps\<close>.
\<close>

named_theorems result_simps \<open>inversion and evaluation of results\<close>
named_theorems hashmap_simps \<open>lookup after insertion and removal\<close>

section \<open>Machine types\<close>

text \<open>
  A \<^verbatim>\<open>Pubkey\<close> is 32 bytes, compared as a whole; a \<^verbatim>\<open>Hash\<close> likewise and a \<^verbatim>\<open>Signature\<close> is
  64 bytes.
\<close>

type_synonym u8 = "8 word"
type_synonym u16 = "16 word"
type_synonym u32 = "32 word"
type_synonym u64 = "64 word"
type_synonym bytes = "u8 list"
type_synonym pubkey = "256 word"
type_synonym hash = "256 word"
type_synonym signature = "512 word"
type_synonym slot = u64

section \<open>Results\<close>

text \<open>\<open>Inl\<close> is Rust's \<^verbatim>\<open>Err\<close>, \<open>Inr\<close> its \<^verbatim>\<open>Ok\<close>; \<open>rbind\<close> is the \<^verbatim>\<open>?\<close> operator.\<close>

type_synonym ('e, 'a) result = "'e + 'a"

fun rbind :: "('e, 'a) result \<Rightarrow> ('a \<Rightarrow> ('e, 'b) result) \<Rightarrow> ('e, 'b) result" where
  "rbind (Inl e) f = Inl e"
| "rbind (Inr x) f = f x"

fun map_err :: "('e \<Rightarrow> 'd) \<Rightarrow> ('e, 'a) result \<Rightarrow> ('d, 'a) result" where
  "map_err g (Inl e) = Inl (g e)"
| "map_err g (Inr x) = Inr x"

fun ok_or :: "'a option \<Rightarrow> 'e \<Rightarrow> ('e, 'a) result" where
  "ok_or None e = Inl e"
| "ok_or (Some x) e = Inr x"

definition ensure :: "bool \<Rightarrow> 'e \<Rightarrow> ('e, unit) result" where
  "ensure b e = (if b then Inr () else Inl e)"

fun try_fold :: "('b \<Rightarrow> 'a \<Rightarrow> ('e, 'b) result) \<Rightarrow> 'b \<Rightarrow> 'a list \<Rightarrow> ('e, 'b) result" where
  "try_fold f acc [] = Inr acc"
| "try_fold f acc (x # xs) = rbind (f acc x) (\<lambda>acc'. try_fold f acc' xs)"

fun try_for_each :: "('a \<Rightarrow> ('e, unit) result) \<Rightarrow> 'a list \<Rightarrow> ('e, unit) result" where
  "try_for_each f [] = Inr ()"
| "try_for_each f (x # xs) = rbind (f x) (\<lambda>_. try_for_each f xs)"

text \<open>
  \<^verbatim>\<open>iter().map(f).collect::<Result<Vec<_>, _>>()\<close> with a closure that also updates a state:
  stops at the first error.
\<close>

fun try_map_state :: "('a \<Rightarrow> 's \<Rightarrow> ('e, 'b \<times> 's) result) \<Rightarrow> 'a list \<Rightarrow> 's \<Rightarrow> ('e, 'b list \<times> 's) result"
where
  "try_map_state f [] s = Inr ([], s)"
| "try_map_state f (x # xs) s =
     rbind (f x s) (\<lambda>(y, s'). rbind (try_map_state f xs s') (\<lambda>(ys, s''). Inr (y # ys, s'')))"

text \<open>\<^verbatim>\<open>opt.map(f).transpose()\<close> with a state.\<close>

fun try_option_state :: "('a \<Rightarrow> 's \<Rightarrow> ('e, 'b \<times> 's) result) \<Rightarrow> 'a option \<Rightarrow> 's \<Rightarrow> ('e, 'b option \<times> 's) result"
where
  "try_option_state f None s = Inr (None, s)"
| "try_option_state f (Some x) s = rbind (f x s) (\<lambda>(y, s'). Inr (Some y, s'))"

lemma rbind_Inr_iff [result_simps]: "rbind m f = Inr y \<longleftrightarrow> (\<exists>x. m = Inr x \<and> f x = Inr y)"
  by (cases m) auto

lemma rbind_Inl_iff [result_simps]:
  "rbind m f = Inl e \<longleftrightarrow> m = Inl e \<or> (\<exists>x. m = Inr x \<and> f x = Inl e)"
  by (cases m) auto

lemma ensure_Inr_iff [result_simps, simp]: "ensure b e = Inr u \<longleftrightarrow> b"
  by (simp add: ensure_def)

lemma ensure_Inl_iff [result_simps, simp]: "ensure b e = Inl e' \<longleftrightarrow> \<not> b \<and> e' = e"
  by (auto simp: ensure_def)

lemma ensure_True [simp]: "ensure True e = Inr ()"
  by (simp add: ensure_def)

lemma ensure_False [simp]: "ensure False e = Inl e"
  by (simp add: ensure_def)

lemma ok_or_Inr_iff [result_simps]: "ok_or m e = Inr x \<longleftrightarrow> m = Some x"
  by (cases m) auto

lemma ok_or_Inl_iff [result_simps]: "ok_or m e = Inl d \<longleftrightarrow> m = None \<and> d = e"
  by (cases m) auto

lemma map_err_Inr_iff [result_simps]: "map_err g m = Inr x \<longleftrightarrow> m = Inr x"
  by (cases m) auto

lemma map_err_Inl_iff [result_simps]: "map_err g m = Inl d \<longleftrightarrow> (\<exists>e. m = Inl e \<and> d = g e)"
  by (cases m) auto

lemma rbind_cong [fundef_cong]:
  "m = m' \<Longrightarrow> (\<And>x. m' = Inr x \<Longrightarrow> f x = f' x) \<Longrightarrow> rbind m f = rbind m' f'"
  by (cases m') auto

lemma try_for_each_Inr_iff [result_simps]:
  "try_for_each f xs = Inr u \<longleftrightarrow> (\<forall>x \<in> set xs. f x = Inr ())"
  by (induction xs) (auto simp: result_simps)

lemma try_map_state_length: "try_map_state f xs s = Inr (ys, s') \<Longrightarrow> length ys = length xs"
  by (induction xs arbitrary: s ys) (auto simp: result_simps split: prod.splits)

section \<open>Checked and saturating arithmetic\<close>

definition checked_add :: "'a::len word \<Rightarrow> 'a word \<Rightarrow> 'a word option" where
  "checked_add a b = (if unat a + unat b < 2 ^ LENGTH('a) then Some (a + b) else None)"

definition checked_sub :: "'a::len word \<Rightarrow> 'a word \<Rightarrow> 'a word option" where
  "checked_sub a b = (if b \<le> a then Some (a - b) else None)"

definition checked_mul :: "'a::len word \<Rightarrow> 'a word \<Rightarrow> 'a word option" where
  "checked_mul a b = (if unat a * unat b < 2 ^ LENGTH('a) then Some (a * b) else None)"

definition saturating_add :: "'a::len word \<Rightarrow> 'a word \<Rightarrow> 'a word" where
  "saturating_add a b = (case checked_add a b of Some c \<Rightarrow> c | None \<Rightarrow> - 1)"

text \<open>\<^verbatim>\<open>div_ceil\<close> on machine integers and on \<^verbatim>\<open>usize\<close> values.\<close>

definition div_ceil :: "nat \<Rightarrow> nat \<Rightarrow> nat" where
  "div_ceil a b = (let q = a div b in if a mod b > 0 then q + 1 else q)"

lemma unat_bound: "unat (w :: 'a::len word) < 2 ^ LENGTH('a)"
  by (rule unsigned_less)

lemma checked_add_Some_iff:
  "checked_add a b = Some c \<longleftrightarrow> unat (a :: 'a::len word) + unat b < 2 ^ LENGTH('a) \<and> c = a + b"
  by (auto simp: checked_add_def)

lemma unat_checked_add:
  "checked_add a b = Some c \<Longrightarrow> unat c = unat (a :: 'a::len word) + unat b"
  by (auto simp: checked_add_def unat_word_ariths split: if_splits)

lemma checked_add_None_iff:
  "checked_add a b = None \<longleftrightarrow> 2 ^ LENGTH('a) \<le> unat (a :: 'a::len word) + unat b"
  by (auto simp: checked_add_def)

lemma checked_sub_Some_iff: "checked_sub a b = Some c \<longleftrightarrow> b \<le> a \<and> c = a - b"
  by (auto simp: checked_sub_def)

lemma unat_checked_sub: "checked_sub a b = Some c \<Longrightarrow> unat c + unat b = unat a"
  by (auto simp: checked_sub_def unat_sub word_le_nat_alt split: if_splits)

lemma unat_checked_mul:
  "checked_mul a b = Some c \<Longrightarrow> unat c = unat (a :: 'a::len word) * unat b"
  by (auto simp: checked_mul_def unat_word_ariths split: if_splits)

lemma unat_minus_1: "unat (- 1 :: 'a::len word) = 2 ^ LENGTH('a) - 1"
  by (simp add: unat_eq_nat_uint uint_word_ariths zmod_minus1 nat_diff_distrib' nat_power_eq)

lemma unat_saturating_add:
  "unat (saturating_add a b) = min (unat (a :: 'a::len word) + unat b) (2 ^ LENGTH('a) - 1)"
  by (auto simp: saturating_add_def checked_add_def unat_word_ariths unat_minus_1)

lemma div_ceil_le_iff:
  assumes "0 < b"
  shows "div_ceil a b \<le> n \<longleftrightarrow> a \<le> n * b"
proof (cases "a mod b = 0")
  case True
  then have "a = a div b * b" by auto
  then have "a \<le> n * b \<longleftrightarrow> a div b * b \<le> n * b" by simp
  with True assms show ?thesis by (simp add: div_ceil_def)
next
  case False
  have "a \<le> n * b \<longleftrightarrow> a div b < n"
  proof
    assume "a \<le> n * b"
    moreover have "a \<noteq> n * b" using False by auto
    ultimately have "a < n * b" by simp
    then show "a div b < n" by (rule less_mult_imp_div_less)
  next
    assume "a div b < n"
    then have "Suc (a div b) * b \<le> n * b" by (intro mult_le_mono1) simp
    moreover have "a < Suc (a div b) * b"
      using dividend_less_div_times [OF assms, of a] by simp
    ultimately show "a \<le> n * b" by simp
  qed
  with False show ?thesis by (simp add: div_ceil_def Suc_le_eq)
qed

section \<open>Bytes\<close>

text \<open>\<^verbatim>\<open>to_le_bytes\<close> and \<^verbatim>\<open>from_le_bytes\<close> at a given width; a \<^verbatim>\<open>Pubkey\<close> is the number its 32
  bytes spell, most significant byte first.\<close>

fun le_bytes :: "nat \<Rightarrow> nat \<Rightarrow> bytes" where
  "le_bytes 0 n = []"
| "le_bytes (Suc w) n = of_nat n # le_bytes w (n div 256)"

fun le_nat :: "bytes \<Rightarrow> nat" where
  "le_nat [] = 0"
| "le_nat (b # bs) = unat b + 256 * le_nat bs"

definition field :: "nat \<Rightarrow> nat \<Rightarrow> bytes \<Rightarrow> nat" where
  "field a w bs = le_nat (take w (drop a bs))"

definition pubkey_bytes :: "pubkey \<Rightarrow> bytes" where
  "pubkey_bytes k = rev (le_bytes 32 (unat k))"

definition pubkey_of_bytes :: "bytes \<Rightarrow> pubkey" where
  "pubkey_of_bytes bs = of_nat (le_nat (rev bs))"

lemma length_le_bytes [simp]: "length (le_bytes w n) = w"
  by (induction w n rule: le_bytes.induct) auto

lemma le_nat_bytes: "n < 256 ^ w \<Longrightarrow> le_nat (le_bytes w n) = n"
proof (induction w n rule: le_bytes.induct)
  case (2 w n)
  have "n div 256 < 256 ^ w" using 2(2) by (simp add: less_mult_imp_div_less mult.commute)
  then show ?case using 2(1) by (simp add: unat_of_nat)
qed simp

lemma le_nat_unat:
  "le_nat (le_bytes 32 (unat (k :: pubkey))) = unat k" "le_nat (le_bytes 8 (unat (x :: u64))) = unat x"
  "le_nat (le_bytes 4 (unat (y :: u32))) = unat y" "le_nat (le_bytes 2 (unat (z :: u16))) = unat z"
  using unat_bound [of k] unat_bound [of x] unat_bound [of y] unat_bound [of z] by (simp_all add: le_nat_bytes)

lemma length_pubkey_bytes [simp]: "length (pubkey_bytes k) = 32"
  by (simp add: pubkey_bytes_def)

lemma pubkey_of_bytes_inverse [simp]: "pubkey_of_bytes (pubkey_bytes k) = k"
  by (simp add: pubkey_of_bytes_def pubkey_bytes_def le_nat_unat)

lemma le_nat_bound: "le_nat bs < 256 ^ length bs"
proof (induction bs)
  case (Cons b bs)
  have "unat b < 256" using unat_bound [of b] by simp
  with Cons show ?case by simp
qed simp

lemma le_bytes_nat [simp]: "le_bytes (length bs) (le_nat bs) = bs"
proof (induction bs)
  case (Cons b bs)
  have "unat b < 256" using unat_bound [of b] by simp
  then have "(unat b + 256 * le_nat bs) mod 2 ^ LENGTH(8) = unat b" by simp
  then have "(of_nat (unat b + 256 * le_nat bs) :: u8) = b"
    by (simp only: word_unat_eq_iff unat_of_nat)
  moreover have "(unat b + 256 * le_nat bs) div 256 = le_nat bs" using \<open>unat b < 256\<close> by simp
  ultimately show ?case using Cons by (simp only: le_nat.simps le_bytes.simps list.size add_0_right add_Suc_right)
qed simp

lemma pubkey_bytes_inverse:
  assumes "length bs = 32" shows "pubkey_bytes (pubkey_of_bytes bs) = bs"
proof -
  have "le_nat (rev bs) < 2 ^ 256" using le_nat_bound [of "rev bs"] assms by simp
  then have "unat (of_nat (le_nat (rev bs)) :: pubkey) = le_nat (rev bs)" by (simp add: unat_of_nat)
  then show ?thesis using le_bytes_nat [of "rev bs"] assms by (simp add: pubkey_bytes_def pubkey_of_bytes_def)
qed

lemma le_bytes_u64_inverse:
  assumes "length bs = 8" shows "le_bytes 8 (unat (of_nat (le_nat bs) :: u64)) = bs"
proof -
  have "le_nat bs < 2 ^ 64" using le_nat_bound [of bs] assms by simp
  then have "unat (of_nat (le_nat bs) :: u64) = le_nat bs" by (simp add: unat_of_nat)
  then show ?thesis using le_bytes_nat [of bs] assms by simp
qed

text \<open>A seed of a program address: a key, a constant, the little-endian bytes of an id, or a bump.\<close>

datatype seed = Seed_Key pubkey | Seed_Bytes string | Seed_Le u64 | Seed_Bump u8

text \<open>A derivation of addresses for the concrete instances.\<close>

fun seed_code :: "seed \<Rightarrow> pubkey" where
  "seed_code (Seed_Key k) = k"
| "seed_code (Seed_Bytes s) = (if s = ''comittor_chunks'' then 1 else 2)"
| "seed_code (Seed_Le i) = ucast i"
| "seed_code (Seed_Bump b) = ucast b"

definition example_address :: "seed list \<Rightarrow> pubkey \<Rightarrow> pubkey" where
  "example_address seeds p = foldl (\<lambda>acc s. acc * 3 + seed_code s) p seeds"

text \<open>How an instruction passes an account.\<close>

record account_meta =
  am_pubkey :: pubkey
  am_is_signer :: bool
  am_is_writable :: bool

section \<open>Hash maps\<close>

text \<open>
  A \<^verbatim>\<open>HashMap\<close> (or \<^verbatim>\<open>BTreeMap\<close>) is an association list with distinct keys; its order is the
  iteration order, which Rust leaves unspecified, so no property may depend on it. A
  \<^verbatim>\<open>HashSet\<close> is a set.
\<close>

type_synonym ('k, 'v) hashmap = "('k \<times> 'v) list"

abbreviation hm_get :: "('k, 'v) hashmap \<Rightarrow> 'k \<Rightarrow> 'v option" where
  "hm_get \<equiv> map_of"

abbreviation hm_insert :: "'k \<Rightarrow> 'v \<Rightarrow> ('k, 'v) hashmap \<Rightarrow> ('k, 'v) hashmap" where
  "hm_insert \<equiv> AList.update"

abbreviation hm_remove :: "'k \<Rightarrow> ('k, 'v) hashmap \<Rightarrow> ('k, 'v) hashmap" where
  "hm_remove \<equiv> AList.delete"

definition hm_contains :: "('k, 'v) hashmap \<Rightarrow> 'k \<Rightarrow> bool" where
  "hm_contains m k = (hm_get m k \<noteq> None)"

abbreviation hm_distinct :: "('k, 'v) hashmap \<Rightarrow> bool" where
  "hm_distinct m \<equiv> distinct (map fst m)"

declare map_of_eq_Some_iff [simp del]

lemma hm_get_insert [hashmap_simps, simp]:
  "hm_get (hm_insert k v m) = (hm_get m)(k \<mapsto> v)"
  by (rule update_conv')

lemma hm_get_remove [hashmap_simps, simp]:
  "hm_get (hm_remove k m) = (hm_get m)(k := None)"
  by (rule delete_conv')

lemma hm_contains_iff [hashmap_simps, simp]: "hm_contains m k \<longleftrightarrow> k \<in> dom (hm_get m)"
  by (auto simp: hm_contains_def)

lemma hm_distinct_insert [simp]: "hm_distinct m \<Longrightarrow> hm_distinct (hm_insert k v m)"
  by (rule distinct_update)

lemma hm_distinct_remove [simp]: "hm_distinct m \<Longrightarrow> hm_distinct (hm_remove k m)"
  by (rule distinct_delete)

lemma hm_mem_iff: "hm_distinct m \<Longrightarrow> (k, v) \<in> set m \<longleftrightarrow> hm_get m k = Some v"
  by (simp add: map_of_eq_Some_iff)

lemma hm_length_remove:
  "hm_distinct m \<Longrightarrow> hm_get m k = Some v \<Longrightarrow> Suc (length (hm_remove k m)) = length m"
proof (induction m)
  case (Cons p m)
  show ?case
  proof (cases "fst p = k")
    case True
    with Cons.prems have "k \<notin> set (map fst m)" by auto
    then have "hm_remove k m = m" by (induction m) auto
    with True show ?thesis by (cases p) simp
  next
    case False
    with Cons show ?thesis by (cases p) auto
  qed
qed simp

lemma card_filter_hm:
  assumes "hm_distinct m"
  shows "length (filter (\<lambda>(k, v). P k v) m) = card {k. \<exists>v. hm_get m k = Some v \<and> P k v}"
proof -
  let ?F = "filter (\<lambda>(k, v). P k v) m"
  have "{k. \<exists>v. hm_get m k = Some v \<and> P k v} = set (map fst ?F)"
    using hm_mem_iff [OF assms] by force
  moreover have "distinct (map fst ?F)"
    using assms by (simp add: distinct_map_filter)
  ultimately show ?thesis
    by (metis distinct_card length_map)
qed

section \<open>Invariants of step relations\<close>

text \<open>The contract that makes a predicate an invariant of every run of a step relation.\<close>

locale invariant_system =
  fixes initial :: "'s \<Rightarrow> bool"
    and step :: "'s \<Rightarrow> 's \<Rightarrow> bool"
    and inv :: "'s \<Rightarrow> bool"
  assumes inv_initial: "initial s \<Longrightarrow> inv s"
    and inv_step: "inv s \<Longrightarrow> step s t \<Longrightarrow> inv t"
begin

lemma reachable_inv: "initial s \<Longrightarrow> step\<^sup>*\<^sup>* s t \<Longrightarrow> inv t"
proof -
  assume init: "initial s" and steps: "step\<^sup>*\<^sup>* s t"
  from steps show "inv t"
    by (induction rule: rtranclp_induct) (auto intro: inv_initial [OF init] inv_step)
qed

end

lemma map_eqI: "(\<And>k v. m k = Some v \<longleftrightarrow> n k = Some v) \<Longrightarrow> m = n"
  by (rule ext) (metis not_None_eq)

section \<open>Instruction errors\<close>

text \<open>The variants of Solana's \<^verbatim>\<open>InstructionError\<close> that the programs return or that the committor
  inspects.\<close>

datatype instruction_error =
    GenericError
  | InvalidArgument
  | InvalidInstructionData
  | InvalidSeeds
  | InvalidAccountData
  | AccountDataTooSmall
  | InsufficientFunds
  | IncorrectProgramId
  | MissingRequiredSignature
  | UnsupportedProgramId
  | MissingAccount
  | ReadonlyDataModified
  | ArithmeticOverflow
  | UnsupportedSysvar
  | Immutable
  | IncorrectAuthority
  | InvalidAccountOwner
  | IllegalOwner
  | CallDepth
  | AccountBorrowFailed
  | MaxInstructionTraceLengthExceeded
  | Custom u32

end
