(* ===== verification/Intent_Model.thy ===== *)
theory Intent_Model
  imports Prelude
begin

text \<open>
  The intent data model shared by scheduling and settlement: \<^verbatim>\<open>core/src/intent/mod.rs\<close> and
  the account type of \<^verbatim>\<open>core/src/intent/types.rs\<close>. A bundle collects up to four groups of
  accounts to commit and a list of standalone actions; the theory models its fee, its
  accessors and the in-place action update, and shows that they agree with one flat view of
  the bundle.
\<close>

section \<open>Data\<close>

definition ACTUAL_COMMIT_LIMIT :: u64 where "ACTUAL_COMMIT_LIMIT = 25"
definition COMMIT_FEE_LAMPORTS :: u64 where "COMMIT_FEE_LAMPORTS = 1000000"
definition COMPUTE_UNIT_PRICE_MICRO_LAMPORTS :: u64 where
  "COMPUTE_UNIT_PRICE_MICRO_LAMPORTS = 50000"
definition MISSING_COMMIT_NONCE_ERR :: u32 where "MISSING_COMMIT_NONCE_ERR = 0xA0000001"

text \<open>Solana's \<^verbatim>\<open>Account\<close>, with the five fields its literals name.\<close>

record account =
  acc_lamports :: u64
  acc_data :: bytes
  acc_owner :: pubkey
  acc_executable :: bool
  acc_rent_epoch :: u64

record committed_account =
  ca_pubkey :: pubkey
  ca_account :: account
  ca_remote_slot :: u64
  ca_commit_id :: u64

record short_account_meta =
  sam_pubkey :: pubkey
  sam_is_writable :: bool

record program_args =
  pa_escrow_index :: u8
  pa_data :: bytes

record base_action_callback =
  cb_destination_program :: pubkey
  cb_discriminator :: bytes
  cb_payload :: bytes
  cb_compute_units :: u32
  cb_account_metas_per_program :: "short_account_meta list"

record base_action =
  act_id :: u64
  act_compute_units :: u32
  act_destination_program :: pubkey
  act_source_program :: "pubkey option"
  act_escrow_authority :: pubkey
  act_data_per_program :: program_args
  act_account_metas_per_program :: "short_account_meta list"
  act_callback :: "base_action_callback option"

datatype commit_type =
    Commit_Standalone "committed_account list"
  | Commit_WithBaseActions "committed_account list" "base_action list"

datatype undelegate_type =
    Undelegate_Standalone
  | Undelegate_WithBaseActions "base_action list"

record commit_and_undelegate =
  commit_action :: commit_type
  undelegate_action :: undelegate_type

datatype magic_base_intent =
    BaseActions "base_action list"
  | Commit commit_type
  | CommitAndUndelegate commit_and_undelegate
  | CommitFinalize commit_type
  | CommitFinalizeAndUndelegate commit_and_undelegate

record magic_intent_bundle =
  mib_commit :: "commit_type option"
  mib_commit_and_undelegate :: "commit_and_undelegate option"
  mib_commit_finalize :: "commit_type option"
  mib_commit_finalize_and_undelegate :: "commit_and_undelegate option"
  mib_standalone_actions :: "base_action list"

definition default_bundle :: magic_intent_bundle where
  "default_bundle = \<lparr>mib_commit = None, mib_commit_and_undelegate = None,
     mib_commit_finalize = None, mib_commit_finalize_and_undelegate = None,
     mib_standalone_actions = []\<rparr>"

fun bundle_from_base_intent :: "magic_base_intent \<Rightarrow> magic_intent_bundle" where
  "bundle_from_base_intent (BaseActions v) =
     default_bundle\<lparr>mib_standalone_actions := mib_standalone_actions default_bundle @ v\<rparr>"
| "bundle_from_base_intent (Commit v) = default_bundle\<lparr>mib_commit := Some v\<rparr>"
| "bundle_from_base_intent (CommitAndUndelegate v) =
     default_bundle\<lparr>mib_commit_and_undelegate := Some v\<rparr>"
| "bundle_from_base_intent (CommitFinalize v) = default_bundle\<lparr>mib_commit_finalize := Some v\<rparr>"
| "bundle_from_base_intent (CommitFinalizeAndUndelegate v) =
     default_bundle\<lparr>mib_commit_finalize_and_undelegate := Some v\<rparr>"

section \<open>Commit and undelegate groups\<close>

fun ct_get_committed_accounts :: "commit_type \<Rightarrow> committed_account list" where
  "ct_get_committed_accounts (Commit_Standalone cas) = cas"
| "ct_get_committed_accounts (Commit_WithBaseActions cas bas) = cas"

definition ct_get_committed_pubkeys :: "commit_type \<Rightarrow> pubkey list" where
  "ct_get_committed_pubkeys c = map ca_pubkey (ct_get_committed_accounts c)"

fun ct_is_empty :: "commit_type \<Rightarrow> bool" where
  "ct_is_empty (Commit_Standalone cas) = (cas = [])"
| "ct_is_empty (Commit_WithBaseActions cas bas) = (cas = [])"

fun ct_has_callbacks :: "commit_type \<Rightarrow> bool" where
  "ct_has_callbacks (Commit_WithBaseActions cas bas) = list_ex (\<lambda>el. act_callback el \<noteq> None) bas"
| "ct_has_callbacks (Commit_Standalone cas) = False"

definition cau_get_committed_accounts :: "commit_and_undelegate \<Rightarrow> committed_account list" where
  "cau_get_committed_accounts c = ct_get_committed_accounts (commit_action c)"

definition cau_get_committed_pubkeys :: "commit_and_undelegate \<Rightarrow> pubkey list" where
  "cau_get_committed_pubkeys c = ct_get_committed_pubkeys (commit_action c)"

definition cau_is_empty :: "commit_and_undelegate \<Rightarrow> bool" where
  "cau_is_empty c = ct_is_empty (commit_action c)"

definition cau_has_callbacks :: "commit_and_undelegate \<Rightarrow> bool" where
  "cau_has_callbacks c =
     (let x = ct_has_callbacks (commit_action c);
          y = (case undelegate_action c of
                 Undelegate_WithBaseActions actions \<Rightarrow> list_ex (\<lambda>el. act_callback el \<noteq> None) actions
               | _ \<Rightarrow> False)
      in x \<or> y)"

text \<open>
  The fees. Additions on \<^verbatim>\<open>u64\<close> wrap, as in a release build; the fold over compute units
  saturates.
\<close>

definition calculate_commit_fee :: "committed_account list \<Rightarrow> (instruction_error, u64) result" where
  "calculate_commit_fee accounts = try_fold (\<lambda>fee account.
       if ca_commit_id account = 0 then Inl (Custom MISSING_COMMIT_NONCE_ERR)
       else Inr (fee + (if ca_commit_id account > ACTUAL_COMMIT_LIMIT then COMMIT_FEE_LAMPORTS else 0)))
     0 accounts"

definition calculate_actions_fee :: "base_action list \<Rightarrow> u64" where
  "calculate_actions_fee actions =
     (let micro_lamports = foldl (\<lambda>acc action. saturating_add acc
            (ucast (act_compute_units action) * COMPUTE_UNIT_PRICE_MICRO_LAMPORTS)) (0 :: u64) actions
      in word_of_nat (div_ceil (unat micro_lamports) 1000000))"

fun ct_calculate_fee :: "commit_type \<Rightarrow> (instruction_error, u64) result" where
  "ct_calculate_fee (Commit_Standalone cas) =
     rbind (calculate_commit_fee cas) (\<lambda>f. Inr (0 + f))"
| "ct_calculate_fee (Commit_WithBaseActions cas bas) =
     rbind (calculate_commit_fee cas) (\<lambda>f. Inr (0 + f + calculate_actions_fee bas))"

fun ut_calculate_fee :: "undelegate_type \<Rightarrow> (instruction_error, u64) result" where
  "ut_calculate_fee Undelegate_Standalone = Inr 0"
| "ut_calculate_fee (Undelegate_WithBaseActions actions) = Inr (calculate_actions_fee actions)"

definition cau_calculate_fee :: "commit_and_undelegate \<Rightarrow> (instruction_error, u64) result" where
  "cau_calculate_fee c =
     rbind (ct_calculate_fee (commit_action c)) (\<lambda>f1.
     rbind (ut_calculate_fee (undelegate_action c)) (\<lambda>f2. Inr (0 + f1 + f2)))"

section \<open>Bundles\<close>

text \<open>\<open>add_fee_of f (Some v) fee\<close> is \<^verbatim>\<open>if let Some(ref v) = opt { fee += f(v)?; }\<close>.\<close>

fun add_fee_of :: "('a \<Rightarrow> (instruction_error, u64) result) \<Rightarrow> 'a option \<Rightarrow> u64 \<Rightarrow> (instruction_error, u64) result"
where
  "add_fee_of f None fee = Inr fee"
| "add_fee_of f (Some v) fee = rbind (f v) (\<lambda>x. Inr (fee + x))"

definition calculate_fee :: "magic_intent_bundle \<Rightarrow> (instruction_error, u64) result" where
  "calculate_fee b =
     rbind (add_fee_of ct_calculate_fee (mib_commit b) 0) (\<lambda>fee.
     rbind (add_fee_of cau_calculate_fee (mib_commit_and_undelegate b) fee) (\<lambda>fee.
     rbind (add_fee_of ct_calculate_fee (mib_commit_finalize b) fee) (\<lambda>fee.
     rbind (add_fee_of cau_calculate_fee (mib_commit_finalize_and_undelegate b) fee) (\<lambda>fee.
     Inr (fee + calculate_actions_fee (mib_standalone_actions b))))))"

definition has_undelegate_intent :: "magic_intent_bundle \<Rightarrow> bool" where
  "has_undelegate_intent b \<longleftrightarrow>
     mib_commit_and_undelegate b \<noteq> None \<or> mib_commit_finalize_and_undelegate b \<noteq> None"

definition get_undelegate_intent_accounts :: "magic_intent_bundle \<Rightarrow> committed_account list option" where
  "get_undelegate_intent_accounts b = map_option cau_get_committed_accounts (mib_commit_and_undelegate b)"

definition get_commit_intent_accounts :: "magic_intent_bundle \<Rightarrow> committed_account list option" where
  "get_commit_intent_accounts b = map_option ct_get_committed_accounts (mib_commit b)"

definition get_commit_finalize_and_undelegate_intent_accounts ::
    "magic_intent_bundle \<Rightarrow> committed_account list option" where
  "get_commit_finalize_and_undelegate_intent_accounts b =
     map_option cau_get_committed_accounts (mib_commit_finalize_and_undelegate b)"

definition get_commit_finalize_intent_accounts ::
    "magic_intent_bundle \<Rightarrow> committed_account list option" where
  "get_commit_finalize_intent_accounts b = map_option ct_get_committed_accounts (mib_commit_finalize b)"

text \<open>\<^verbatim>\<open>map(|el| !el.is_empty()).unwrap_or(false)\<close> on an optional list.\<close>

definition some_nonempty :: "'a list option \<Rightarrow> bool" where
  "some_nonempty x = (case x of None \<Rightarrow> False | Some xs \<Rightarrow> xs \<noteq> [])"

definition has_committed_accounts :: "magic_intent_bundle \<Rightarrow> bool" where
  "has_committed_accounts b =
     (let has_commit_intent_accounts = some_nonempty (get_commit_intent_accounts b);
          has_undelegate_intent_accounts = some_nonempty (get_undelegate_intent_accounts b);
          has_commit_finalize_intent_accounts = some_nonempty (get_commit_finalize_intent_accounts b);
          has_commit_finalize_and_undelegate_intent_accounts =
            some_nonempty (get_commit_finalize_and_undelegate_intent_accounts b)
      in has_commit_intent_accounts \<or> has_undelegate_intent_accounts \<or>
         has_commit_finalize_intent_accounts \<or> has_commit_finalize_and_undelegate_intent_accounts)"

text \<open>\<^verbatim>\<open>flatten\<close> over options of lists.\<close>

definition flatten_options :: "'a list option list \<Rightarrow> 'a list" where
  "flatten_options xs = concat (map (\<lambda>x. case x of None \<Rightarrow> [] | Some ys \<Rightarrow> ys) xs)"

definition get_all_committed_accounts :: "magic_intent_bundle \<Rightarrow> committed_account list" where
  "get_all_committed_accounts b =
     flatten_options [get_commit_intent_accounts b, get_undelegate_intent_accounts b,
       get_commit_finalize_intent_accounts b, get_commit_finalize_and_undelegate_intent_accounts b]"

definition get_commit_intent_pubkeys :: "magic_intent_bundle \<Rightarrow> pubkey list option" where
  "get_commit_intent_pubkeys b = map_option ct_get_committed_pubkeys (mib_commit b)"

definition get_undelegate_intent_pubkeys :: "magic_intent_bundle \<Rightarrow> pubkey list option" where
  "get_undelegate_intent_pubkeys b = map_option cau_get_committed_pubkeys (mib_commit_and_undelegate b)"

definition get_commit_finalize_intent_pubkeys :: "magic_intent_bundle \<Rightarrow> pubkey list option" where
  "get_commit_finalize_intent_pubkeys b = map_option ct_get_committed_pubkeys (mib_commit_finalize b)"

definition get_commit_finalize_and_undelegate_intent_pubkeys ::
    "magic_intent_bundle \<Rightarrow> pubkey list option" where
  "get_commit_finalize_and_undelegate_intent_pubkeys b =
     map_option cau_get_committed_pubkeys (mib_commit_finalize_and_undelegate b)"

definition get_all_committed_pubkeys :: "magic_intent_bundle \<Rightarrow> pubkey list" where
  "get_all_committed_pubkeys b =
     flatten_options [get_commit_intent_pubkeys b, get_undelegate_intent_pubkeys b,
       get_commit_finalize_intent_pubkeys b, get_commit_finalize_and_undelegate_intent_pubkeys b]"

text \<open>\<^verbatim>\<open>as_ref().map(|el| el.is_empty()).unwrap_or(true)\<close>\<close>

definition none_or :: "('a \<Rightarrow> bool) \<Rightarrow> 'a option \<Rightarrow> bool" where
  "none_or p x = (case x of None \<Rightarrow> True | Some v \<Rightarrow> p v)"

definition bundle_is_empty :: "magic_intent_bundle \<Rightarrow> bool" where
  "bundle_is_empty b =
     (let no_committed = none_or ct_is_empty (mib_commit b);
          no_committed_and_undelegated = none_or cau_is_empty (mib_commit_and_undelegate b);
          no_commit_finalize = none_or ct_is_empty (mib_commit_finalize b);
          no_commit_finalize_and_undelegate = none_or cau_is_empty (mib_commit_finalize_and_undelegate b);
          no_actions = (mib_standalone_actions b = [])
      in no_committed \<and> no_committed_and_undelegated \<and> no_commit_finalize \<and>
         no_commit_finalize_and_undelegate \<and> no_actions)"

definition bundle_has_callbacks :: "magic_intent_bundle \<Rightarrow> bool" where
  "bundle_has_callbacks b =
     (let x = (case mib_commit b of None \<Rightarrow> False | Some el \<Rightarrow> ct_has_callbacks el);
          y = (case mib_commit_and_undelegate b of None \<Rightarrow> False | Some el \<Rightarrow> cau_has_callbacks el);
          cf = (case mib_commit_finalize b of None \<Rightarrow> False | Some el \<Rightarrow> ct_has_callbacks el);
          cfau = (case mib_commit_finalize_and_undelegate b of None \<Rightarrow> False
                  | Some el \<Rightarrow> cau_has_callbacks el);
          z = list_ex (\<lambda>el. act_callback el \<noteq> None) (mib_standalone_actions b)
      in x \<or> y \<or> cf \<or> cfau \<or> z)"

text \<open>
  \<^verbatim>\<open>get_action_mut\<close> hands out a mutable reference to the first action with the given id. Its
  caller's write is the function \<open>f\<close>; the result is the bundle after the write, or \<open>None\<close>
  when no action has the id.
\<close>

fun update_first :: "('a \<Rightarrow> bool) \<Rightarrow> ('a \<Rightarrow> 'a) \<Rightarrow> 'a list \<Rightarrow> 'a list option" where
  "update_first p f [] = None"
| "update_first p f (x # xs) =
     (if p x then Some (f x # xs) else map_option (\<lambda>ys. x # ys) (update_first p f xs))"

fun ct_get_action_mut :: "u64 \<Rightarrow> (base_action \<Rightarrow> base_action) \<Rightarrow> commit_type \<Rightarrow> commit_type option" where
  "ct_get_action_mut i f (Commit_WithBaseActions cas bas) =
     map_option (Commit_WithBaseActions cas) (update_first (\<lambda>a. act_id a = i) f bas)"
| "ct_get_action_mut i f (Commit_Standalone cas) = None"

fun ut_get_action_mut :: "u64 \<Rightarrow> (base_action \<Rightarrow> base_action) \<Rightarrow> undelegate_type \<Rightarrow> undelegate_type option"
where
  "ut_get_action_mut i f (Undelegate_WithBaseActions actions) =
     map_option Undelegate_WithBaseActions (update_first (\<lambda>a. act_id a = i) f actions)"
| "ut_get_action_mut i f Undelegate_Standalone = None"

definition cau_get_action_mut ::
    "u64 \<Rightarrow> (base_action \<Rightarrow> base_action) \<Rightarrow> commit_and_undelegate \<Rightarrow> commit_and_undelegate option" where
  "cau_get_action_mut i f c =
     (case ct_get_action_mut i f (commit_action c) of
        Some ct \<Rightarrow> Some (c\<lparr>commit_action := ct\<rparr>)
      | None \<Rightarrow> map_option (\<lambda>ut. c\<lparr>undelegate_action := ut\<rparr>) (ut_get_action_mut i f (undelegate_action c)))"

definition get_action_mut ::
    "u64 \<Rightarrow> (base_action \<Rightarrow> base_action) \<Rightarrow> magic_intent_bundle \<Rightarrow> magic_intent_bundle option" where
  "get_action_mut i f b =
     (case Option.bind (mib_commit b) (ct_get_action_mut i f) of
        Some c \<Rightarrow> Some (b\<lparr>mib_commit := Some c\<rparr>)
      | None \<Rightarrow>
     (case Option.bind (mib_commit_and_undelegate b) (cau_get_action_mut i f) of
        Some c \<Rightarrow> Some (b\<lparr>mib_commit_and_undelegate := Some c\<rparr>)
      | None \<Rightarrow>
     (case update_first (\<lambda>a. act_id a = i) f (mib_standalone_actions b) of
        Some acts \<Rightarrow> Some (b\<lparr>mib_standalone_actions := acts\<rparr>)
      | None \<Rightarrow>
     (case Option.bind (mib_commit_finalize b) (ct_get_action_mut i f) of
        Some c \<Rightarrow> Some (b\<lparr>mib_commit_finalize := Some c\<rparr>)
      | None \<Rightarrow>
     (case Option.bind (mib_commit_finalize_and_undelegate b) (cau_get_action_mut i f) of
        Some c \<Rightarrow> Some (b\<lparr>mib_commit_finalize_and_undelegate := Some c\<rparr>)
      | None \<Rightarrow> None)))))"

definition validate_callback_destination :: "base_action \<Rightarrow> pubkey \<Rightarrow> (instruction_error, unit) result" where
  "validate_callback_destination a destination =
     (if act_source_program a = Some destination then Inr () else Inl InvalidInstructionData)"

section \<open>Single intents\<close>

fun is_undelegate :: "magic_base_intent \<Rightarrow> bool" where
  "is_undelegate (BaseActions _) = False"
| "is_undelegate (Commit _) = False"
| "is_undelegate (CommitAndUndelegate _) = True"
| "is_undelegate (CommitFinalize _) = False"
| "is_undelegate (CommitFinalizeAndUndelegate _) = True"

fun is_commit_finalize :: "magic_base_intent \<Rightarrow> bool" where
  "is_commit_finalize (BaseActions _) = False"
| "is_commit_finalize (Commit _) = False"
| "is_commit_finalize (CommitAndUndelegate _) = False"
| "is_commit_finalize (CommitFinalize _) = True"
| "is_commit_finalize (CommitFinalizeAndUndelegate _) = True"

fun get_committed_accounts :: "magic_base_intent \<Rightarrow> committed_account list option" where
  "get_committed_accounts (BaseActions _) = None"
| "get_committed_accounts (Commit t) = Some (ct_get_committed_accounts t)"
| "get_committed_accounts (CommitAndUndelegate t) = Some (cau_get_committed_accounts t)"
| "get_committed_accounts (CommitFinalize t) = Some (ct_get_committed_accounts t)"
| "get_committed_accounts (CommitFinalizeAndUndelegate t) = Some (cau_get_committed_accounts t)"

definition get_committed_pubkeys :: "magic_base_intent \<Rightarrow> pubkey list option" where
  "get_committed_pubkeys i = map_option (map ca_pubkey) (get_committed_accounts i)"

fun base_intent_is_empty :: "magic_base_intent \<Rightarrow> bool" where
  "base_intent_is_empty (BaseActions actions) = (actions = [])"
| "base_intent_is_empty (Commit t) = ct_is_empty t"
| "base_intent_is_empty (CommitAndUndelegate t) = cau_is_empty t"
| "base_intent_is_empty (CommitFinalize t) = ct_is_empty t"
| "base_intent_is_empty (CommitFinalizeAndUndelegate t) = cau_is_empty t"

section \<open>The flat view of a bundle\<close>

fun ct_actions :: "commit_type \<Rightarrow> base_action list" where
  "ct_actions (Commit_Standalone cas) = []"
| "ct_actions (Commit_WithBaseActions cas bas) = bas"

fun ut_actions :: "undelegate_type \<Rightarrow> base_action list" where
  "ut_actions Undelegate_Standalone = []"
| "ut_actions (Undelegate_WithBaseActions bas) = bas"

definition cau_actions :: "commit_and_undelegate \<Rightarrow> base_action list" where
  "cau_actions c = ct_actions (commit_action c) @ ut_actions (undelegate_action c)"

fun opt_list :: "('a \<Rightarrow> 'b list) \<Rightarrow> 'a option \<Rightarrow> 'b list" where
  "opt_list f None = []"
| "opt_list f (Some x) = f x"

text \<open>All actions of a bundle, in the order in which ids are given out and looked up.\<close>

definition bundle_actions :: "magic_intent_bundle \<Rightarrow> base_action list" where
  "bundle_actions b =
     opt_list ct_actions (mib_commit b) @ opt_list cau_actions (mib_commit_and_undelegate b) @
     mib_standalone_actions b @
     opt_list ct_actions (mib_commit_finalize b) @
     opt_list cau_actions (mib_commit_finalize_and_undelegate b)"

text \<open>The lists of actions that are priced together (the micro-lamport sum of each is rounded up once).\<close>

definition bundle_action_groups :: "magic_intent_bundle \<Rightarrow> base_action list list" where
  "bundle_action_groups b =
     opt_list (\<lambda>c. [ct_actions c]) (mib_commit b) @
     opt_list (\<lambda>c. [ct_actions (commit_action c), ut_actions (undelegate_action c)])
       (mib_commit_and_undelegate b) @
     opt_list (\<lambda>c. [ct_actions c]) (mib_commit_finalize b) @
     opt_list (\<lambda>c. [ct_actions (commit_action c), ut_actions (undelegate_action c)])
       (mib_commit_finalize_and_undelegate b) @
     [mib_standalone_actions b]"

definition actions_fee_nat :: "base_action list \<Rightarrow> nat" where
  "actions_fee_nat acts =
     div_ceil (min (\<Sum>a \<leftarrow> acts. unat (act_compute_units a) * 50000) (2 ^ 64 - 1)) 1000000"

definition charged_commits :: "committed_account list \<Rightarrow> nat" where
  "charged_commits cas = length (filter (\<lambda>a. ca_commit_id a > ACTUAL_COMMIT_LIMIT) cas)"

definition bundle_fee_nat :: "magic_intent_bundle \<Rightarrow> nat" where
  "bundle_fee_nat b = charged_commits (get_all_committed_accounts b) * 1000000
     + (\<Sum>g \<leftarrow> bundle_action_groups b. actions_fee_nat g)"

definition has_unreserved :: "committed_account list \<Rightarrow> bool" where
  "has_unreserved cas = list_ex (\<lambda>a. ca_commit_id a = 0) cas"

section \<open>Lemmas\<close>

lemma flatten_options_simps [simp]:
  "flatten_options [] = []"
  "flatten_options (None # xs) = flatten_options xs"
  "flatten_options (Some ys # xs) = ys @ flatten_options xs"
  by (simp_all add: flatten_options_def)

lemma charged_commits_append [simp]:
  "charged_commits (xs @ ys) = charged_commits xs + charged_commits ys"
  by (simp add: charged_commits_def)

lemma has_unreserved_append [simp]:
  "has_unreserved (xs @ ys) \<longleftrightarrow> has_unreserved xs \<or> has_unreserved ys"
  by (simp add: has_unreserved_def)

lemma commit_fee_fold:
  "try_fold (\<lambda>fee account.
       if ca_commit_id account = 0 then Inl (Custom MISSING_COMMIT_NONCE_ERR)
       else Inr (fee + (if ca_commit_id account > ACTUAL_COMMIT_LIMIT then COMMIT_FEE_LAMPORTS else 0)))
     acc cas =
   (if has_unreserved cas then Inl (Custom MISSING_COMMIT_NONCE_ERR)
    else Inr (acc + word_of_nat (charged_commits cas * 1000000)))"
proof (induction cas arbitrary: acc)
  case Nil
  then show ?case by (simp add: has_unreserved_def charged_commits_def)
next
  case (Cons a cas)
  then show ?case
    by (simp add: has_unreserved_def charged_commits_def COMMIT_FEE_LAMPORTS_def distrib_right)
qed

lemma calculate_commit_fee_eq:
  "calculate_commit_fee cas =
     (if has_unreserved cas then Inl (Custom MISSING_COMMIT_NONCE_ERR)
      else Inr (word_of_nat (charged_commits cas * 1000000)))"
  by (simp add: calculate_commit_fee_def commit_fee_fold)

lemma unat_action_price:
  "unat (ucast (cu :: u32) * COMPUTE_UNIT_PRICE_MICRO_LAMPORTS :: u64) = unat cu * 50000"
proof -
  have "unat cu < 2 ^ 32" using unat_bound [of cu] by simp
  then show ?thesis
    by (simp add: COMPUTE_UNIT_PRICE_MICRO_LAMPORTS_def unat_word_ariths unsigned_ucast_eq take_bit_nat_eq_self)
qed

lemma actions_fee_fold:
  "unat (foldl (\<lambda>acc action. saturating_add acc
       (ucast (act_compute_units action) * COMPUTE_UNIT_PRICE_MICRO_LAMPORTS)) (acc :: u64) actions)
   = min (unat acc + (\<Sum>a \<leftarrow> actions. unat (act_compute_units a) * 50000)) (2 ^ 64 - 1)"
proof (induction actions arbitrary: acc)
  case Nil
  then show ?case using unat_bound [of acc] by simp
next
  case (Cons a actions)
  show ?case by (simp add: Cons.IH unat_saturating_add unat_action_price)
qed

lemma calculate_actions_fee_eq: "calculate_actions_fee acts = word_of_nat (actions_fee_nat acts)"
  by (simp add: calculate_actions_fee_def actions_fee_nat_def actions_fee_fold)

lemma actions_fee_nat_bound: "actions_fee_nat acts \<le> 18446744073710"
  by (simp add: actions_fee_nat_def div_ceil_le_iff)

lemma actions_fee_nat_Nil [simp]: "actions_fee_nat [] = 0"
  by (simp add: actions_fee_nat_def div_ceil_def)

lemma ct_calculate_fee_eq:
  "ct_calculate_fee c =
     (if has_unreserved (ct_get_committed_accounts c) then Inl (Custom MISSING_COMMIT_NONCE_ERR)
      else Inr (word_of_nat (charged_commits (ct_get_committed_accounts c) * 1000000
        + actions_fee_nat (ct_actions c))))"
  by (cases c) (simp_all add: calculate_commit_fee_eq calculate_actions_fee_eq)

lemma cau_calculate_fee_eq:
  "cau_calculate_fee c =
     (if has_unreserved (cau_get_committed_accounts c) then Inl (Custom MISSING_COMMIT_NONCE_ERR)
      else Inr (word_of_nat (charged_commits (cau_get_committed_accounts c) * 1000000
        + actions_fee_nat (ct_actions (commit_action c))
        + actions_fee_nat (ut_actions (undelegate_action c)))))"
  by (cases "undelegate_action c")
     (simp_all add: cau_calculate_fee_def cau_get_committed_accounts_def ct_calculate_fee_eq
        calculate_actions_fee_eq)

lemmas bundle_account_defs =
  get_all_committed_accounts_def get_commit_intent_accounts_def get_undelegate_intent_accounts_def
  get_commit_finalize_intent_accounts_def get_commit_finalize_and_undelegate_intent_accounts_def

lemmas bundle_pubkey_defs =
  get_all_committed_pubkeys_def get_commit_intent_pubkeys_def get_undelegate_intent_pubkeys_def
  get_commit_finalize_intent_pubkeys_def get_commit_finalize_and_undelegate_intent_pubkeys_def

lemma calculate_fee_eq:
  "calculate_fee b =
     (if has_unreserved (get_all_committed_accounts b) then Inl (Custom MISSING_COMMIT_NONCE_ERR)
      else Inr (word_of_nat (bundle_fee_nat b)))"
  by (cases "mib_commit b"; cases "mib_commit_and_undelegate b";
      cases "mib_commit_finalize b"; cases "mib_commit_finalize_and_undelegate b")
     (simp_all add: calculate_fee_def ct_calculate_fee_eq cau_calculate_fee_eq
        calculate_actions_fee_eq bundle_fee_nat_def bundle_account_defs bundle_action_groups_def
        algebra_simps has_unreserved_def charged_commits_def)

lemma update_first_append:
  "update_first p f (xs @ ys) =
     (case update_first p f xs of Some zs \<Rightarrow> Some (zs @ ys)
      | None \<Rightarrow> (case update_first p f ys of None \<Rightarrow> None | Some zs \<Rightarrow> Some (xs @ zs)))"
  by (induction xs) (auto split: option.splits)

lemma update_first_None_iff: "update_first p f xs = None \<longleftrightarrow> (\<forall>x \<in> set xs. \<not> p x)"
  by (induction xs) auto

lemma map_option_ct_actions:
  "map_option ct_actions (ct_get_action_mut i f c) = update_first (\<lambda>a. act_id a = i) f (ct_actions c)"
  by (cases c) (simp_all add: option.map_comp comp_def option.map_ident)

lemma map_option_ut_actions:
  "map_option ut_actions (ut_get_action_mut i f c) = update_first (\<lambda>a. act_id a = i) f (ut_actions c)"
  by (cases c) (simp_all add: option.map_comp comp_def option.map_ident)

lemma map_option_cau_actions:
  "map_option cau_actions (cau_get_action_mut i f c) = update_first (\<lambda>a. act_id a = i) f (cau_actions c)"
  by (simp add: cau_get_action_mut_def cau_actions_def update_first_append
      map_option_ct_actions [symmetric] map_option_ut_actions [symmetric] split: option.split)

lemma update_first_opt_list:
  assumes "\<And>x. map_option g (h x) = update_first p f (g x)"
  shows "update_first p f (opt_list g x) = map_option g (Option.bind x h)"
  by (cases x) (simp_all add: assms)

lemma ct_get_action_mut_accounts:
  "ct_get_action_mut i f c = Some c' \<Longrightarrow> ct_get_committed_accounts c' = ct_get_committed_accounts c"
  by (cases c) auto

lemma cau_get_action_mut_accounts:
  "cau_get_action_mut i f c = Some c' \<Longrightarrow> cau_get_committed_accounts c' = cau_get_committed_accounts c"
  by (auto simp: cau_get_action_mut_def cau_get_committed_accounts_def
      dest: ct_get_action_mut_accounts split: option.splits)

lemma get_action_mut_accounts:
  "get_action_mut i f b = Some b' \<Longrightarrow> get_all_committed_accounts b' = get_all_committed_accounts b"
  by (auto simp: get_action_mut_def bundle_account_defs bind_eq_Some_conv
      dest!: ct_get_action_mut_accounts cau_get_action_mut_accounts split: option.splits)

lemma ct_pubkeys_map: "ct_get_committed_pubkeys = map ca_pubkey \<circ> ct_get_committed_accounts"
  by (rule ext) (simp add: ct_get_committed_pubkeys_def)

lemma cau_pubkeys_map: "cau_get_committed_pubkeys = map ca_pubkey \<circ> cau_get_committed_accounts"
  by (rule ext) (simp add: cau_get_committed_pubkeys_def cau_get_committed_accounts_def ct_pubkeys_map)

lemma get_all_committed_pubkeys_map:
  "get_all_committed_pubkeys b = map ca_pubkey (get_all_committed_accounts b)"
  by (auto simp: bundle_pubkey_defs bundle_account_defs ct_pubkeys_map cau_pubkeys_map
      flatten_options_def map_concat option.map_comp split: option.split)

lemma ct_is_empty_iff: "ct_is_empty c \<longleftrightarrow> ct_get_committed_accounts c = []"
  by (cases c) simp_all

lemma bundle_is_empty_iff:
  "bundle_is_empty b \<longleftrightarrow> get_all_committed_accounts b = [] \<and> mib_standalone_actions b = []"
  by (auto simp: bundle_is_empty_def bundle_account_defs none_or_def cau_is_empty_def
      cau_get_committed_accounts_def ct_is_empty_iff flatten_options_def split: option.splits)

lemma has_committed_accounts_iff:
  "has_committed_accounts b \<longleftrightarrow> get_all_committed_pubkeys b \<noteq> []"
  by (auto simp: has_committed_accounts_def get_all_committed_pubkeys_map bundle_account_defs
      some_nonempty_def flatten_options_def split: option.splits)

section \<open>Properties\<close>

text \<open>
  Claim C26. The fee of a bundle is exact: when every account carries a reserved commit id and
  the bundle has fewer than \<open>2^43\<close> accounts, the wrapping \<^verbatim>\<open>u64\<close> computation returns one
  commit fee per account beyond the free allowance plus the rounded-up price of each action
  list, with no wrap-around and no error.
\<close>

theorem intent_fee_exact:
  assumes "\<not> has_unreserved (get_all_committed_accounts b)"
    and "length (get_all_committed_accounts b) < 2 ^ 43"
  shows "\<exists>fee. calculate_fee b = Inr fee \<and> unat fee = bundle_fee_nat b"
proof -
  have "length (bundle_action_groups b) \<le> 7"
    by (cases "mib_commit b"; cases "mib_commit_and_undelegate b";
        cases "mib_commit_finalize b"; cases "mib_commit_finalize_and_undelegate b")
       (simp_all add: bundle_action_groups_def)
  moreover have "(\<Sum>g \<leftarrow> gs. actions_fee_nat g) \<le> length gs * 18446744073710" for gs
    by (induction gs) (use actions_fee_nat_bound in \<open>auto intro: add_mono\<close>)
  ultimately have "(\<Sum>g \<leftarrow> bundle_action_groups b. actions_fee_nat g) \<le> 7 * 18446744073710"
    by (meson mult_le_mono1 order_trans)
  moreover have "charged_commits (get_all_committed_accounts b) < 2 ^ 43"
    using assms(2) by (metis charged_commits_def length_filter_le order_le_less_trans)
  ultimately have "bundle_fee_nat b < 2 ^ 64"
    by (simp add: bundle_fee_nat_def)
  then show ?thesis
    using assms(1) by (simp add: calculate_fee_eq unat_of_nat)
qed

theorem intent_fee_exact_witness:
  "\<exists>b fee. get_all_committed_accounts b \<noteq> [] \<and> calculate_fee b = Inr fee \<and> unat fee = 1010000"
proof -
  let ?acc = "\<lparr>acc_lamports = 5, acc_data = [1], acc_owner = 9, acc_executable = False,
    acc_rent_epoch = 0\<rparr>"
  let ?ca = "\<lparr>ca_pubkey = 7, ca_account = ?acc, ca_remote_slot = 3, ca_commit_id = 26\<rparr>"
  let ?act = "\<lparr>act_id = 0, act_compute_units = 200000, act_destination_program = 1,
    act_source_program = None, act_escrow_authority = 2,
    act_data_per_program = \<lparr>pa_escrow_index = 0, pa_data = []\<rparr>,
    act_account_metas_per_program = [], act_callback = None\<rparr>"
  let ?b = "default_bundle\<lparr>mib_commit := Some (Commit_WithBaseActions [?ca] [?act])\<rparr>"
  have accs: "get_all_committed_accounts ?b = [?ca]"
    by (simp add: bundle_account_defs default_bundle_def)
  have "bundle_fee_nat ?b = 1010000"
    unfolding bundle_fee_nat_def accs
    by (simp add: charged_commits_def ACTUAL_COMMIT_LIMIT_def
        bundle_action_groups_def default_bundle_def actions_fee_nat_def div_ceil_def)
  moreover have "\<exists>fee. calculate_fee ?b = Inr fee \<and> unat fee = bundle_fee_nat ?b"
    by (rule intent_fee_exact) (simp_all add: accs has_unreserved_def)
  ultimately obtain fee where "calculate_fee ?b = Inr fee" and "unat fee = 1010000"
    by auto
  with accs show ?thesis
    by (intro exI [of _ ?b] exI [of _ fee]) simp
qed

lemma get_action_mut_actions:
  "map_option bundle_actions (get_action_mut i f b) =
     update_first (\<lambda>a. act_id a = i) f (bundle_actions b)"
proof -
  note ct = update_first_opt_list [OF map_option_ct_actions, of i f]
  note cau = update_first_opt_list [OF map_option_cau_actions, of i f]
  show ?thesis
    by (simp add: get_action_mut_def bundle_actions_def update_first_append ct cau split: option.split)
qed

text \<open>
  Claim C29. Writing through \<^verbatim>\<open>get_action_mut\<close> is an update of the flat list of the bundle's
  actions: it changes exactly the first action with the given id, in the order in which ids
  are handed out, and fails exactly when no action of any of the five groups has the id.
\<close>

theorem get_action_mut_refines:
  "map_option bundle_actions (get_action_mut i f b) =
     update_first (\<lambda>a. act_id a = i) f (bundle_actions b)"
  by (rule get_action_mut_actions)

end
