(* ===== verification/Outbox_Model.thy ===== *)
theory Outbox_Model
  imports Intent_Model
begin

text \<open>
  Scheduled intents and their outbox records: \<^verbatim>\<open>ScheduledIntentBundle\<close> of
  \<^verbatim>\<open>programs/magic-program/src/intent_bundles/magic_scheduled_base_intent.rs\<close>, the execution
  stages of \<^verbatim>\<open>programs/magic-interface/src/outbox.rs\<close> and \<^verbatim>\<open>OutboxIntentBundle\<close> of
  \<^verbatim>\<open>programs/magic-program/src/outbox_intent/outbox_intent_bundles.rs\<close>. The stage transitions are
  a state machine; the theory shows what a recorded commit signature means along any run of it.
\<close>

section \<open>Scheduled intents\<close>

record scheduled_intent_bundle =
  sib_intent_id :: u64
  sib_slot :: slot
  sib_blockhash :: hash
  sib_payer :: pubkey
  sib_intent_bundle :: magic_intent_bundle

definition sib_calculate_fee :: "scheduled_intent_bundle \<Rightarrow> (instruction_error, u64) result" where
  "sib_calculate_fee s = rbind (calculate_fee (sib_intent_bundle s)) (\<lambda>f. Inr (0 + f))"

definition sib_get_all_committed_accounts :: "scheduled_intent_bundle \<Rightarrow> committed_account list" where
  "sib_get_all_committed_accounts s = get_all_committed_accounts (sib_intent_bundle s)"

definition sib_get_all_committed_pubkeys :: "scheduled_intent_bundle \<Rightarrow> pubkey list" where
  "sib_get_all_committed_pubkeys s = get_all_committed_pubkeys (sib_intent_bundle s)"

definition get_undelegated_pubkeys :: "scheduled_intent_bundle \<Rightarrow> pubkey list" where
  "get_undelegated_pubkeys s =
     flatten_options [get_undelegate_intent_pubkeys (sib_intent_bundle s),
       get_commit_finalize_and_undelegate_intent_pubkeys (sib_intent_bundle s)]"

definition sib_has_undelegate_intent :: "scheduled_intent_bundle \<Rightarrow> bool" where
  "sib_has_undelegate_intent s = has_undelegate_intent (sib_intent_bundle s)"

section \<open>Execution stages\<close>

record pending_transaction =
  pt_signature :: signature
  pt_blockhash :: hash

datatype two_stage_progress =
    Committing pending_transaction
  | Finalizing (tsp_commit: signature) (tsp_finalize: pending_transaction)

datatype execution_stage =
    SingleStage pending_transaction
  | TwoStage two_stage_progress

datatype stage_transition_error =
    SingleStageToFinalizingError
  | TwoStageToSingleStageError
  | CommitSignatureMismatchError
  | CommitSignatureReplacementError
  | FinalizingToCommittingDowngradeError

fun two_stage_apply_transition ::
    "two_stage_progress \<Rightarrow> two_stage_progress \<Rightarrow> (stage_transition_error, two_stage_progress) result" where
  "two_stage_apply_transition (Committing _) (Committing new_sig) = Inr (Committing new_sig)"
| "two_stage_apply_transition (Committing this_pending) (Finalizing commit finalize) =
     (if pt_signature this_pending \<noteq> commit then Inl CommitSignatureMismatchError
      else Inr (Finalizing commit finalize))"
| "two_stage_apply_transition (Finalizing this_commit _) (Finalizing commit finalize) =
     (if this_commit \<noteq> commit then Inl CommitSignatureReplacementError
      else Inr (Finalizing commit finalize))"
| "two_stage_apply_transition (Finalizing _ _) (Committing _) = Inl FinalizingToCommittingDowngradeError"

fun stage_apply_transition ::
    "execution_stage \<Rightarrow> execution_stage \<Rightarrow> (stage_transition_error, execution_stage) result" where
  "stage_apply_transition (SingleStage this_sig) (SingleStage sig) = Inr (SingleStage sig)"
| "stage_apply_transition (SingleStage _) (TwoStage (Committing p)) = Inr (TwoStage (Committing p))"
| "stage_apply_transition (SingleStage _) (TwoStage (Finalizing _ _)) = Inl SingleStageToFinalizingError"
| "stage_apply_transition (TwoStage this) (TwoStage v) =
     rbind (two_stage_apply_transition this v) (\<lambda>n. Inr (TwoStage n))"
| "stage_apply_transition (TwoStage _) (SingleStage _) = Inl TwoStageToSingleStageError"

fun two_stage_pending_transaction :: "two_stage_progress \<Rightarrow> pending_transaction" where
  "two_stage_pending_transaction (Committing pending) = pending"
| "two_stage_pending_transaction (Finalizing _ finalize) = finalize"

fun stage_pending_transaction :: "execution_stage \<Rightarrow> pending_transaction" where
  "stage_pending_transaction (SingleStage pending) = pending"
| "stage_pending_transaction (TwoStage v) = two_stage_pending_transaction v"

section \<open>Outbox records\<close>

datatype outbox_status =
    Accepted
  | Executing execution_stage

datatype outbox_stage_transition_error =
    AcceptedToFinalizingError
  | StageError stage_transition_error

fun status_apply_transition ::
    "outbox_status \<Rightarrow> execution_stage \<Rightarrow> (outbox_stage_transition_error, outbox_status) result" where
  "status_apply_transition Accepted (TwoStage (Committing p)) = Inr (Executing (TwoStage (Committing p)))"
| "status_apply_transition Accepted (TwoStage (Finalizing _ _)) = Inl AcceptedToFinalizingError"
| "status_apply_transition Accepted (SingleStage p) = Inr (Executing (SingleStage p))"
| "status_apply_transition (Executing this) stage =
     rbind (map_err StageError (stage_apply_transition this stage)) (\<lambda>s. Inr (Executing s))"

record outbox_intent_bundle =
  oib_inner :: scheduled_intent_bundle
  oib_status :: outbox_status
  oib_recovery_commit_nonces :: "(pubkey \<times> u64) list"
  oib_bump :: u8

definition accepted :: "scheduled_intent_bundle \<Rightarrow> u8 \<Rightarrow> outbox_intent_bundle" where
  "accepted intent_bundle bump = \<lparr>oib_inner = intent_bundle, oib_status = Accepted,
     oib_recovery_commit_nonces = [], oib_bump = bump\<rparr>"

fun is_final_status :: "outbox_status \<Rightarrow> bool" where
  "is_final_status (Executing (SingleStage _)) = True"
| "is_final_status (Executing (TwoStage (Finalizing _ _))) = True"
| "is_final_status _ = False"

definition is_final_stage :: "outbox_intent_bundle \<Rightarrow> bool" where
  "is_final_stage b = is_final_status (oib_status b)"

text \<open>
  The nonces are overwritten before the status is checked, so the mutated record is returned
  with the verdict; a caller that sees an error drops the record.
\<close>

definition apply_stage_transition ::
    "outbox_intent_bundle \<Rightarrow> execution_stage \<Rightarrow> (pubkey \<times> u64) list \<Rightarrow>
     outbox_intent_bundle \<times> (outbox_stage_transition_error, unit) result" where
  "apply_stage_transition b stage recovery_commit_nonces =
     (let b = (if recovery_commit_nonces \<noteq> []
               then b\<lparr>oib_recovery_commit_nonces := recovery_commit_nonces\<rparr> else b)
      in case status_apply_transition (oib_status b) stage of
           Inl e \<Rightarrow> (b, Inl e)
         | Inr st \<Rightarrow> (b\<lparr>oib_status := st\<rparr>, Inr ()))"

definition intent_id :: "outbox_intent_bundle \<Rightarrow> u64" where
  "intent_id b = sib_intent_id (oib_inner b)"

definition intent_pubkeys :: "outbox_intent_bundle \<Rightarrow> pubkey list" where
  "intent_pubkeys b = sib_get_all_committed_pubkeys (oib_inner b)"

text \<open>An accepted intent that commits the given accounts, for the concrete instances below.\<close>

definition example_account :: "pubkey \<Rightarrow> committed_account" where
  "example_account k = \<lparr>ca_pubkey = k,
     ca_account = \<lparr>acc_lamports = 1, acc_data = [1, 2], acc_owner = 9, acc_executable = False,
       acc_rent_epoch = 0\<rparr>,
     ca_remote_slot = 3, ca_commit_id = 4\<rparr>"

definition example_bundle :: "u64 \<Rightarrow> pubkey list \<Rightarrow> outbox_intent_bundle" where
  "example_bundle i ks =
     accepted \<lparr>sib_intent_id = i, sib_slot = 5, sib_blockhash = 6, sib_payer = 7,
       sib_intent_bundle =
         default_bundle\<lparr>mib_commit := Some (Commit_Standalone (map example_account ks))\<rparr>\<rparr> 255"

lemma example_bundle_simps [simp]:
  "intent_id (example_bundle i ks) = i" "intent_pubkeys (example_bundle i ks) = ks"
  by (simp_all add: example_bundle_def accepted_def intent_id_def intent_pubkeys_def
      sib_get_all_committed_pubkeys_def get_all_committed_pubkeys_map bundle_account_defs
      default_bundle_def example_account_def comp_def)

section \<open>Runs of transitions\<close>

text \<open>Statuses reached from acceptance by successful transitions, oldest first.\<close>

inductive stage_run :: "outbox_status list \<Rightarrow> bool" where
  run_start: "stage_run [Accepted]"
| run_step: "stage_run ss \<Longrightarrow> status_apply_transition (last ss) stage = Inr s \<Longrightarrow> stage_run (ss @ [s])"

fun status_rank :: "outbox_status \<Rightarrow> nat" where
  "status_rank Accepted = 0"
| "status_rank (Executing (SingleStage _)) = 1"
| "status_rank (Executing (TwoStage (Committing _))) = 2"
| "status_rank (Executing (TwoStage (Finalizing _ _))) = 3"

lemma stage_exhaust [case_names SingleStage Committing Finalizing]:
  assumes "\<And>p. stage = SingleStage p \<Longrightarrow> P"
    and "\<And>p. stage = TwoStage (Committing p) \<Longrightarrow> P"
    and "\<And>c f. stage = TwoStage (Finalizing c f) \<Longrightarrow> P"
  shows P
  using assms by (metis execution_stage.exhaust two_stage_progress.exhaust)

lemma status_apply_rank:
  "status_apply_transition s stage = Inr s' \<Longrightarrow> status_rank s \<le> status_rank s'"
  by (cases s rule: status_rank.cases; cases stage rule: stage_exhaust) (auto split: if_splits)

lemma status_apply_to_finalizing:
  "status_apply_transition s stage = Inr (Executing (TwoStage (Finalizing c f))) \<Longrightarrow>
     (\<exists>p. s = Executing (TwoStage (Committing p)) \<and> pt_signature p = c) \<or>
     (\<exists>f'. s = Executing (TwoStage (Finalizing c f')))"
  by (cases s rule: status_rank.cases; cases stage rule: stage_exhaust) (auto split: if_splits)

lemma status_apply_from_finalizing:
  "status_apply_transition (Executing (TwoStage (Finalizing c f))) stage = Inr s' \<Longrightarrow>
     \<exists>f'. s' = Executing (TwoStage (Finalizing c f'))"
  by (cases stage rule: stage_exhaust) (auto split: if_splits)

text \<open>The transition always installs the requested stage or fails.\<close>

lemma status_apply_installs: "status_apply_transition s stage = Inr s' \<Longrightarrow> s' = Executing stage"
  by (cases s rule: status_rank.cases; cases stage rule: stage_exhaust) (auto split: if_splits)

lemma stage_run_nonempty: "stage_run ss \<Longrightarrow> ss \<noteq> []"
  by (induction rule: stage_run.induct) auto

lemma sorted_last_max: "sorted xs \<Longrightarrow> x \<in> set xs \<Longrightarrow> x \<le> last xs"
  by (induction xs) (auto split: if_splits)

lemma stage_run_ranks: "stage_run ss \<Longrightarrow> sorted (map status_rank ss)"
proof (induction rule: stage_run.induct)
  case run_start
  then show ?case by simp
next
  case (run_step ss stage s)
  have "ss \<noteq> []" using run_step.hyps(1) by (rule stage_run_nonempty)
  then have "\<forall>x \<in> set ss. status_rank x \<le> status_rank (last ss)"
    using sorted_last_max [OF run_step.IH] by (simp add: last_map)
  with status_apply_rank [OF run_step.hyps(2)] have "\<forall>x \<in> set ss. status_rank x \<le> status_rank s"
    by (meson order_trans)
  with run_step.IH show ?case by (auto simp: sorted_append)
qed

lemma finalizing_has_commit:
  "stage_run ss \<Longrightarrow> Executing (TwoStage (Finalizing c f)) \<in> set ss \<Longrightarrow>
     \<exists>p. Executing (TwoStage (Committing p)) \<in> set ss \<and> pt_signature p = c"
proof (induction arbitrary: f rule: stage_run.induct)
  case run_start
  then show ?case by simp
next
  case (run_step ss stage s)
  show ?case
  proof (cases "Executing (TwoStage (Finalizing c f)) \<in> set ss")
    case True
    then show ?thesis using run_step.IH by fastforce
  next
    case False
    with run_step.prems have s: "s = Executing (TwoStage (Finalizing c f))" by simp
    have last: "last ss \<in> set ss"
      using run_step.hyps(1) by (simp add: stage_run_nonempty)
    from status_apply_to_finalizing [OF run_step.hyps(2) [unfolded s]] show ?thesis
      using last run_step.IH by fastforce
  qed
qed

lemma finalizing_commits_agree:
  "stage_run ss \<Longrightarrow> Executing (TwoStage (Finalizing c f)) \<in> set ss \<Longrightarrow>
     (\<exists>f'. last ss = Executing (TwoStage (Finalizing c f')))"
proof (induction arbitrary: f rule: stage_run.induct)
  case run_start
  then show ?case by simp
next
  case (run_step ss stage s)
  show ?case
  proof (cases "Executing (TwoStage (Finalizing c f)) \<in> set ss")
    case True
    then obtain f' where "last ss = Executing (TwoStage (Finalizing c f'))"
      using run_step.IH by blast
    then show ?thesis using run_step.hyps(2) status_apply_from_finalizing by fastforce
  next
    case False
    with run_step.prems show ?thesis by auto
  qed
qed

section \<open>Properties\<close>

text \<open>
  Claim C23. The outbox stage machine never regresses and never swaps a commit: along every run
  of successful transitions the statuses advance (accepted, single stage, committing,
  finalizing); a finalizing stage names a commit transaction that an earlier committing stage
  of the run recorded; and once a run has been finalizing for a commit signature, its current
  stage is finalizing for that same signature.
\<close>

theorem outbox_stage_progress:
  assumes "stage_run ss"
  shows "sorted (map status_rank ss)
    \<and> (\<forall>c f. Executing (TwoStage (Finalizing c f)) \<in> set ss \<longrightarrow>
         (\<exists>p. Executing (TwoStage (Committing p)) \<in> set ss \<and> pt_signature p = c)
         \<and> (\<exists>f'. last ss = Executing (TwoStage (Finalizing c f'))))"
  using stage_run_ranks [OF assms] finalizing_has_commit [OF assms]
    finalizing_commits_agree [OF assms] by blast

theorem outbox_stage_progress_witness:
  "\<exists>ss c f. stage_run ss \<and> length ss = 4 \<and> Executing (TwoStage (Finalizing c f)) \<in> set ss
     \<and> (\<exists>p. Executing (TwoStage (Committing p)) \<in> set ss \<and> pt_signature p = c)"
proof -
  let ?p = "\<lparr>pt_signature = 11, pt_blockhash = 1\<rparr>"
  let ?q = "\<lparr>pt_signature = 22, pt_blockhash = 2\<rparr>"
  let ?ss = "[Accepted, Executing (SingleStage ?q), Executing (TwoStage (Committing ?p)),
    Executing (TwoStage (Finalizing 11 ?q))]"
  have "stage_run ([Accepted] @ [Executing (SingleStage ?q)])"
    by (rule stage_run.run_step [OF stage_run.run_start, of "SingleStage ?q"]) simp
  then have "stage_run (([Accepted] @ [Executing (SingleStage ?q)]) @ [Executing (TwoStage (Committing ?p))])"
    by (rule stage_run.run_step [where stage = "TwoStage (Committing ?p)"]) simp
  then have "stage_run ((([Accepted] @ [Executing (SingleStage ?q)]) @
      [Executing (TwoStage (Committing ?p))]) @ [Executing (TwoStage (Finalizing 11 ?q))])"
    by (rule stage_run.run_step [where stage = "TwoStage (Finalizing 11 ?q)"]) simp
  then have run: "stage_run ?ss" by simp
  from outbox_stage_progress [OF run]
  have "\<exists>p. Executing (TwoStage (Committing p)) \<in> set ?ss \<and> pt_signature p = 11"
    by (metis list.set_intros)
  with run show ?thesis
    by (intro exI [of _ ?ss] exI [of _ "11 :: signature"] exI [of _ ?q]) simp
qed

end
