(* ===== verification/Scheduler_Invariant.thy ===== *)
theory Scheduler_Invariant
  imports Intent_Scheduler
begin

text \<open>
  What the scheduler's queues mean. The executing intents are not part of the scheduler's
  state (the worker holds them), so the invariant is about a scheduler and a map \<open>E\<close> of the
  executing intents. Together with the blocked intents they are the live ones, and every
  queue is the ascending list of the live intents that touch its pubkey.
\<close>

section \<open>Live intents and queues\<close>

type_synonym intent_map = "u64 \<rightharpoonup> outbox_intent_bundle"

abbreviation keys_of :: "outbox_intent_bundle \<Rightarrow> pubkey set" where
  "keys_of b \<equiv> set (intent_pubkeys b)"

definition blocked_map :: "intent_scheduler \<Rightarrow> intent_map" where
  "blocked_map s = (\<lambda>i. map_option im_intent (hm_get (blocked_intents s) i))"

definition live :: "intent_scheduler \<Rightarrow> intent_map \<Rightarrow> intent_map" where
  "live s E = E ++ blocked_map s"

definition holders :: "intent_map \<Rightarrow> pubkey \<Rightarrow> u64 set" where
  "holders L k = {i. \<exists>b. L i = Some b \<and> k \<in> keys_of b}"

definition is_head :: "intent_map \<Rightarrow> u64 \<Rightarrow> outbox_intent_bundle \<Rightarrow> bool" where
  "is_head L i b \<longleftrightarrow> (\<forall>k \<in> keys_of b. \<forall>j \<in> holders L k. i \<le> j)"

definition wf_intents :: "intent_map \<Rightarrow> bool" where
  "wf_intents L \<longleftrightarrow> (\<forall>i b. L i = Some b \<longrightarrow>
     intent_id b = i \<and> distinct (intent_pubkeys b) \<and> intent_pubkeys b \<noteq> [])"

fun queue_ok :: "intent_map \<Rightarrow> pubkey \<Rightarrow> u64 list option \<Rightarrow> bool" where
  "queue_ok L k None = (holders L k = {})"
| "queue_ok L k (Some q) = (q \<noteq> [] \<and> sorted_wrt (<) q \<and> set q = holders L k)"

definition sched_inv :: "intent_scheduler \<Rightarrow> intent_map \<Rightarrow> bool" where
  "sched_inv s E \<longleftrightarrow>
     hm_distinct (blocked_keys s) \<and> hm_distinct (blocked_intents s)
     \<and> dom E \<inter> dom (hm_get (blocked_intents s)) = {}
     \<and> wf_intents (live s E)
     \<and> (\<forall>i m. hm_get (blocked_intents s) i = Some m \<longrightarrow>
          im_num_keys m = length (intent_pubkeys (im_intent m)))
     \<and> (\<forall>k. queue_ok (live s E) k (hm_get (blocked_keys s) k))
     \<and> (\<forall>i b. E i = Some b \<longrightarrow> is_head (live s E) i b)"

lemma sched_invD:
  assumes "sched_inv s E"
  shows "hm_distinct (blocked_keys s)" "hm_distinct (blocked_intents s)"
    "dom E \<inter> dom (hm_get (blocked_intents s)) = {}"
    "wf_intents (live s E)"
    "\<And>i m. hm_get (blocked_intents s) i = Some m \<Longrightarrow>
       im_num_keys m = length (intent_pubkeys (im_intent m))"
    "\<And>k. queue_ok (live s E) k (hm_get (blocked_keys s) k)"
    "\<And>i b. E i = Some b \<Longrightarrow> is_head (live s E) i b"
  using assms by (auto simp: sched_inv_def)

lemma wf_intentsD:
  assumes "wf_intents L" and "L i = Some b"
  shows "intent_id b = i" "distinct (intent_pubkeys b)" "intent_pubkeys b \<noteq> []"
  using assms by (auto simp: wf_intents_def)

lemma dom_blocked_map [simp]: "dom (blocked_map s) = dom (hm_get (blocked_intents s))"
  by (auto simp: blocked_map_def)

lemma live_Some_iff:
  assumes "dom E \<inter> dom (hm_get (blocked_intents s)) = {}"
  shows "live s E i = Some b \<longleftrightarrow>
    E i = Some b \<or> (\<exists>m. hm_get (blocked_intents s) i = Some m \<and> b = im_intent m)"
  using assms by (auto simp: live_def blocked_map_def map_add_Some_iff dom_def)

lemma live_executing: "sched_inv s E \<Longrightarrow> E i = Some b \<Longrightarrow> live s E i = Some b"
  using live_Some_iff sched_invD(3) by blast

lemma live_blocked: "hm_get (blocked_intents s) i = Some m \<Longrightarrow> live s E i = Some (im_intent m)"
  by (simp add: live_def blocked_map_def map_add_def)

lemma dom_live: "dom (live s E) = dom E \<union> dom (hm_get (blocked_intents s))"
  by (auto simp: live_def)

lemma holders_empty [simp]: "holders Map.empty k = {}"
  by (simp add: holders_def)

lemma holders_upd:
  "L i = None \<Longrightarrow> holders (L(i \<mapsto> b)) k = (if k \<in> keys_of b then insert i (holders L k) else holders L k)"
  by (auto simp: holders_def)

lemma holders_del: "holders (L(i := None)) k = holders L k - {i}"
  by (auto simp: holders_def)

lemma holders_dom: "j \<in> holders L k \<Longrightarrow> j \<in> dom L"
  by (auto simp: holders_def)

lemma holders_iff: "L i = Some b \<Longrightarrow> i \<in> holders L k \<longleftrightarrow> k \<in> keys_of b"
  by (auto simp: holders_def)

lemma front_simps [simp]: "front [] = None" "front (x # q) = Some x"
  by (simp_all add: front_def)

lemma queue_front_iff:
  assumes "queue_ok L k oq"
  shows "Option.bind oq front = Some i \<longleftrightarrow> i \<in> holders L k \<and> (\<forall>j \<in> holders L k. i \<le> j)"
proof (cases oq)
  case None
  with assms show ?thesis by simp
next
  case (Some q)
  with assms obtain x xs where q: "q = x # xs" by (cases q) auto
  from assms Some q have set: "holders L k = insert x (set xs)" and "\<forall>y \<in> set xs. x < y"
    by auto
  then show ?thesis
    using Some q by (auto intro: antisym)
qed

lemma queue_Some_iff:
  assumes "queue_ok L k oq"
  shows "oq \<noteq> None \<longleftrightarrow> holders L k \<noteq> {}"
  using assms by (cases oq) auto

lemma live_front_iff:
  assumes inv: "sched_inv s E" and b: "live s E i = Some b"
  shows "Option.bind (hm_get (blocked_keys s) k) front = Some i \<longleftrightarrow>
    k \<in> keys_of b \<and> (\<forall>j \<in> holders (live s E) k. i \<le> j)"
  using queue_front_iff [OF sched_invD(6) [OF inv], of k i] holders_iff [where L = "live s E", OF b] by simp

lemma head_fronts:
  assumes inv: "sched_inv s E" and b: "live s E i = Some b"
  shows "is_head (live s E) i b \<longleftrightarrow>
    {k. Option.bind (hm_get (blocked_keys s) k) front = Some i} = keys_of b"
  using live_front_iff [OF inv b] by (auto simp: is_head_def)

lemma fronts_count:
  assumes "hm_distinct bk"
  shows "length (filter (\<lambda>(_, queue). front queue = Some i) bk) =
    card {k. Option.bind (hm_get bk k) front = Some i}"
proof -
  have "{k. Option.bind (hm_get bk k) front = Some i} = {k. \<exists>q. hm_get bk k = Some q \<and> front q = Some i}"
    by (auto simp: bind_eq_Some_conv)
  then show ?thesis
    using card_filter_hm [OF assms, of "\<lambda>_ queue. front queue = Some i"] by simp
qed

lemma head_count:
  assumes inv: "sched_inv s E" and b: "live s E i = Some b"
  shows "is_head (live s E) i b \<longleftrightarrow>
    length (filter (\<lambda>(_, queue). front queue = Some i) (blocked_keys s)) = length (intent_pubkeys b)"
proof -
  let ?F = "{k. Option.bind (hm_get (blocked_keys s) k) front = Some i}"
  have sub: "?F \<subseteq> keys_of b" using live_front_iff [OF inv b] by auto
  have "distinct (intent_pubkeys b)" using wf_intentsD [OF sched_invD(4) [OF inv] b] by simp
  then have "card (keys_of b) = length (intent_pubkeys b)" by (rule distinct_card)
  moreover have "card ?F = card (keys_of b) \<longleftrightarrow> ?F = keys_of b"
    by (rule iffI) (erule card_subset_eq [OF List.finite_set sub], simp)
  ultimately show ?thesis
    unfolding head_fronts [OF inv b] fronts_count [OF sched_invD(1) [OF inv]] by simp
qed

lemma is_duplicate_iff:
  assumes "sched_inv s E"
  shows "is_duplicate s i \<longleftrightarrow> i \<in> dom (live s E)"
proof
  assume "is_duplicate s i"
  then consider "i \<in> dom (hm_get (blocked_intents s))"
    | k q where "(k, q) \<in> set (blocked_keys s)" "front q = Some i"
    by (auto simp: is_duplicate_def list_ex_iff split: if_splits option.splits)
  then show "i \<in> dom (live s E)"
  proof cases
    case 1
    then show ?thesis by (simp add: dom_live)
  next
    case 2
    then have "Option.bind (hm_get (blocked_keys s) k) front = Some i"
      using hm_mem_iff [OF sched_invD(1) [OF assms]] by auto
    then show ?thesis
      using queue_front_iff [OF sched_invD(6) [OF assms]] holders_dom by blast
  qed
next
  assume "i \<in> dom (live s E)"
  then obtain b where b: "live s E i = Some b" by auto
  show "is_duplicate s i"
  proof (cases "i \<in> dom (hm_get (blocked_intents s))")
    case True
    then show ?thesis by (simp add: is_duplicate_def)
  next
    case False
    with b have "E i = Some b" using live_Some_iff [OF sched_invD(3) [OF assms]] by auto
    then have "is_head (live s E) i b" by (rule sched_invD(7) [OF assms])
    moreover obtain k where "k \<in> keys_of b"
      using wf_intentsD(3) [OF sched_invD(4) [OF assms] b] by (cases "intent_pubkeys b") auto
    ultimately have "Option.bind (hm_get (blocked_keys s) k) front = Some i"
      using head_fronts [OF assms b] by blast
    then obtain q where "hm_get (blocked_keys s) k = Some q" "front q = Some i"
      by (auto simp: bind_eq_Some_conv)
    then show ?thesis
      by (force simp: is_duplicate_def list_ex_iff dest: map_of_SomeD)
  qed
qed

section \<open>Scheduling\<close>

lemma new_scheduler_inv: "sched_inv new_scheduler Map.empty"
  by (auto simp: sched_inv_def new_scheduler_def live_def blocked_map_def wf_intents_def holders_def)

lemma push_back_keys_get:
  "distinct ks \<Longrightarrow> hm_get (foldl (push_back_key i) bk ks) k =
     (if k \<in> set ks then Some ((case hm_get bk k of None \<Rightarrow> [] | Some q \<Rightarrow> q) @ [i]) else hm_get bk k)"
  by (induction ks arbitrary: bk) (auto simp: push_back_key_def)

lemma push_back_keys_distinct:
  "hm_distinct bk \<Longrightarrow> hm_distinct (foldl (push_back_key i) bk ks)"
  by (induction ks arbitrary: bk) (auto simp: push_back_key_def)

lemma queue_ok_push:
  assumes "queue_ok L k oq" and "\<forall>j \<in> dom L. j < i" and "k \<in> keys_of b"
  shows "queue_ok (L(i \<mapsto> b)) k (Some ((case oq of None \<Rightarrow> [] | Some q \<Rightarrow> q) @ [i]))"
proof -
  have "L i = None" using assms(2) by (metis domIff order_less_irrefl)
  then show ?thesis
    using assms holders_dom [of _ L k] by (cases oq) (auto simp: holders_upd sorted_wrt_append)
qed

lemma queue_ok_other:
  "queue_ok L k oq \<Longrightarrow> L i = None \<Longrightarrow> k \<notin> keys_of b \<Longrightarrow> queue_ok (L(i \<mapsto> b)) k oq"
  by (cases oq) (auto simp: holders_upd)

lemma live_insert_blocked:
  "live (s\<lparr>blocked_keys := bk, blocked_intents := hm_insert i m (blocked_intents s)\<rparr>) E =
     (live s E)(i \<mapsto> im_intent m)"
  by (rule ext) (simp add: live_def blocked_map_def map_add_def)

lemma live_insert_executing:
  "i \<notin> dom (hm_get (blocked_intents s)) \<Longrightarrow>
     live (s\<lparr>blocked_keys := bk\<rparr>) (E(i \<mapsto> b)) = (live s E)(i \<mapsto> b)"
  by (rule ext) (auto simp: live_def blocked_map_def map_add_def domIff split: option.split)

lemma is_head_upd:
  "is_head L j c \<Longrightarrow> j < i \<Longrightarrow> L i = None \<Longrightarrow> is_head (L(i \<mapsto> b)) j c"
  by (auto simp: is_head_def holders_upd split: if_splits)

lemma wf_intents_upd:
  "wf_intents L \<Longrightarrow> intent_id b = i \<Longrightarrow> distinct (intent_pubkeys b) \<Longrightarrow> intent_pubkeys b \<noteq> [] \<Longrightarrow>
     wf_intents (L(i \<mapsto> b))"
  by (simp add: wf_intents_def)

text \<open>An intent that arrives with an id above every live one, with distinct pubkeys.\<close>

definition arrives :: "intent_scheduler \<Rightarrow> intent_map \<Rightarrow> outbox_intent_bundle \<Rightarrow> bool" where
  "arrives s E b \<longleftrightarrow> distinct (intent_pubkeys b) \<and> intent_pubkeys b \<noteq> []
     \<and> (\<forall>j \<in> dom (live s E). j < intent_id b)"

definition conflicts :: "intent_map \<Rightarrow> outbox_intent_bundle \<Rightarrow> bool" where
  "conflicts L b \<longleftrightarrow> (\<exists>k \<in> keys_of b. holders L k \<noteq> {})"

definition enqueued :: "intent_scheduler \<Rightarrow> outbox_intent_bundle \<Rightarrow> intent_scheduler" where
  "enqueued s b = s\<lparr>blocked_keys := foldl (push_back_key (intent_id b)) (blocked_keys s) (intent_pubkeys b)\<rparr>"

definition held :: "intent_scheduler \<Rightarrow> outbox_intent_bundle \<Rightarrow> intent_scheduler" where
  "held s b = (enqueued s b)\<lparr>blocked_intents := hm_insert (intent_id b)
     \<lparr>im_num_keys = length (intent_pubkeys b), im_intent = b\<rparr> (blocked_intents s)\<rparr>"

lemma schedule_arrival:
  assumes inv: "sched_inv s E" and arr: "arrives s E b" and healthy: "keys_of b \<inter> poisoned_keys s = {}"
  shows "schedule s b =
    (if conflicts (live s E) b then (None, held s b) else (Some b, enqueued s b))"
proof -
  have "\<not> is_duplicate s (intent_id b)"
    using arr is_duplicate_iff [OF inv] by (auto simp: arrives_def)
  moreover have "\<not> list_ex (\<lambda>el. el \<in> poisoned_keys s) (intent_pubkeys b)"
    using healthy by (auto simp: list_ex_iff)
  moreover have "list_ex (hm_contains (blocked_keys s)) (intent_pubkeys b) \<longleftrightarrow> conflicts (live s E) b"
    using queue_Some_iff [OF sched_invD(6) [OF inv]]
    by (simp add: list_ex_iff conflicts_def domIff)
  ultimately show ?thesis
    using arr by (simp add: schedule_def Let_def held_def enqueued_def arrives_def)
qed

lemma enqueued_queue_ok:
  assumes inv: "sched_inv s E" and arr: "arrives s E b"
  shows "queue_ok ((live s E)(intent_id b \<mapsto> b)) k (hm_get (blocked_keys (enqueued s b)) k)"
proof -
  have fresh: "live s E (intent_id b) = None" and below: "\<forall>j \<in> dom (live s E). j < intent_id b"
    using arr by (auto simp: arrives_def)
  show ?thesis
    using queue_ok_push [OF sched_invD(6) [OF inv, of k] below, of b]
      queue_ok_other [where i = "intent_id b" and b = b, OF sched_invD(6) [OF inv, of k] fresh] arr
    by (auto simp: enqueued_def push_back_keys_get arrives_def)
qed

lemma held_inv:
  assumes inv: "sched_inv s E" and arr: "arrives s E b"
  shows "sched_inv (held s b) E" "live (held s b) E = (live s E)(intent_id b \<mapsto> b)"
proof -
  let ?i = "intent_id b"
  have fresh: "live s E ?i = None" and below: "\<forall>j \<in> dom (live s E). j < ?i"
    using arr by (auto simp: arrives_def)
  show live: "live (held s b) E = (live s E)(?i \<mapsto> b)"
    by (simp add: held_def enqueued_def live_insert_blocked)
  have "?i \<notin> dom E" using fresh dom_live [of s E] by (auto simp: domIff)
  moreover have "is_head ((live s E)(?i \<mapsto> b)) j c" if "E j = Some c" for j c
    using that below live_executing [OF inv that] sched_invD(7) [OF inv that] fresh
    by (intro is_head_upd) (auto simp: dom_def)
  moreover have "blocked_keys (held s b) = blocked_keys (enqueued s b)"
    by (simp add: held_def)
  ultimately show "sched_inv (held s b) E"
    unfolding sched_inv_def live
    using sched_invD [OF inv] arr enqueued_queue_ok [OF inv arr]
    by (auto simp: held_def enqueued_def push_back_keys_distinct wf_intents_upd arrives_def
        split: if_splits)
qed

lemma enqueued_inv:
  assumes inv: "sched_inv s E" and arr: "arrives s E b" and free: "\<not> conflicts (live s E) b"
  shows "sched_inv (enqueued s b) (E(intent_id b \<mapsto> b))"
    "live (enqueued s b) (E(intent_id b \<mapsto> b)) = (live s E)(intent_id b \<mapsto> b)"
proof -
  let ?i = "intent_id b"
  have fresh: "live s E ?i = None" and below: "\<forall>j \<in> dom (live s E). j < ?i"
    using arr by (auto simp: arrives_def)
  then have nb: "?i \<notin> dom (hm_get (blocked_intents s))"
    using dom_live [of s E] by (auto simp: domIff)
  show live: "live (enqueued s b) (E(?i \<mapsto> b)) = (live s E)(?i \<mapsto> b)"
    using nb by (simp add: enqueued_def live_insert_executing)
  have new: "is_head ((live s E)(?i \<mapsto> b)) ?i b"
    using free fresh by (auto simp: is_head_def conflicts_def holders_upd)
  have old: "is_head ((live s E)(?i \<mapsto> b)) j c" if "E j = Some c" for j c
    using that below live_executing [OF inv that] sched_invD(7) [OF inv that] fresh
    by (intro is_head_upd) (auto simp: dom_def)
  show "sched_inv (enqueued s b) (E(?i \<mapsto> b))"
    unfolding sched_inv_def live
    using sched_invD [OF inv] arr enqueued_queue_ok [OF inv arr] nb new old
    by (auto simp: enqueued_def push_back_keys_distinct wf_intents_upd arrives_def split: if_splits)
qed

section \<open>Popping the next intent\<close>

definition iteration_order :: "((u64 \<times> nat) list \<Rightarrow> (u64 \<times> nat) list) \<Rightarrow> bool" where
  "iteration_order order \<longleftrightarrow> (\<forall>m. set (order m) = set m)"

abbreviation count_front ::
    "(u64, nat) hashmap \<Rightarrow> pubkey \<times> u64 list \<Rightarrow> (u64, nat) hashmap" where
  "count_front \<equiv> (\<lambda>m (_, queue). case front queue of
      Some i \<Rightarrow> hm_insert i ((case hm_get m i of None \<Rightarrow> 0 | Some n \<Rightarrow> n) + 1) m
    | None \<Rightarrow> m)"

lemma count_front_get:
  "hm_get (foldl count_front m bk) i =
     (let n = length (filter (\<lambda>(_, queue). front queue = Some i) bk) in
      case hm_get m i of None \<Rightarrow> if n = 0 then None else Some n | Some c \<Rightarrow> Some (c + n))"
proof (induction bk arbitrary: m)
  case Nil
  then show ?case by (simp split: option.split)
next
  case (Cons kq bk)
  obtain k q where kq: "kq = (k, q)" by (cases kq)
  show ?case
    by (cases "front q") (simp_all add: kq Cons.IH Let_def split: option.split)
qed

lemma count_front_distinct: "hm_distinct m \<Longrightarrow> hm_distinct (foldl count_front m bk)"
  by (induction bk arbitrary: m) (auto split: option.split)

lemma candidate_mem_iff:
  "(i, n) \<in> set (execute_candidates s) \<longleftrightarrow>
     0 < n \<and> n = length (filter (\<lambda>(_, queue). front queue = Some i) (blocked_keys s))"
proof -
  have "hm_distinct (execute_candidates s)"
    unfolding execute_candidates_def by (rule count_front_distinct) simp
  then show ?thesis
    by (simp add: hm_mem_iff execute_candidates_def count_front_get Let_def)
       (auto split: if_splits)
qed

lemma find_ready_Some:
  "find_ready bi cs = Some (i, b) \<Longrightarrow>
     \<exists>m. hm_get bi i = Some m \<and> b = im_intent m \<and> (i, im_num_keys m) \<in> set cs"
  by (induction bi cs rule: find_ready.induct) (auto split: option.splits if_splits)

lemma find_ready_None:
  "find_ready bi cs = None \<Longrightarrow> (i, n) \<in> set cs \<Longrightarrow> hm_get bi i = Some m \<Longrightarrow> im_num_keys m \<noteq> n"
  by (induction bi cs rule: find_ready.induct) (auto split: option.splits if_splits)

lemma candidate_head_iff:
  assumes inv: "sched_inv s E" and m: "hm_get (blocked_intents s) i = Some m"
  shows "(i, im_num_keys m) \<in> set (execute_candidates s) \<longleftrightarrow> is_head (live s E) i (im_intent m)"
proof -
  have b: "live s E i = Some (im_intent m)" using m by (rule live_blocked)
  have "intent_pubkeys (im_intent m) \<noteq> []" using wf_intentsD(3) [OF sched_invD(4) [OF inv] b] .
  then show ?thesis
    using head_count [OF inv b] sched_invD(5) [OF inv m] by (auto simp: candidate_mem_iff)
qed

lemma live_unblock:
  "hm_get (blocked_intents s) i = Some m \<Longrightarrow>
     live (s\<lparr>blocked_intents := hm_remove i (blocked_intents s)\<rparr>) (E(i \<mapsto> im_intent m)) = live s E"
  by (rule ext) (auto simp: live_def blocked_map_def map_add_def split: option.split)

lemma pop_Some:
  assumes inv: "sched_inv s E" and ord: "iteration_order order"
    and pop: "pop_next_scheduled_intent order s = (Some b, s')"
  shows "hm_get (blocked_intents s) (intent_id b) \<noteq> None"
    "blocked_map s (intent_id b) = Some b"
    "is_head (live s E) (intent_id b) b"
    "s' = s\<lparr>blocked_intents := hm_remove (intent_id b) (blocked_intents s)\<rparr>"
    "live s' (E(intent_id b \<mapsto> b)) = live s E"
    "sched_inv s' (E(intent_id b \<mapsto> b))"
proof -
  obtain i where found: "find_ready (blocked_intents s) (order (execute_candidates s)) = Some (i, b)"
    and s': "s' = s\<lparr>blocked_intents := hm_remove i (blocked_intents s)\<rparr>"
    using pop by (auto simp: pop_next_scheduled_intent_def split: option.splits)
  obtain m where m: "hm_get (blocked_intents s) i = Some m" and b: "b = im_intent m"
    and "(i, im_num_keys m) \<in> set (execute_candidates s)"
    using find_ready_Some [OF found] ord by (auto simp: iteration_order_def)
  then have head: "is_head (live s E) i b" using candidate_head_iff [OF inv m] by simp
  have i: "intent_id b = i"
    using wf_intentsD(1) [OF sched_invD(4) [OF inv] live_blocked [OF m]] b by simp
  show "hm_get (blocked_intents s) (intent_id b) \<noteq> None" "blocked_map s (intent_id b) = Some b"
    "is_head (live s E) (intent_id b) b"
    "s' = s\<lparr>blocked_intents := hm_remove (intent_id b) (blocked_intents s)\<rparr>"
    using i m b head s' by (simp_all add: blocked_map_def)
  show live: "live s' (E(intent_id b \<mapsto> b)) = live s E"
    using live_unblock [OF m, of E] i by (simp add: s' b)
  show "sched_inv s' (E(intent_id b \<mapsto> b))"
    unfolding sched_inv_def live
    using sched_invD [OF inv] head by (auto simp: s' i split: if_splits)
qed

lemma pop_None:
  assumes inv: "sched_inv s E" and ord: "iteration_order order"
    and pop: "pop_next_scheduled_intent order s = (None, s')"
  shows "s' = s" "\<And>i b. blocked_map s i = Some b \<Longrightarrow> \<not> is_head (live s E) i b"
proof -
  have none: "find_ready (blocked_intents s) (order (execute_candidates s)) = None"
    using pop by (auto simp: pop_next_scheduled_intent_def split: option.splits)
  show "s' = s" using pop none by (simp add: pop_next_scheduled_intent_def)
  show "\<not> is_head (live s E) i b" if blocked: "blocked_map s i = Some b" for i b
  proof
    assume head: "is_head (live s E) i b"
    obtain m where m: "hm_get (blocked_intents s) i = Some m" "b = im_intent m"
      using blocked by (auto simp: blocked_map_def)
    with head have "(i, im_num_keys m) \<in> set (order (execute_candidates s))"
      using candidate_head_iff [OF inv] ord by (auto simp: iteration_order_def)
    then show False using find_ready_None [OF none _ m(1)] by blast
  qed
qed

section \<open>Completing an intent\<close>

lemma front_flags_eq:
  "front_flags bk i (a, f) ks =
     (a \<and> (\<forall>k \<in> set ks. Option.bind (hm_get bk k) front = Some i),
      f \<or> (\<exists>k \<in> set ks. Option.bind (hm_get bk k) front = Some i))"
  by (induction ks arbitrary: a f) (auto split: option.split)

lemma validate_executing_ok:
  assumes inv: "sched_inv s E" and b: "E i = Some b"
  shows "validate_executing s i (intent_pubkeys b) = Inr ()"
proof -
  have l: "live s E i = Some b" using inv b by (rule live_executing)
  have head: "is_head (live s E) i b" using inv b by (rule sched_invD(7))
  have "hm_get (blocked_intents s) i = None" using sched_invD(3) [OF inv] b by (auto simp: domIff)
  moreover have "\<forall>k \<in> keys_of b. Option.bind (hm_get (blocked_keys s) k) front = Some i"
    using head_fronts [OF inv l] head by blast
  ultimately show ?thesis
    using head_count [OF inv l] head by (simp add: validate_executing_def front_flags_eq domIff)
qed

lemma complete_keys_ok:
  assumes "distinct ks" and "\<forall>k \<in> set ks. hm_get bk k \<noteq> None"
  shows "\<exists>bk'. complete_keys bk ks = (bk', Inr ())
    \<and> (hm_distinct bk \<longrightarrow> hm_distinct bk')
    \<and> (\<forall>k. hm_get bk' k = (if k \<in> set ks
         then (case hm_get bk k of None \<Rightarrow> None | Some q \<Rightarrow> if tl q = [] then None else Some (tl q))
         else hm_get bk k))"
  using assms
proof (induction ks arbitrary: bk)
  case Nil
  then show ?case by simp
next
  case (Cons k ks)
  obtain q where q: "hm_get bk k = Some q" using Cons.prems by auto
  let ?bk = "if tl q = [] then hm_remove k bk else hm_insert k (tl q) bk"
  have "\<forall>x \<in> set ks. hm_get ?bk x \<noteq> None" using Cons.prems by auto
  then obtain bk' where bk': "complete_keys ?bk ks = (bk', Inr ())"
    "hm_distinct ?bk \<longrightarrow> hm_distinct bk'"
    "\<forall>x. hm_get bk' x = (if x \<in> set ks
       then (case hm_get ?bk x of None \<Rightarrow> None | Some q \<Rightarrow> if tl q = [] then None else Some (tl q))
       else hm_get ?bk x)"
    using Cons.IH [of ?bk] Cons.prems by auto
  show ?case
    using bk' q Cons.prems by (intro exI [of _ bk']) (auto split: if_splits)
qed

lemma queue_ok_pop:
  assumes "queue_ok L k (Some q)" and "front q = Some i"
  shows "queue_ok (L(i := None)) k (if tl q = [] then None else Some (tl q))"
  using assms by (cases q) (auto simp: holders_del)

lemma queue_ok_del: "queue_ok L k oq \<Longrightarrow> i \<notin> holders L k \<Longrightarrow> queue_ok (L(i := None)) k oq"
  by (cases oq) (auto simp: holders_del)

lemma is_head_del: "is_head L j c \<Longrightarrow> is_head (L(i := None)) j c"
  by (auto simp: is_head_def holders_del)

lemma wf_intents_del: "wf_intents L \<Longrightarrow> wf_intents (L(i := None))"
  by (simp add: wf_intents_def)

lemma live_retire:
  assumes "i \<notin> dom (hm_get (blocked_intents s))"
  shows "live (s\<lparr>blocked_keys := bk\<rparr>) (E(i := None)) = (live s E)(i := None)"
  using assms by (intro ext) (auto simp: live_def blocked_map_def map_add_def domIff split: option.split)

lemma complete_ok:
  assumes inv: "sched_inv s E" and b: "E i = Some b"
  shows "\<exists>s'. complete s b = (s', Inr ()) \<and> sched_inv s' (E(i := None))
    \<and> live s' (E(i := None)) = (live s E)(i := None)
    \<and> blocked_intents s' = blocked_intents s \<and> poisoned_keys s' = poisoned_keys s"
proof -
  have l: "live s E i = Some b" using inv b by (rule live_executing)
  have wf: "intent_id b = i" "distinct (intent_pubkeys b)" "intent_pubkeys b \<noteq> []"
    using wf_intentsD [OF sched_invD(4) [OF inv] l] by auto
  have nb: "i \<notin> dom (hm_get (blocked_intents s))" using sched_invD(3) [OF inv] b by auto
  have fronts: "Option.bind (hm_get (blocked_keys s) k) front = Some i" if "k \<in> keys_of b" for k
    using head_fronts [OF inv l] sched_invD(7) [OF inv b] that by blast
  then have "\<forall>k \<in> keys_of b. hm_get (blocked_keys s) k \<noteq> None" by (metis bind_eq_None_conv option.distinct(1))
  then obtain bk' where bk': "complete_keys (blocked_keys s) (intent_pubkeys b) = (bk', Inr ())"
    "hm_distinct bk'"
    "\<And>k. hm_get bk' k = (if k \<in> keys_of b
       then (case hm_get (blocked_keys s) k of None \<Rightarrow> None | Some q \<Rightarrow> if tl q = [] then None else Some (tl q))
       else hm_get (blocked_keys s) k)"
    using complete_keys_ok [OF wf(2), of "blocked_keys s"] sched_invD(1) [OF inv] by auto
  let ?s = "s\<lparr>blocked_keys := bk'\<rparr>"
  have live: "live ?s (E(i := None)) = (live s E)(i := None)" using nb by (rule live_retire)
  have "queue_ok ((live s E)(i := None)) k (hm_get bk' k)" for k
  proof (cases "k \<in> keys_of b")
    case True
    from fronts [OF this] obtain q where "hm_get (blocked_keys s) k = Some q" "front q = Some i"
      by (auto simp: bind_eq_Some_conv)
    with True show ?thesis using queue_ok_pop sched_invD(6) [OF inv, of k] bk'(3) [of k] by simp
  next
    case False
    then have "i \<notin> holders (live s E) k" using l by (auto simp: holders_def)
    with False show ?thesis using queue_ok_del sched_invD(6) [OF inv, of k] bk'(3) [of k] by simp
  qed
  then have "sched_inv ?s (E(i := None))"
    unfolding sched_inv_def live
    using sched_invD [OF inv] bk'(2) by (auto intro: is_head_del wf_intents_del split: if_splits)
  moreover have "complete s b = (?s, Inr ())"
    using wf bk'(1) validate_executing_ok [OF inv b] by (simp add: complete_def)
  ultimately show ?thesis using live by auto
qed

end
