(* ===== verification/Scheduler_Failure.thy ===== *)
theory Scheduler_Failure
  imports Scheduler_Invariant
begin

text \<open>
  What a failure voids. \<open>depends L j i\<close> says that the live intent \<open>i\<close> waits behind \<open>j\<close> on
  some pubkey; a failed intent voids its transitive dependents and nothing else. The work
  list loop of \<^verbatim>\<open>IntentScheduler::failed\<close> is proved to compute that set, in ascending order.
\<close>

section \<open>Dependents\<close>

definition depends :: "intent_map \<Rightarrow> u64 \<Rightarrow> u64 \<Rightarrow> bool" where
  "depends L j i \<longleftrightarrow> j < i \<and> (\<exists>k. j \<in> holders L k \<and> i \<in> holders L k)"

definition voided :: "intent_map \<Rightarrow> u64 \<Rightarrow> u64 set" where
  "voided L i = {j. (depends L)\<^sup>+\<^sup>+ i j}"

definition remaining :: "intent_map \<Rightarrow> u64 set \<Rightarrow> pubkey \<Rightarrow> u64 set" where
  "remaining L R k = {j \<in> holders L k. \<forall>r \<in> R \<inter> holders L k. j < r}"

fun queue_holds :: "u64 set \<Rightarrow> u64 list option \<Rightarrow> bool" where
  "queue_holds A None = (A = {})"
| "queue_holds A (Some q) = (q \<noteq> [] \<and> sorted_wrt (<) q \<and> set q = A)"

lemma queue_ok_holds: "queue_ok L k oq = queue_holds (holders L k) oq"
  by (cases oq) auto

lemma dependsI: "j < i \<Longrightarrow> j \<in> holders L k \<Longrightarrow> i \<in> holders L k \<Longrightarrow> depends L j i"
  by (auto simp: depends_def)

lemma depends_less: "depends L j i \<Longrightarrow> j < i"
  by (simp add: depends_def)

lemma depends_dom: "depends L j i \<Longrightarrow> i \<in> dom L"
  by (auto simp: depends_def dest: holders_dom)

lemma voided_step: "j \<in> insert i (voided L i) \<Longrightarrow> depends L j m \<Longrightarrow> m \<in> voided L i"
  by (auto simp: voided_def intro: tranclp.trancl_into_trancl)

lemma voided_greater: "j \<in> voided L i \<Longrightarrow> i < j"
  unfolding voided_def mem_Collect_eq
  by (induction rule: tranclp.induct) (auto dest: depends_less intro: less_trans)

lemma voided_last: "j \<in> voided L i \<Longrightarrow> \<exists>m. depends L m j"
  unfolding voided_def mem_Collect_eq by (erule tranclp.cases) auto

lemma voided_dom: "j \<in> voided L i \<Longrightarrow> j \<in> dom L"
  using voided_last depends_dom by fast

lemma voided_closed:
  assumes "\<And>r m. r \<in> R \<Longrightarrow> depends L r m \<Longrightarrow> m \<in> R" and "i \<in> R"
  shows "voided L i \<subseteq> R"
proof
  fix j
  assume "j \<in> voided L i"
  then have "(depends L)\<^sup>+\<^sup>+ i j" by (simp add: voided_def)
  then show "j \<in> R" using assms by (induction rule: tranclp.induct) auto
qed

lemma head_not_dependent:
  assumes "L e = Some b" and "is_head L e b"
  shows "\<not> depends L j e"
  using assms by (fastforce simp: depends_def is_head_def holders_iff)

lemma executing_not_voided:
  assumes inv: "sched_inv s E" and b: "E e = Some b"
  shows "e \<notin> voided (live s E) i"
  using head_not_dependent [OF live_executing [OF inv b] sched_invD(7) [OF inv b]] voided_last
  by fastforce

lemma voided_blocked:
  assumes inv: "sched_inv s E" and j: "j \<in> voided (live s E) i"
  shows "\<exists>m. hm_get (blocked_intents s) j = Some m \<and> live s E j = Some (im_intent m)"
proof -
  obtain c where c: "live s E j = Some c" using voided_dom [OF j] by auto
  have "E j \<noteq> Some c" using executing_not_voided [OF inv, of j c i] j by auto
  with c show ?thesis using live_Some_iff [OF sched_invD(3) [OF inv], of j c] by auto
qed

lemma remaining_closed:
  assumes "\<And>r m. r \<in> R \<Longrightarrow> depends L r m \<Longrightarrow> m \<in> R"
  shows "remaining L R k = holders (L |` (- R)) k"
proof -
  have "j < r" if "j \<in> holders L k" "j \<notin> R" "r \<in> R" "r \<in> holders L k" for j r
    using that assms [of r j] dependsI [of r j L k] by (cases j r rule: linorder_cases) auto
  then show ?thesis
    by (auto simp: remaining_def holders_def restrict_map_def split: if_splits)
qed

lemma remaining_insert:
  "remaining L (insert i R) k =
     (if i \<in> holders L k then {j \<in> remaining L R k. j < i} else remaining L R k)"
  by (auto simp: remaining_def)

lemma remaining_down:
  "j \<in> remaining L R k \<Longrightarrow> i < j \<Longrightarrow> i \<in> holders L k \<Longrightarrow> i \<in> remaining L R k"
  using less_trans [of i j] by (auto simp: remaining_def)

section \<open>The two loops\<close>

lemma sorted_split_at:
  assumes "sorted_wrt (<) (q :: u64 list)" and "n < length q" and "q ! n = i"
  shows "set (take n q) = {j \<in> set q. j < i}" "set (drop 1 (drop n q)) = {j \<in> set q. i < j}"
proof -
  have q: "q = take n q @ i # drop 1 (drop n q)"
    using id_take_nth_drop [OF assms(2)] assms(3) by simp
  obtain xs ys where xy: "q = xs @ i # ys" "take n q = xs" "drop 1 (drop n q) = ys"
    using q by blast
  then have "\<forall>x \<in> set xs. x < i" "\<forall>y \<in> set ys. i < y"
    using assms(1) by (auto simp: sorted_wrt_append)
  then show "set (take n q) = {j \<in> set q. j < i}" "set (drop 1 (drop n q)) = {j \<in> set q. i < j}"
    unfolding xy(2,3) by (auto simp: xy(1))
qed

lemma drain_queue:
  assumes q: "queue_holds A (Some q)" and n: "binary_search q i = Some n"
  shows "i \<in> A" "queue_holds {j \<in> A. j < i} (if take n q = [] then None else Some (take n q))"
    "set (drop 1 (drop n q)) = {j \<in> A. i < j}"
proof -
  have sorted: "sorted_wrt (<) q" and A: "A = set q" using q by auto
  have n': "n < length q" "q ! n = i" using binary_search_Some_iff [OF sorted] n by auto
  show "i \<in> A" using n' A by auto
  have "sorted_wrt (<) (take n q)" using sorted by (metis append_take_drop_id sorted_wrt_append)
  moreover note split = sorted_split_at [OF sorted n']
  ultimately show "queue_holds {j \<in> A. j < i} (if take n q = [] then None else Some (take n q))"
    using A by (cases "take n q = []") auto
  show "set (drop 1 (drop n q)) = {j \<in> A. i < j}" using split(2) A by simp
qed

definition drained :: "u64 \<Rightarrow> (pubkey \<Rightarrow> u64 set) \<Rightarrow> pubkey list \<Rightarrow> pubkey \<Rightarrow> u64 set" where
  "drained i A ks k = (if k \<in> set ks \<and> i \<in> A k then {j \<in> A k. j < i} else A k)"

definition released :: "u64 \<Rightarrow> (pubkey \<Rightarrow> u64 set) \<Rightarrow> pubkey list \<Rightarrow> u64 set" where
  "released i A ks = {j. \<exists>k \<in> set ks. i \<in> A k \<and> j \<in> A k \<and> i < j}"

lemma drained_simps:
  "drained i A [] = A" "released i A [] = {}"
  "i \<notin> A k \<Longrightarrow> drained i A (k # ks) = drained i A ks"
  "i \<notin> A k \<Longrightarrow> released i A (k # ks) = released i A ks"
  "i \<in> A k \<Longrightarrow> k \<notin> set ks \<Longrightarrow> drained i A (k # ks) = drained i (A(k := {j \<in> A k. j < i})) ks"
  "i \<in> A k \<Longrightarrow> k \<notin> set ks \<Longrightarrow>
     released i A (k # ks) = {j \<in> A k. i < j} \<union> released i (A(k := {j \<in> A k. j < i})) ks"
  by (auto simp: drained_def released_def fun_eq_iff)

lemma drain_keys_spec:
  assumes "distinct ks" and "\<And>k. queue_holds (A k) (hm_get bk k)"
    and "drain_keys i bk w ks = (bk', w')"
  shows "(\<forall>k. queue_holds (drained i A ks k) (hm_get bk' k))
    \<and> set w' = set w \<union> released i A ks
    \<and> (hm_distinct bk \<longrightarrow> hm_distinct bk') \<and> (sorted_wrt (<) w \<longrightarrow> sorted_wrt (<) w')"
  using assms
proof (induction ks arbitrary: A bk w)
  case Nil
  then show ?case by (simp add: drained_simps)
next
  case (Cons k ks)
  have k: "k \<notin> set ks" "distinct ks" using Cons.prems(1) by simp_all
  show ?case
  proof (cases "Option.bind (hm_get bk k) (\<lambda>q. binary_search q i)")
    case None
    then have i: "i \<notin> A k"
      using Cons.prems(2) [of k] binary_search_None_iff by (cases "hm_get bk k") auto
    have "drain_keys i bk w ks = (bk', w')"
      using Cons.prems(3) None by (cases "hm_get bk k") auto
    from Cons.IH [OF k(2) Cons.prems(2) this] show ?thesis
      unfolding drained_simps(3,4) [where A = A, OF i] .
  next
    case (Some n)
    then obtain q where bk: "hm_get bk k = Some q" and n: "binary_search q i = Some n"
      by (auto simp: bind_eq_Some_conv)
    let ?bk = "if take n q = [] then hm_remove k bk else hm_insert k (take n q) bk"
    define A' where "A' = A(k := {j \<in> A k. j < i})"
    have "queue_holds (A k) (Some q)" using Cons.prems(2) [of k] bk by simp
    note d = drain_queue [OF this n]
    have q: "queue_holds (A' x) (hm_get ?bk x)" for x
      unfolding A'_def using d(2) Cons.prems(2) [of x] by (cases "x = k"; cases "take n q = []") auto
    have "drain_keys i ?bk (bt_extend w (drop 1 (drop n q))) ks = (bk', w')"
      using Cons.prems(3) bk n by simp
    from Cons.IH [where A = A', OF k(2) q this] show ?thesis
      unfolding drained_simps(5,6) [where A = A, OF d(1) k(1)] A'_def [symmetric] bt_extend_set d(3) by auto
  qed
qed

lemma failed_seed_spec:
  assumes "distinct ks" and "\<And>k. queue_holds (A k) (hm_get (blocked_keys s) k)"
    and "\<And>k. k \<in> set ks \<Longrightarrow> Option.bind (hm_get (blocked_keys s) k) front = Some i"
    and "hm_distinct (blocked_keys s)" and "sorted_wrt (<) w"
  shows "\<exists>s' w'. failed_seed s w ks = (s', Inr w')
    \<and> blocked_intents s' = blocked_intents s \<and> poisoned_keys s' = poisoned_keys s \<union> set ks
    \<and> (\<forall>k. queue_holds (if k \<in> set ks then {} else A k) (hm_get (blocked_keys s') k))
    \<and> hm_distinct (blocked_keys s') \<and> sorted_wrt (<) w'
    \<and> set w' = set w \<union> {j. \<exists>k \<in> set ks. j \<in> A k \<and> i < j}"
  using assms
proof (induction ks arbitrary: A s w)
  case Nil
  then show ?case by simp
next
  case (Cons k ks)
  obtain q where q: "hm_get (blocked_keys s) k = Some q" "front q = Some i"
    using Cons.prems(3) [of k] by (auto simp: bind_eq_Some_conv)
  then obtain q' where q': "q = i # q'" by (cases q) auto
  have "set (drop 1 q) = {j \<in> A k. i < j}"
    using Cons.prems(2) [of k] q q' by auto
  let ?s = "s\<lparr>poisoned_keys := insert k (poisoned_keys s), blocked_keys := hm_remove k (blocked_keys s)\<rparr>"
  let ?A = "A(k := {})"
  have "\<exists>s' w'. failed_seed ?s (bt_extend w (drop 1 q)) ks = (s', Inr w')
    \<and> blocked_intents s' = blocked_intents ?s \<and> poisoned_keys s' = poisoned_keys ?s \<union> set ks
    \<and> (\<forall>x. queue_holds (if x \<in> set ks then {} else ?A x) (hm_get (blocked_keys s') x))
    \<and> hm_distinct (blocked_keys s') \<and> sorted_wrt (<) w'
    \<and> set w' = set (bt_extend w (drop 1 q)) \<union> {j. \<exists>x \<in> set ks. j \<in> ?A x \<and> i < j}"
  proof (rule Cons.IH)
    show "distinct ks" using Cons.prems(1) by simp
    show "queue_holds (?A x) (hm_get (blocked_keys ?s) x)" for x
      using Cons.prems(2) [of x] by simp
    show "Option.bind (hm_get (blocked_keys ?s) x) front = Some i" if "x \<in> set ks" for x
      using Cons.prems(1) Cons.prems(3) [of x] that by auto
  qed (use Cons.prems(4,5) in simp_all)
  then obtain s' w' where IH: "failed_seed ?s (bt_extend w (drop 1 q)) ks = (s', Inr w')"
    "blocked_intents s' = blocked_intents ?s" "poisoned_keys s' = poisoned_keys ?s \<union> set ks"
    "\<And>x. queue_holds (if x \<in> set ks then {} else ?A x) (hm_get (blocked_keys s') x)"
    "hm_distinct (blocked_keys s')" "sorted_wrt (<) w'"
    "set w' = set (bt_extend w (drop 1 q)) \<union> {j. \<exists>x \<in> set ks. j \<in> ?A x \<and> i < j}"
    by blast
  have "queue_holds (if x \<in> set (k # ks) then {} else A x) (hm_get (blocked_keys s') x)" for x
    using IH(4) [of x] by (cases "x \<in> set ks"; cases "x = k") auto
  moreover have "set w' = set w \<union> {j. \<exists>x \<in> set (k # ks). j \<in> A x \<and> i < j}"
    using IH(7) Cons.prems(1) \<open>set (drop 1 q) = {j \<in> A k. i < j}\<close> by auto
  ultimately show ?case using IH q by (intro exI [of _ s'] exI [of _ w']) simp
qed

section \<open>The cascade\<close>

text \<open>
  The loop's invariant, for a failure of \<open>i\<close> in \<open>s0\<close>: \<open>p\<close> lists the intents voided so far in
  ascending order, the work list is above them, the dependents of everything removed are
  removed or listed, and each queue keeps the holders below its first removed one.
\<close>

definition cascade ::
    "intent_scheduler \<Rightarrow> intent_map \<Rightarrow> u64 \<Rightarrow> outbox_intent_bundle \<Rightarrow>
     intent_scheduler \<Rightarrow> u64 list \<Rightarrow> outbox_intent_bundle list \<Rightarrow> bool" where
  "cascade s0 E i b s w p \<longleftrightarrow>
     (let L = live s0 E; R = insert i (intent_id ` set p) in
      sorted_wrt (<) (map intent_id p) \<and> sorted_wrt (<) w
      \<and> (\<forall>c \<in> set p. intent_id c \<in> voided L i \<and> L (intent_id c) = Some c \<and> (\<forall>j \<in> set w. intent_id c < j))
      \<and> set w \<subseteq> voided L i
      \<and> (\<forall>r \<in> R. \<forall>m. depends L r m \<longrightarrow> m \<in> R \<union> set w)
      \<and> hm_distinct (blocked_keys s) \<and> hm_distinct (blocked_intents s)
      \<and> hm_get (blocked_intents s) = hm_get (blocked_intents s0) |` (- R)
      \<and> (\<forall>k. queue_holds (remaining L R k) (hm_get (blocked_keys s) k))
      \<and> poisoned_keys s = poisoned_keys s0 \<union> keys_of b \<union> (\<Union>c \<in> set p. keys_of c))"

lemma cascadeD:
  assumes "cascade s0 E i b s w p"
  shows "sorted_wrt (<) (map intent_id p)" "sorted_wrt (<) w"
    "\<And>c. c \<in> set p \<Longrightarrow> intent_id c \<in> voided (live s0 E) i"
    "\<And>c. c \<in> set p \<Longrightarrow> live s0 E (intent_id c) = Some c"
    "\<And>c j. c \<in> set p \<Longrightarrow> j \<in> set w \<Longrightarrow> intent_id c < j"
    "set w \<subseteq> voided (live s0 E) i"
    "\<And>r m. r \<in> insert i (intent_id ` set p) \<Longrightarrow> depends (live s0 E) r m \<Longrightarrow>
       m \<in> insert i (intent_id ` set p) \<union> set w"
    "hm_distinct (blocked_keys s)" "hm_distinct (blocked_intents s)"
    "hm_get (blocked_intents s) = hm_get (blocked_intents s0) |` (- insert i (intent_id ` set p))"
    "\<And>k. queue_holds (remaining (live s0 E) (insert i (intent_id ` set p)) k) (hm_get (blocked_keys s) k)"
    "poisoned_keys s = poisoned_keys s0 \<union> keys_of b \<union> (\<Union>c \<in> set p. keys_of c)"
  using assms unfolding cascade_def Let_def by (elim conjE; (simp; fail | metis))+

lemma cascade_skip:
  assumes inv: "sched_inv s0 E" and c: "cascade s0 E i b s (j # w) p"
    and none: "hm_get (blocked_intents s) j = None"
  shows "cascade s0 E i b s w p"
proof -
  have j: "j \<in> voided (live s0 E) i" using cascadeD(6) [OF c] by simp
  then obtain m where "hm_get (blocked_intents s0) j = Some m" using voided_blocked [OF inv] by blast
  then have jR: "j \<in> insert i (intent_id ` set p)"
    using none cascadeD(10) [OF c] by (auto simp: restrict_map_def split: if_splits)
  have "m \<in> insert i (intent_id ` set p) \<union> set w"
    if "r \<in> insert i (intent_id ` set p)" "depends (live s0 E) r m" for r m
    using cascadeD(7) [OF c that] jR by auto
  with cascadeD [OF c] show ?thesis unfolding cascade_def Let_def by auto
qed

lemma drained_remaining:
  assumes "L i = Some c"
  shows "drained i (remaining L R) (intent_pubkeys c) k = remaining L (insert i R) k"
proof -
  have "{j \<in> remaining L R k. j < i} = remaining L R k" if "i \<in> holders L k" "i \<notin> remaining L R k"
    using that remaining_down [of _ L R k i]
    by (auto simp: not_less) (metis (no_types, lifting) linorder_neqE that(2))
  then show ?thesis
    using assms by (auto simp: drained_def remaining_insert holders_iff)
qed

lemma cascade_step:
  assumes inv: "sched_inv s0 E" and c: "cascade s0 E i b s (j # w) p"
    and m: "hm_get (blocked_intents s) j = Some m"
    and drain: "drain_keys j (blocked_keys s) w (intent_pubkeys (im_intent m)) = (bk, w')"
  shows "cascade s0 E i b
    (s\<lparr>blocked_intents := hm_remove j (blocked_intents s), blocked_keys := bk,
       poisoned_keys := poisoned_keys s \<union> keys_of (im_intent m)\<rparr>) w' (p @ [im_intent m])"
proof -
  let ?L = "live s0 E" and ?R = "insert i (intent_id ` set p)" and ?c = "im_intent m"
  have jR: "j \<notin> ?R" and m0: "hm_get (blocked_intents s0) j = Some m"
    using m cascadeD(10) [OF c] by (auto simp: restrict_map_def split: if_splits)
  have l: "?L j = Some ?c" using m0 by (rule live_blocked)
  note wf = wf_intentsD [OF sched_invD(4) [OF inv] l]
  have R': "insert i (intent_id ` set (p @ [?c])) = insert j ?R" using wf(1) by auto
  note d = drain_keys_spec [OF wf(2) cascadeD(11) [OF c] drain]
  have jv: "j \<in> voided ?L i" using cascadeD(6) [OF c] by simp
  have w': "set w' = set w \<union> released j (remaining ?L ?R) (intent_pubkeys ?c)" using d by blast
  have rel: "depends ?L j x" if "x \<in> released j (remaining ?L ?R) (intent_pubkeys ?c)" for x
    using that by (auto simp: released_def remaining_def intro: dependsI)
  have gt: "j < x" if "x \<in> set w'" for x
    using that cascadeD(2) [OF c] rel depends_less w' by auto
  have closed: "x \<in> insert j ?R \<union> set w'" if r: "r \<in> insert j ?R" and dep: "depends ?L r x" for r x
  proof (cases "r = j")
    case False
    then show ?thesis using cascadeD(7) [OF c, of r x] r dep w' by auto
  next
    case True
    obtain k where k: "j < x" "j \<in> holders ?L k" "x \<in> holders ?L k"
      using dep True by (auto simp: depends_def)
    show ?thesis
    proof (cases "x \<in> remaining ?L ?R k")
      case True
      then have "x \<in> released j (remaining ?L ?R) (intent_pubkeys ?c)"
        using k remaining_down [OF True k(1,2)] holders_iff [where L = ?L, OF l, of k] by (auto simp: released_def)
      then show ?thesis using w' by simp
    next
      case False
      then obtain q where q: "q \<in> ?R" "q \<in> holders ?L k" "\<not> x < q"
        using k by (auto simp: remaining_def)
      then have "x = q \<or> depends ?L q x" using k(3) dependsI [of q x ?L k] by (meson not_less_iff_gr_or_eq)
      then show ?thesis using q(1) cascadeD(7) [OF c q(1), of x] k(1) w' by auto
    qed
  qed
  have "cascade s0 E i b s (j # w) p" by (rule c)
  note c' = cascadeD [OF this]
  show ?thesis
    unfolding cascade_def Let_def R'
  proof (intro conjI ballI allI impI)
    show "sorted_wrt (<) (map intent_id (p @ [?c]))"
      using c'(1,5) wf(1) by (simp add: sorted_wrt_append)
    show "sorted_wrt (<) w'" using d c'(2) by simp
    show "set w' \<subseteq> voided ?L i" using c'(6) w' rel voided_step [of j i ?L] jv by auto
  next
    fix x assume x: "x \<in> set (p @ [?c])"
    show "intent_id x \<in> voided ?L i" "?L (intent_id x) = Some x"
      using x c'(3,4) jv l wf(1) by auto
    fix y assume "y \<in> set w'"
    then show "intent_id x < y" using x gt c'(5) [of x j] wf(1) by fastforce
  next
    show "queue_holds (remaining ?L (insert j ?R) k)
        (hm_get (blocked_keys (s\<lparr>blocked_intents := hm_remove j (blocked_intents s), blocked_keys := bk,
       poisoned_keys := poisoned_keys s \<union> keys_of ?c\<rparr>)) k)" for k
      using conjunct1 [OF d, rule_format, of k]
        drained_remaining [where L = ?L and R = ?R and k = k, OF l] by simp
  qed (use closed c' d in \<open>auto simp: restrict_map_def fun_eq_iff\<close>)
qed

lemma failed_loop_cascade:
  assumes inv: "sched_inv s0 E"
  shows "cascade s0 E i b s w p \<Longrightarrow> failed_loop s w p = (s', p') \<Longrightarrow> cascade s0 E i b s' [] p'"
proof (induction s w p rule: failed_loop.induct)
  case (1 s p)
  then show ?case by simp
next
  case (2 s j w p)
  show ?case
  proof (cases "hm_get (blocked_intents s) j")
    case None
    then show ?thesis using 2 cascade_skip [OF inv "2.prems"(1)] by simp
  next
    case (Some m)
    obtain bk w' where d: "drain_keys j (blocked_keys s) w (intent_pubkeys (im_intent m)) = (bk, w')"
      by fastforce
    show ?thesis
      using "2.IH"(2) [OF Some refl d [symmetric] refl cascade_step [OF inv "2.prems"(1) Some d]]
        "2.prems"(2) Some d by simp
  qed
qed

lemma cascade_start:
  assumes inv: "sched_inv s E" and b: "E i = Some b"
  shows "\<exists>s' w. failed_seed s [] (intent_pubkeys b) = (s', Inr w) \<and> cascade s E i b s' w []"
proof -
  let ?L = "live s E"
  have l: "?L i = Some b" using inv b by (rule live_executing)
  have head: "is_head ?L i b" using inv b by (rule sched_invD(7))
  have fronts: "Option.bind (hm_get (blocked_keys s) k) front = Some i" if "k \<in> keys_of b" for k
    using head_fronts [OF inv l] head that by blast
  obtain s' w where seed: "failed_seed s [] (intent_pubkeys b) = (s', Inr w)"
    "blocked_intents s' = blocked_intents s" "poisoned_keys s' = poisoned_keys s \<union> keys_of b"
    "\<And>k. queue_holds (if k \<in> keys_of b then {} else holders ?L k) (hm_get (blocked_keys s') k)"
    "hm_distinct (blocked_keys s')" "sorted_wrt (<) w"
    "set w = {j. \<exists>k \<in> keys_of b. j \<in> holders ?L k \<and> i < j}"
    using failed_seed_spec [OF wf_intentsD(2) [OF sched_invD(4) [OF inv] l], of "holders ?L" s i "[]"]
      sched_invD(1,6) [OF inv] fronts by (auto simp: queue_ok_holds)
  have dep: "depends ?L i j \<longleftrightarrow> j \<in> set w" for j
    using l by (auto simp: seed(7) depends_def holders_iff)
  have rem: "remaining ?L {i} k = (if k \<in> keys_of b then {} else holders ?L k)" for k
    using l head by (cases "k \<in> keys_of b") (auto simp: remaining_def is_head_def holders_iff not_less)
  have restr: "hm_get (blocked_intents s) = hm_get (blocked_intents s) |` (- {i})"
    using sched_invD(3) [OF inv] b by (auto simp: fun_eq_iff restrict_map_def domIff)
  have "cascade s E i b s' w []"
    unfolding cascade_def Let_def
    using seed(2-6) dep rem restr sched_invD(2) [OF inv] voided_step [of i i ?L] by auto
  with seed(1) show ?thesis by blast
qed

lemma live_restrict:
  assumes "hm_get (blocked_intents s') = hm_get (blocked_intents s) |` (- R)"
    and "i \<in> R" and "dom E \<inter> R \<subseteq> {i}"
  shows "live s' (E(i := None)) = live s E |` (- R)"
  using assms by (intro ext)
    (auto simp: live_def blocked_map_def map_add_def restrict_map_def split: option.split)

lemma wf_intents_restrict: "wf_intents L \<Longrightarrow> wf_intents (L |` A)"
  by (simp add: wf_intents_def restrict_map_def)

lemma is_head_restrict: "is_head L j c \<Longrightarrow> is_head (L |` A) j c"
  by (auto simp: is_head_def holders_def restrict_map_def split: if_splits)

lemma cascade_end:
  assumes inv: "sched_inv s E" and b: "E i = Some b" and c: "cascade s E i b s' [] p"
  shows "intent_id ` set p = voided (live s E) i"
    "live s' (E(i := None)) = live s E |` (- insert i (voided (live s E) i))"
    "hm_get (blocked_intents s') = hm_get (blocked_intents s) |` (- insert i (voided (live s E) i))"
    "sched_inv s' (E(i := None))"
proof -
  let ?L = "live s E"
  have closed: "m \<in> insert i (intent_id ` set p)"
    if "r \<in> insert i (intent_id ` set p)" "depends ?L r m" for r m
    using cascadeD(7) [OF c that] by simp
  have "voided ?L i \<subseteq> insert i (intent_id ` set p)" by (rule voided_closed) (use closed in auto)
  then show R: "intent_id ` set p = voided ?L i"
    using cascadeD(3) [OF c] voided_greater [of i ?L i] by auto
  let ?R = "insert i (voided ?L i)"
  have E: "dom E \<inter> ?R \<subseteq> {i}" using executing_not_voided [OF inv] by auto
  show bi: "hm_get (blocked_intents s') = hm_get (blocked_intents s) |` (- ?R)"
    using cascadeD(10) [OF c] R by simp
  show live: "live s' (E(i := None)) = ?L |` (- ?R)"
    by (rule live_restrict [OF bi _ E]) simp
  have "queue_ok (?L |` (- ?R)) k (hm_get (blocked_keys s') k)" for k
    using cascadeD(11) [OF c, of k] remaining_closed [of ?R ?L k] closed R by (simp add: queue_ok_holds)
  moreover have "dom (E(i := None)) \<inter> dom (hm_get (blocked_intents s')) = {}"
    using sched_invD(3) [OF inv] bi by auto
  moreover have "im_num_keys m = length (intent_pubkeys (im_intent m))"
    if "hm_get (blocked_intents s') j = Some m" for j m
    using that bi sched_invD(5) [OF inv, of j m] by (simp add: restrict_map_def split: if_splits)
  ultimately show "sched_inv s' (E(i := None))"
    unfolding sched_inv_def live
    using cascadeD(8,9) [OF c] sched_invD(4,7) [OF inv]
    by (auto intro: wf_intents_restrict is_head_restrict split: if_splits)
qed

lemma failed_ok:
  assumes inv: "sched_inv s E" and b: "E i = Some b"
  shows "\<exists>s' p. failed s b = (s', Inr p) \<and> sched_inv s' (E(i := None))
    \<and> live s' (E(i := None)) = live s E |` (- insert i (voided (live s E) i))
    \<and> hm_get (blocked_intents s') = hm_get (blocked_intents s) |` (- insert i (voided (live s E) i))
    \<and> intent_id ` set p = voided (live s E) i
    \<and> (\<forall>c \<in> set p. blocked_map s (intent_id c) = Some c)
    \<and> sorted_wrt (<) (map intent_id p)
    \<and> poisoned_keys s' = poisoned_keys s \<union> keys_of b \<union> (\<Union>c \<in> set p. keys_of c)"
proof -
  obtain s1 w where seed: "failed_seed s [] (intent_pubkeys b) = (s1, Inr w)"
    and start: "cascade s E i b s1 w []"
    using cascade_start [OF inv b] by blast
  obtain s' p where loop: "failed_loop s1 w [] = (s', p)" by fastforce
  have c: "cascade s E i b s' [] p" by (rule failed_loop_cascade [OF inv start loop])
  have l: "live s E i = Some b" using inv b by (rule live_executing)
  have "failed s b = (s', Inr p)"
    using wf_intentsD [OF sched_invD(4) [OF inv] l] validate_executing_ok [OF inv b] seed loop
    by (simp add: failed_def)
  moreover have "blocked_map s (intent_id x) = Some x" if "x \<in> set p" for x
    using cascadeD(4) [OF c that] voided_blocked [OF inv cascadeD(3) [OF c that]]
    by (auto simp: blocked_map_def)
  ultimately show ?thesis
    using cascade_end [OF inv b c] cascadeD(1,12) [OF c] by blast
qed

end
