(* ===== verification/Intent_Intake.thy ===== *)
theory Intent_Intake
  imports Outbox_Model "HOL-Library.Multiset"
begin

text \<open>
  How intents reach the execution worker: the bounded channel and the backlog behind it
  (\<^verbatim>\<open>committor/src/execution/queue.rs\<close>, \<^verbatim>\<open>stream.rs\<close>, \<^verbatim>\<open>backlog.rs\<close>) and the reader that
  replays the outbox after a restart (\<^verbatim>\<open>committor/src/shared/outbox/outbox_intent_bundles_reader.rs\<close>).
  The channel and backlog together are one first-in first-out queue, and the reader returns the
  outbox in ascending id order, so recovery hands the scheduler ascending ids.
\<close>

section \<open>Backlog, channel and stream\<close>

datatype backlog_error = IntentNotFound u64 | Backlog_Deserialize | Backlog_AccountsDb

datatype intent_schedule_error = Schedule_ChannelClosed | Schedule_DBError backlog_error

text \<open>
  \<open>load\<close> stands for reading the outbox account of an intent id from the accounts database: the
  outer result is the database's, the option is the account's presence and the inner result is
  the decoding of its data.
\<close>

type_synonym outbox_loader = "u64 \<Rightarrow> (unit, (unit, outbox_intent_bundle) result option) result"

definition store_intent_bundles :: "u64 list \<Rightarrow> outbox_intent_bundle list \<Rightarrow> u64 list" where
  "store_intent_bundles queue bundles = queue @ map intent_id bundles"

fun pop_intent_bundle ::
    "outbox_loader \<Rightarrow> u64 list \<Rightarrow> (backlog_error, outbox_intent_bundle option) result \<times> u64 list" where
  "pop_intent_bundle load [] = (Inr None, [])"
| "pop_intent_bundle load (i # queue) =
     (rbind (map_err (\<lambda>_. Backlog_AccountsDb) (load i)) (\<lambda>found.
      rbind (ok_or found (IntentNotFound i)) (\<lambda>decoded.
      rbind (map_err (\<lambda>_. Backlog_Deserialize) decoded) (\<lambda>b. Inr (Some b)))), queue)"

record intent_channel =
  ch_buffer :: "outbox_intent_bundle list"
  ch_capacity :: nat
  ch_receiver_open :: bool
  ch_sender_open :: bool

datatype try_send_error = TrySend_Closed outbox_intent_bundle | TrySend_Full outbox_intent_bundle

definition try_send :: "intent_channel \<Rightarrow> outbox_intent_bundle \<Rightarrow> (try_send_error, intent_channel) result" where
  "try_send ch b =
     (if \<not> ch_receiver_open ch then Inl (TrySend_Closed b)
      else if length (ch_buffer ch) \<ge> ch_capacity ch then Inl (TrySend_Full b)
      else Inr (ch\<lparr>ch_buffer := ch_buffer ch @ [b]\<rparr>))"

datatype 'a poll = Pending | Ready 'a

fun channel_poll_next :: "intent_channel \<Rightarrow> outbox_intent_bundle option poll \<times> intent_channel" where
  "channel_poll_next ch =
     (case ch_buffer ch of
        b # rest \<Rightarrow> (Ready (Some b), ch\<lparr>ch_buffer := rest\<rparr>)
      | [] \<Rightarrow> (if ch_sender_open ch then Pending else Ready None, ch))"

record intent_queue =
  iq_backlog :: "u64 list"
  iq_channel :: intent_channel

definition poll_next ::
    "outbox_loader \<Rightarrow> intent_queue \<Rightarrow>
     (backlog_error, outbox_intent_bundle) result option poll \<times> intent_queue" where
  "poll_next load q =
     (if iq_backlog q = [] then
        (case channel_poll_next (iq_channel q) of
           (Pending, ch) \<Rightarrow> (Pending, q\<lparr>iq_channel := ch\<rparr>)
         | (Ready item, ch) \<Rightarrow> (Ready (map_option Inr item), q\<lparr>iq_channel := ch\<rparr>))
      else
        (case channel_poll_next (iq_channel q) of
           (Ready (Some item), ch) \<Rightarrow> (Ready (Some (Inr item)), q\<lparr>iq_channel := ch\<rparr>)
         | (_, ch) \<Rightarrow>
             (case pop_intent_bundle load (iq_backlog q) of
                (Inl e, rest) \<Rightarrow> (Ready (Some (Inl e)), q\<lparr>iq_channel := ch, iq_backlog := rest\<rparr>)
              | (Inr None, rest) \<Rightarrow> (Ready None, q\<lparr>iq_channel := ch, iq_backlog := rest\<rparr>)
              | (Inr (Some b), rest) \<Rightarrow>
                  (Ready (Some (Inr b)), q\<lparr>iq_channel := ch, iq_backlog := rest\<rparr>))))"

text \<open>\<^verbatim>\<open>iter.try_for_each(|bundle| sender.try_send(bundle))\<close>; an error comes with the unsent rest.\<close>

fun try_send_all ::
    "intent_channel \<Rightarrow> outbox_intent_bundle list \<Rightarrow>
     intent_channel \<times> (try_send_error \<times> outbox_intent_bundle list, unit) result" where
  "try_send_all ch [] = (ch, Inr ())"
| "try_send_all ch (b # bs) =
     (case try_send ch b of
        Inl e \<Rightarrow> (ch, Inl (e, bs))
      | Inr ch' \<Rightarrow> try_send_all ch' bs)"

definition enqueue ::
    "intent_queue \<Rightarrow> outbox_intent_bundle list \<Rightarrow>
     intent_queue \<times> (intent_schedule_error, unit) result" where
  "enqueue q bundles =
     (if iq_backlog q = [] then
        (case try_send_all (iq_channel q) bundles of
           (ch, Inr _) \<Rightarrow> (q\<lparr>iq_channel := ch\<rparr>, Inr ())
         | (ch, Inl (TrySend_Closed _, _)) \<Rightarrow> (q\<lparr>iq_channel := ch\<rparr>, Inl Schedule_ChannelClosed)
         | (ch, Inl (TrySend_Full b, rest)) \<Rightarrow>
             (q\<lparr>iq_channel := ch, iq_backlog := store_intent_bundles (iq_backlog q) (b # rest)\<rparr>, Inr ()))
      else (q\<lparr>iq_backlog := store_intent_bundles (iq_backlog q) bundles\<rparr>, Inr ()))"

text \<open>
  \<^verbatim>\<open>IntentQueue::schedule\<close>. The undelegation requests it issues first go to another service
  and their errors are only logged; the set of their pubkeys is \<open>collect_undelegated_pubkeys\<close>.
\<close>

definition collect_undelegated_pubkeys :: "outbox_intent_bundle list \<Rightarrow> pubkey set" where
  "collect_undelegated_pubkeys bundles =
     foldl (\<lambda>acc b. acc \<union> set (get_undelegated_pubkeys (oib_inner b))) {} bundles"

definition queue_schedule ::
    "intent_queue \<Rightarrow> outbox_intent_bundle list \<Rightarrow>
     intent_queue \<times> (intent_schedule_error, unit) result" where
  "queue_schedule q bundles = (if bundles = [] then (q, Inr ()) else enqueue q bundles)"

section \<open>Reading the outbox\<close>

record bundles_reader =
  br_capacity :: nat
  br_buffer :: "outbox_intent_bundle list"
  br_last_consumed_id :: "u64 option"

datatype bundles_reader_error = ReadExceedsCapacity nat nat | Reader_AccountsDb

definition new_reader :: "nat \<Rightarrow> bundles_reader" where
  "new_reader capacity = \<lparr>br_capacity = capacity, br_buffer = [], br_last_consumed_id = None\<rparr>"

text \<open>
  The heap of \<^verbatim>\<open>refill\<close> is kept as its elements in ascending id order; \<^verbatim>\<open>pop\<close> removes the
  greatest. \<open>scan\<close> is the list of decoded outbox accounts, in the order of the account scan.
\<close>

definition heap_step :: "nat \<Rightarrow> outbox_intent_bundle list \<Rightarrow> outbox_intent_bundle \<Rightarrow> outbox_intent_bundle list" where
  "heap_step capacity heap b =
     (let heap' = insort_key intent_id b heap
      in if length heap' > capacity then butlast heap' else heap')"

definition unconsumed :: "u64 option \<Rightarrow> outbox_intent_bundle \<Rightarrow> bool" where
  "unconsumed last_id b = (case last_id of Some l \<Rightarrow> intent_id b > l | None \<Rightarrow> True)"

definition refill :: "outbox_intent_bundle list \<Rightarrow> bundles_reader \<Rightarrow> bundles_reader" where
  "refill scan r =
     (let heap = foldl (heap_step (br_capacity r)) [] (filter (unconsumed (br_last_consumed_id r)) scan);
          items = sort_key intent_id heap
      in r\<lparr>br_last_consumed_id :=
             (if items = [] then br_last_consumed_id r else Some (intent_id (last items))),
           br_buffer := br_buffer r @ items\<rparr>)"

definition read_bundles ::
    "(unit, outbox_intent_bundle list) result \<Rightarrow> nat \<Rightarrow> bundles_reader \<Rightarrow>
     (bundles_reader_error, outbox_intent_bundle list) result \<times> bundles_reader" where
  "read_bundles scan n r =
     (if n = 0 then (Inr [], r)
      else if n > br_capacity r then (Inl (ReadExceedsCapacity n (br_capacity r)), r)
      else if length (br_buffer r) < n then
        (case scan of
           Inl _ \<Rightarrow> (Inl Reader_AccountsDb, r)
         | Inr accounts \<Rightarrow>
             (let r' = refill accounts r; k = min n (length (br_buffer r'))
              in (Inr (take k (br_buffer r')), r'\<lparr>br_buffer := drop k (br_buffer r')\<rparr>)))
      else (let k = min n (length (br_buffer r))
            in (Inr (take k (br_buffer r)), r\<lparr>br_buffer := drop k (br_buffer r)\<rparr>)))"

section \<open>Recovery after a restart\<close>

record delegation_session =
  ds_locally_protected :: bool
  ds_remote_slot :: u64

text \<open>\<open>sessions\<close> stands for \<^verbatim>\<open>chainlink.account_delegation_sessions\<close>.\<close>

type_synonym session_lookup = "pubkey list \<Rightarrow> (unit, delegation_session option list) result"

definition same_session :: "committed_account \<times> delegation_session option \<Rightarrow> bool" where
  "same_session = (\<lambda>(recovered, current).
     case current of
       None \<Rightarrow> False
     | Some c \<Rightarrow> ds_locally_protected c
         \<and> (ca_remote_slot recovered = 0 \<or> ca_remote_slot recovered = ds_remote_slot c))"

definition is_same_delegation_session :: "session_lookup \<Rightarrow> outbox_intent_bundle \<Rightarrow> bool" where
  "is_same_delegation_session sessions b =
     (let recovered = sib_get_all_committed_accounts (oib_inner b) in
      if recovered = [] then True
      else case sessions (map ca_pubkey recovered) of
             Inl _ \<Rightarrow> False
           | Inr current \<Rightarrow> list_all same_session (zip recovered current))"

definition is_outbox_intent_recoverable :: "session_lookup \<Rightarrow> outbox_intent_bundle \<Rightarrow> bool" where
  "is_outbox_intent_recoverable sessions b =
     (if \<not> is_same_delegation_session sessions b then False
      else let accounts = sib_get_all_committed_accounts (oib_inner b) in
           list_all (\<lambda>(k, i). list_ex (\<lambda>a. ca_pubkey a = k \<and> ca_commit_id a = i) accounts)
             (oib_recovery_commit_nonces b))"

definition retain_recoverable_outbox_intents ::
    "session_lookup \<Rightarrow> outbox_intent_bundle list \<Rightarrow> outbox_intent_bundle list" where
  "retain_recoverable_outbox_intents sessions bundles =
     foldl (\<lambda>acc b. if is_outbox_intent_recoverable sessions b then acc @ [b] else acc) [] bundles"

definition RESCHEDULE_CHUNK_SIZE :: nat where
  "RESCHEDULE_CHUNK_SIZE = 1000"

definition OUTBOX_READER_CAPACITY :: nat where
  "OUTBOX_READER_CAPACITY = 1000"

text \<open>
  The loop of \<^verbatim>\<open>reschedule_intents\<close>. A scheduling error is logged and the loop goes on; fuel
  bounds the iterations, and running out of it is \<open>None\<close>.
\<close>

fun reschedule_loop ::
    "nat \<Rightarrow> session_lookup \<Rightarrow> (unit, outbox_intent_bundle list) result \<Rightarrow> bundles_reader \<Rightarrow> intent_queue \<Rightarrow>
     ((bundles_reader_error, unit) result \<times> intent_queue) option" where
  "reschedule_loop 0 sessions scan r q = None"
| "reschedule_loop (Suc fuel) sessions scan r q =
     (case read_bundles scan RESCHEDULE_CHUNK_SIZE r of
        (Inl e, _) \<Rightarrow> Some (Inl e, q)
      | (Inr chunk, r') \<Rightarrow>
          if chunk = [] then Some (Inr (), q)
          else
            let (q', _) = queue_schedule q (retain_recoverable_outbox_intents sessions chunk)
            in if length chunk \<noteq> RESCHEDULE_CHUNK_SIZE then Some (Inr (), q')
               else reschedule_loop fuel sessions scan r' q')"

definition reschedule_intents ::
    "nat \<Rightarrow> session_lookup \<Rightarrow> (unit, outbox_intent_bundle list) result \<Rightarrow> intent_queue \<Rightarrow>
     ((bundles_reader_error, unit) result \<times> intent_queue) option" where
  "reschedule_intents fuel sessions scan q =
     reschedule_loop fuel sessions scan (new_reader OUTBOX_READER_CAPACITY) q"

section \<open>One first-in first-out queue\<close>

text \<open>
  The contract of a queue whose consumer may see an error in place of an item: \<open>names r i\<close> says
  that the delivery \<open>r\<close> accounts for the item \<open>i\<close>.
\<close>

datatype 'b fifo_op = Put "'b list" | Get

fun fifo_run ::
    "('q \<Rightarrow> 'b list \<Rightarrow> 'q option) \<Rightarrow> ('q \<Rightarrow> ('r \<times> 'q) option) \<Rightarrow> 'q \<Rightarrow> 'b fifo_op list \<Rightarrow>
     'b list \<times> 'r list \<times> 'q" where
  "fifo_run put get q [] = ([], [], q)"
| "fifo_run put get q (Put bs # ops) =
     (case put q bs of
        None \<Rightarrow> fifo_run put get q ops
      | Some q' \<Rightarrow> (let (ins, outs, q'') = fifo_run put get q' ops in (bs @ ins, outs, q'')))"
| "fifo_run put get q (Get # ops) =
     (case get q of
        None \<Rightarrow> fifo_run put get q ops
      | Some (r, q') \<Rightarrow> (let (ins, outs, q'') = fifo_run put get q' ops in (ins, r # outs, q'')))"

locale fifo =
  fixes contents :: "'q \<Rightarrow> 'i list"
    and put :: "'q \<Rightarrow> 'b list \<Rightarrow> 'q option"
    and get :: "'q \<Rightarrow> ('r \<times> 'q) option"
    and ident :: "'b \<Rightarrow> 'i"
    and names :: "'r \<Rightarrow> 'i \<Rightarrow> bool"
  assumes put_appends: "put q bs = Some q' \<Longrightarrow> contents q' = contents q @ map ident bs"
    and get_first: "get q = Some (r, q') \<Longrightarrow> \<exists>i. contents q = i # contents q' \<and> names r i"
    and get_empty: "get q = None \<Longrightarrow> contents q = []"
begin

lemma run_in_order:
  "fifo_run put get q ops = (ins, outs, q') \<Longrightarrow>
     \<exists>is. contents q @ map ident ins = is @ contents q' \<and> list_all2 names outs is"
proof (induction ops arbitrary: q ins outs)
  case Nil
  then show ?case by (intro exI [of _ "[]"]) auto
next
  case (Cons op ops)
  show ?case
  proof (cases op)
    case (Put bs)
    show ?thesis
    proof (cases "put q bs")
      case None
      then show ?thesis using Cons Put by simp
    next
      case (Some q1)
      obtain ins' where run: "fifo_run put get q1 ops = (ins', outs, q')" "ins = bs @ ins'"
        using Cons.prems Put Some by (auto split: prod.splits)
      then show ?thesis using Cons.IH [OF run(1)] put_appends [OF Some] by simp
    qed
  next
    case Get
    show ?thesis
    proof (cases "get q")
      case None
      then show ?thesis using Cons Get by simp
    next
      case (Some rq)
      obtain r q1 where g: "get q = Some (r, q1)" using Some by (cases rq) auto
      obtain outs' where run: "fifo_run put get q1 ops = (ins, outs', q')" "outs = r # outs'"
        using Cons.prems Get g by (auto split: prod.splits)
      obtain i where i: "contents q = i # contents q1" "names r i" using get_first [OF g] by blast
      obtain js where "contents q1 @ map ident ins = js @ contents q'" "list_all2 names outs' js"
        using Cons.IH [OF run(1)] by blast
      then show ?thesis using i run(2) by (intro exI [of _ "i # js"]) simp
    qed
  qed
qed

lemma run_drains:
  "length (contents q) \<le> n \<Longrightarrow> fifo_run put get q (replicate n Get) = (ins, outs, q') \<Longrightarrow>
     contents q' = [] \<and> list_all2 names outs (contents q)"
proof (induction n arbitrary: q outs)
  case 0
  then show ?case by simp
next
  case (Suc n)
  show ?case
  proof (cases "get q")
    case None
    then show ?thesis using Suc.IH [of q outs] Suc.prems get_empty [OF None] by simp
  next
    case (Some rq)
    obtain r q1 where g: "get q = Some (r, q1)" using Some by (cases rq) auto
    obtain outs' where run: "fifo_run put get q1 (replicate n Get) = (ins, outs', q')" "outs = r # outs'"
      using Suc.prems g by (auto split: prod.splits)
    obtain i where i: "contents q = i # contents q1" "names r i" using get_first [OF g] by blast
    then show ?thesis using Suc.IH [OF _ run(1)] Suc.prems(1) run(2) by simp
  qed
qed

end

definition pending_ids :: "intent_queue \<Rightarrow> u64 list" where
  "pending_ids q = map intent_id (ch_buffer (iq_channel q)) @ iq_backlog q"

definition queue_put :: "intent_queue \<Rightarrow> outbox_intent_bundle list \<Rightarrow> intent_queue option" where
  "queue_put q bs = (case queue_schedule q bs of (q', Inr _) \<Rightarrow> Some q' | _ \<Rightarrow> None)"

definition queue_get ::
    "outbox_loader \<Rightarrow> intent_queue \<Rightarrow> ((backlog_error, outbox_intent_bundle) result \<times> intent_queue) option" where
  "queue_get load q = (case poll_next load q of (Ready (Some r), q') \<Rightarrow> Some (r, q') | _ \<Rightarrow> None)"

definition delivers :: "outbox_loader \<Rightarrow> (backlog_error, outbox_intent_bundle) result \<Rightarrow> u64 \<Rightarrow> bool" where
  "delivers load r i \<longleftrightarrow> (\<forall>b. r = Inr b \<longrightarrow> intent_id b = i \<or> load i = Inr (Some (Inr b)))"

lemma try_send_all_ok:
  "try_send_all ch bs = (ch', Inr u) \<Longrightarrow>
     ch_buffer ch' = ch_buffer ch @ bs \<and> ch_receiver_open ch' = ch_receiver_open ch"
  by (induction ch bs rule: try_send_all.induct) (auto simp: try_send_def split: if_splits)

lemma try_send_all_full:
  "try_send_all ch bs = (ch', Inl (TrySend_Full b, rest)) \<Longrightarrow>
     ch_buffer ch' @ b # rest = ch_buffer ch @ bs \<and> ch_receiver_open ch' = ch_receiver_open ch"
  by (induction ch bs rule: try_send_all.induct) (auto simp: try_send_def split: if_splits)

lemma try_send_all_open:
  "ch_receiver_open ch \<Longrightarrow> try_send_all ch bs \<noteq> (ch', Inl (TrySend_Closed b, rest))"
  by (induction ch bs rule: try_send_all.induct) (auto simp: try_send_def)

lemma try_send_all_closed:
  "try_send_all ch bs = (ch', Inl (TrySend_Closed b, rest)) \<Longrightarrow>
     \<not> ch_receiver_open ch \<and> ch' = ch \<and> bs = b # rest"
  using try_send_all_open [of ch bs ch' b rest]
  by (cases bs; cases "ch_receiver_open ch") (simp_all add: try_send_def)

lemma enqueue_ok:
  assumes "enqueue q bs = (q', Inr u)"
  shows "pending_ids q' = pending_ids q @ map intent_id bs"
    "ch_receiver_open (iq_channel q') = ch_receiver_open (iq_channel q)"
proof -
  have "pending_ids q' = pending_ids q @ map intent_id bs
    \<and> ch_receiver_open (iq_channel q') = ch_receiver_open (iq_channel q)"
  proof (cases "iq_backlog q = []")
    case False
    then show ?thesis using assms by (auto simp: enqueue_def pending_ids_def store_intent_bundles_def)
  next
    case True
    obtain ch r where send: "try_send_all (iq_channel q) bs = (ch, r)" by fastforce
    show ?thesis
    proof (cases r)
      case (Inr u')
      then show ?thesis using assms True send try_send_all_ok [of "iq_channel q" bs ch u']
        by (auto simp: enqueue_def pending_ids_def)
    next
      case (Inl er)
      then obtain b rest where full: "r = Inl (TrySend_Full b, rest)"
        using assms True send by (cases er; cases "fst er") (auto simp: enqueue_def)
      have "map intent_id (ch_buffer ch) @ intent_id b # map intent_id rest =
          map intent_id (ch_buffer (iq_channel q)) @ map intent_id bs"
        using try_send_all_full [OF send [unfolded full]] by (metis list.simps(9) map_append)
      then show ?thesis using assms True send full try_send_all_full [OF send [unfolded full]]
        by (auto simp: enqueue_def pending_ids_def store_intent_bundles_def)
    qed
  qed
  then show "pending_ids q' = pending_ids q @ map intent_id bs"
    "ch_receiver_open (iq_channel q') = ch_receiver_open (iq_channel q)" by blast+
qed

lemma enqueue_error:
  assumes "enqueue q bs = (q', Inl e)"
  shows "e = Schedule_ChannelClosed \<and> q' = q \<and> \<not> ch_receiver_open (iq_channel q)"
proof -
  have q: "iq_backlog q = []" using assms by (auto simp: enqueue_def split: if_splits)
  obtain ch r where send: "try_send_all (iq_channel q) bs = (ch, r)" by fastforce
  then obtain b rest where closed: "r = Inl (TrySend_Closed b, rest)" "e = Schedule_ChannelClosed"
      "q' = q\<lparr>iq_channel := ch\<rparr>"
    using assms q by (auto simp: enqueue_def split: sum.splits prod.splits try_send_error.splits)
  then show ?thesis using try_send_all_closed [OF send [unfolded closed(1)]] by simp
qed

lemma pop_intent_bundle_Cons:
  obtains r where "pop_intent_bundle load (i # queue) = (r, queue)" "r \<noteq> Inr None"
    "\<And>b. r = Inr (Some b) \<Longrightarrow> load i = Inr (Some (Inr b))"
  by (rule that [OF pop_intent_bundle.simps(2)])
     (auto simp: rbind_Inr_iff map_err_Inr_iff ok_or_Inr_iff)

lemma poll_next_cases:
  "poll_next load q =
     (case ch_buffer (iq_channel q) of
        b # rest \<Rightarrow> (Ready (Some (Inr b)), q\<lparr>iq_channel := (iq_channel q)\<lparr>ch_buffer := rest\<rparr>\<rparr>)
      | [] \<Rightarrow>
         (case iq_backlog q of
            [] \<Rightarrow> (if ch_sender_open (iq_channel q) then Pending else Ready None, q)
          | i # rest \<Rightarrow>
              (case fst (pop_intent_bundle load (i # rest)) of
                 Inl e \<Rightarrow> (Ready (Some (Inl e)), q\<lparr>iq_backlog := rest\<rparr>)
               | Inr None \<Rightarrow> (Ready None, q\<lparr>iq_backlog := rest\<rparr>)
               | Inr (Some b) \<Rightarrow> (Ready (Some (Inr b)), q\<lparr>iq_backlog := rest\<rparr>))))"
  by (simp add: poll_next_def split: list.split sum.split option.split)

lemma poll_next_item:
  assumes "poll_next load q = (Ready (Some r), q')"
  shows "\<exists>i. pending_ids q = i # pending_ids q' \<and> delivers load r i"
proof (cases "ch_buffer (iq_channel q)")
  case (Cons b rest)
  then show ?thesis using assms by (auto simp: poll_next_cases pending_ids_def delivers_def)
next
  case Nil
  then obtain i rest where backlog: "iq_backlog q = i # rest"
    using assms by (auto simp: poll_next_cases split: list.splits if_splits)
  obtain x where "pop_intent_bundle load (i # rest) = (x, rest)" "x \<noteq> Inr None"
    "\<And>b. x = Inr (Some b) \<Longrightarrow> load i = Inr (Some (Inr b))"
    using pop_intent_bundle_Cons by blast
  then show ?thesis
    using assms Nil backlog
    by (auto simp: poll_next_cases pending_ids_def delivers_def simp del: pop_intent_bundle.simps
        split: sum.splits option.splits)
qed

lemma poll_next_empty:
  assumes "poll_next load q = (p, q')" and "\<forall>r. p \<noteq> Ready (Some r)"
  shows "pending_ids q = []"
proof (cases "ch_buffer (iq_channel q)")
  case (Cons b rest)
  then show ?thesis using assms by (auto simp: poll_next_cases)
next
  case Nil
  show ?thesis
  proof (cases "iq_backlog q")
    case (Cons i rest)
    obtain x where "pop_intent_bundle load (i # rest) = (x, rest)" "x \<noteq> Inr None"
      using pop_intent_bundle_Cons by blast
    then show ?thesis
      using assms \<open>ch_buffer (iq_channel q) = []\<close> Cons
      by (auto simp: poll_next_cases simp del: pop_intent_bundle.simps split: sum.splits option.splits)
  qed (simp add: Nil pending_ids_def)
qed

interpretation intake: fifo pending_ids queue_put "queue_get load" intent_id "delivers load" for load
proof
  fix q bs q'
  assume "queue_put q bs = Some q'"
  then show "pending_ids q' = pending_ids q @ map intent_id bs"
    using enqueue_ok(1) [of q bs q' "()"]
    by (auto simp: queue_put_def queue_schedule_def split: prod.splits sum.splits if_splits)
next
  fix q r q'
  assume "queue_get load q = Some (r, q')"
  then show "\<exists>i. pending_ids q = i # pending_ids q' \<and> delivers load r i"
    using poll_next_item [of load q r q']
    by (auto simp: queue_get_def split: prod.splits poll.splits option.splits)
next
  fix q
  assume "queue_get load q = None"
  then show "pending_ids q = []"
    using poll_next_empty [of load q]
    by (auto simp: queue_get_def split: prod.splits poll.splits option.splits)
qed

section \<open>The reader returns the outbox in id order\<close>

lemma take_insort_key: "take n (insort_key f x (take n xs)) = take n (insort_key f x xs)"
proof (induction xs arbitrary: n)
  case Nil
  then show ?case by simp
next
  case (Cons y ys)
  then show ?case by (cases n) (auto simp: take_Cons' min_def)
qed

lemma heap_step_take:
  assumes "length heap \<le> capacity"
  shows "heap_step capacity heap b = take capacity (insort_key intent_id b heap)"
  using assms
  by (cases "capacity = length heap") (auto simp: heap_step_def Let_def butlast_conv_take)

lemma heap_fold:
  "foldl (heap_step n) (take n h) xs = take n (foldl (\<lambda>h b. insort_key intent_id b h) h xs)"
  by (induction xs arbitrary: h) (simp_all add: heap_step_take take_insort_key)

lemma insort_fold_sort:
  assumes "distinct (map intent_id xs)"
  shows "foldl (\<lambda>h b. insort_key intent_id b h) [] xs = sort_key intent_id xs"
proof -
  have gen: "mset (foldl (\<lambda>h b. insort_key intent_id b h) h xs) = mset h + mset xs
      \<and> (sorted (map intent_id h) \<longrightarrow> sorted (map intent_id (foldl (\<lambda>h b. insort_key intent_id b h) h xs)))"
    for h xs
    by (induction xs arbitrary: h) (auto simp: sorted_insort_key)
  show ?thesis
    using gen [of "[]" xs] assms
    by (intro sort_key_inj_key_eq [symmetric]) (auto simp: distinct_map)
qed

lemma refill_items:
  assumes "distinct (map intent_id scan)"
  shows "sort_key intent_id (foldl (heap_step n) [] (filter P scan)) =
    take n (filter P (sort_key intent_id scan))"
proof -
  have "distinct (map intent_id (filter P scan))" using assms by (simp add: distinct_map_filter)
  then have "foldl (heap_step n) [] (filter P scan) = take n (filter P (sort_key intent_id scan))"
    using heap_fold [of n "[]" "filter P scan"] by (simp add: insort_fold_sort filter_sort)
  moreover have "sorted (map intent_id (take n (filter P (sort_key intent_id scan))))"
    by (simp add: take_map [symmetric] sorted_wrt_take sorted_filter)
  ultimately show ?thesis by (simp add: sort_key_id_if_sorted)
qed

definition unread :: "outbox_intent_bundle list \<Rightarrow> bundles_reader \<Rightarrow> outbox_intent_bundle list" where
  "unread scan r = br_buffer r @ filter (unconsumed (br_last_consumed_id r)) (sort_key intent_id scan)"

lemma strict_sorted_after:
  fixes f :: "'a \<Rightarrow> 'b::linorder"
  assumes "sorted_wrt (<) (map f xs)" and "0 < n" and "xs \<noteq> []"
  shows "filter (\<lambda>x. f (last (take n xs)) < f x) xs = drop n xs"
  using assms
proof (induction xs arbitrary: n)
  case Nil
  then show ?case by simp
next
  case (Cons y ys)
  obtain m where n: "n = Suc m" using Cons.prems(2) by (cases n) auto
  have gt: "\<forall>x \<in> set ys. f y < f x" using Cons.prems(1) by simp
  show ?case
  proof (cases "m = 0 \<or> ys = []")
    case True
    then show ?thesis using n gt by (auto simp: filter_id_conv)
  next
    case False
    then have ne: "take m ys \<noteq> []" by simp
    then have lt: "f y < f (last (take m ys))"
      using gt last_in_set [OF ne] set_take_subset [of m ys] by blast
    have "filter (\<lambda>x. f (last (take m ys)) < f x) ys = drop m ys"
      using Cons False by simp
    then show ?thesis using n ne lt by simp
  qed
qed

lemma sort_key_strict:
  assumes "distinct (map intent_id scan)"
  shows "sorted_wrt (<) (map intent_id (sort_key intent_id scan))"
proof -
  have "distinct (map intent_id (sort_key intent_id scan))"
    using assms by (metis distinct_map distinct_sort set_sort)
  then show ?thesis by (simp add: strict_sorted_iff)
qed

lemma sorted_map_filter: "sorted_wrt R (map f xs) \<Longrightarrow> sorted_wrt R (map f (filter P xs))"
  by (induction xs) auto

lemma unread_refill:
  assumes dist: "distinct (map intent_id scan)" and cap: "0 < br_capacity r"
  shows "unread scan (refill scan r) = unread scan r"
    "br_buffer (refill scan r) = take (length (br_buffer r) + br_capacity r) (unread scan r)"
    "br_capacity (refill scan r) = br_capacity r"
proof -
  let ?S = "sort_key intent_id scan" and ?n = "br_capacity r"
  let ?U = "filter (unconsumed (br_last_consumed_id r)) ?S"
  have items: "refill scan r = r\<lparr>br_last_consumed_id := (if take ?n ?U = [] then br_last_consumed_id r
      else Some (intent_id (last (take ?n ?U)))), br_buffer := br_buffer r @ take ?n ?U\<rparr>"
    by (simp add: refill_def refill_items [OF dist] Let_def)
  show "br_buffer (refill scan r) = take (length (br_buffer r) + ?n) (unread scan r)"
    "br_capacity (refill scan r) = ?n"
    by (simp_all add: items unread_def)
  show "unread scan (refill scan r) = unread scan r"
  proof (cases "?U = []")
    case True
    then show ?thesis by (simp add: items unread_def)
  next
    case False
    let ?l = "intent_id (last (take ?n ?U))"
    have strict: "sorted_wrt (<) (map intent_id ?U)"
      by (rule sorted_map_filter [OF sort_key_strict [OF dist]])
    have "take ?n ?U \<noteq> []" using False cap by simp
    then have "last (take ?n ?U) \<in> set ?U"
      using last_in_set set_take_subset [of ?n ?U] by blast
    then have "unconsumed (br_last_consumed_id r) (last (take ?n ?U))" by simp
    then have "filter (unconsumed (Some ?l)) ?S = filter (unconsumed (Some ?l)) ?U"
      by (auto simp: unconsumed_def intro!: filter_cong split: option.splits)
    also have "\<dots> = drop ?n ?U"
      using strict_sorted_after [OF strict cap False] by (simp add: unconsumed_def)
    finally show ?thesis using False cap by (simp add: items unread_def)
  qed
qed

lemma read_bundles_spec:
  assumes dist: "distinct (map intent_id scan)" and n: "0 < n" "n \<le> br_capacity r"
  shows "\<exists>r'. read_bundles (Inr scan) n r = (Inr (take n (unread scan r)), r')
    \<and> unread scan r' = drop n (unread scan r) \<and> br_capacity r' = br_capacity r"
proof (cases "length (br_buffer r) < n")
  case False
  then show ?thesis using n by (auto simp: read_bundles_def Let_def unread_def)
next
  case True
  have cap: "0 < br_capacity r" using n by simp
  define r1 where "r1 = refill scan r"
  note u = unread_refill [OF dist cap, folded r1_def]
  have buf: "take n (br_buffer r1) = take n (unread scan r)"
    using n by (simp add: u(2) min_def)
  have split: "unread scan r = br_buffer r1 @ filter (unconsumed (br_last_consumed_id r1)) (sort_key intent_id scan)"
    using u(1) by (simp add: unread_def [of scan r1])
  have "drop n (unread scan r) = drop n (br_buffer r1) @ filter (unconsumed (br_last_consumed_id r1)) (sort_key intent_id scan)"
  proof (cases "n \<le> length (br_buffer r1)")
    case True
    then show ?thesis by (subst split) simp
  next
    case False
    then have "length (unread scan r) \<le> length (br_buffer r) + br_capacity r"
      using u(2) n by simp
    then have "br_buffer r1 = unread scan r" using u(2) by simp
    then show ?thesis using split False by simp
  qed
  moreover have "read_bundles (Inr scan) n r =
      (Inr (take n (br_buffer r1)), r1\<lparr>br_buffer := drop n (br_buffer r1)\<rparr>)"
    using n True by (simp add: read_bundles_def Let_def r1_def min_def)
  ultimately show ?thesis using buf u(3) by (simp add: unread_def)
qed

fun read_times ::
    "nat \<Rightarrow> outbox_intent_bundle list \<Rightarrow> nat \<Rightarrow> bundles_reader \<Rightarrow>
     (bundles_reader_error, outbox_intent_bundle list list) result" where
  "read_times 0 scan n r = Inr []"
| "read_times (Suc k) scan n r =
     (case read_bundles (Inr scan) n r of
        (Inl e, _) \<Rightarrow> Inl e
      | (Inr chunk, r') \<Rightarrow> rbind (read_times k scan n r') (\<lambda>chunks. Inr (chunk # chunks)))"

lemma read_times_spec:
  assumes "distinct (map intent_id scan)" and "0 < n"
  shows "n \<le> br_capacity r \<Longrightarrow>
    \<exists>chunks. read_times k scan n r = Inr chunks \<and> concat chunks = take (k * n) (unread scan r)"
proof (induction k arbitrary: r)
  case 0
  then show ?case by simp
next
  case (Suc k)
  obtain r' where r': "read_bundles (Inr scan) n r = (Inr (take n (unread scan r)), r')"
    "unread scan r' = drop n (unread scan r)" "br_capacity r' = br_capacity r"
    using read_bundles_spec [OF assms Suc.prems] by blast
  then obtain chunks where "read_times k scan n r' = Inr chunks"
    "concat chunks = take (k * n) (drop n (unread scan r))"
    using Suc.IH [of r'] Suc.prems by auto
  then show ?case using r' by (simp add: take_add [symmetric])
qed

lemma unread_new: "unread scan (new_reader capacity) = sort_key intent_id scan"
  by (simp add: unread_def new_reader_def unconsumed_def)

section \<open>Recovery\<close>

lemma retain_recoverable_filter:
  "retain_recoverable_outbox_intents sessions bs = filter (is_outbox_intent_recoverable sessions) bs"
proof -
  have "foldl (\<lambda>acc b. if is_outbox_intent_recoverable sessions b then acc @ [b] else acc) acc bs =
      acc @ filter (is_outbox_intent_recoverable sessions) bs" for acc
    by (induction bs arbitrary: acc) auto
  then show ?thesis by (simp add: retain_recoverable_outbox_intents_def)
qed

lemma queue_schedule_open:
  assumes "ch_receiver_open (iq_channel q)"
  shows "\<exists>q'. queue_schedule q bs = (q', Inr ()) \<and> ch_receiver_open (iq_channel q')
    \<and> pending_ids q' = pending_ids q @ map intent_id bs"
proof (cases "bs = []")
  case True
  then show ?thesis using assms by (simp add: queue_schedule_def)
next
  case False
  obtain q' r where e: "enqueue q bs = (q', r)" by fastforce
  then obtain u where r: "r = Inr u" using enqueue_error [of q bs q'] assms by (cases r) auto
  show ?thesis using False assms e enqueue_ok [OF e [unfolded r]] r by (simp add: queue_schedule_def)
qed

lemma reschedule_loop_spec:
  assumes dist: "distinct (map intent_id scan)"
  shows "length (unread scan r) < fuel \<Longrightarrow> br_capacity r = OUTBOX_READER_CAPACITY \<Longrightarrow>
    ch_receiver_open (iq_channel q) \<Longrightarrow>
    \<exists>q'. reschedule_loop fuel sessions (Inr scan) r q = Some (Inr (), q')
      \<and> pending_ids q' =
          pending_ids q @ map intent_id (filter (is_outbox_intent_recoverable sessions) (unread scan r))"
proof (induction fuel arbitrary: r q)
  case 0
  then show ?case by simp
next
  case (Suc fuel)
  let ?n = RESCHEDULE_CHUNK_SIZE and ?U = "unread scan r"
  have n: "0 < ?n" "?n \<le> br_capacity r"
    using Suc.prems by (simp_all add: RESCHEDULE_CHUNK_SIZE_def OUTBOX_READER_CAPACITY_def)
  obtain r' where r': "read_bundles (Inr scan) ?n r = (Inr (take ?n ?U), r')"
    "unread scan r' = drop ?n ?U" "br_capacity r' = br_capacity r"
    using read_bundles_spec [OF dist n] by blast
  obtain q1 where q1: "queue_schedule q (filter (is_outbox_intent_recoverable sessions) (take ?n ?U)) = (q1, Inr ())"
    "ch_receiver_open (iq_channel q1)"
    "pending_ids q1 = pending_ids q @ map intent_id (filter (is_outbox_intent_recoverable sessions) (take ?n ?U))"
    using queue_schedule_open [OF Suc.prems(3)] by blast
  show ?case
  proof (cases "length ?U < ?n")
    case True
    then show ?thesis using r' q1 n(1) by (simp add: retain_recoverable_filter)
  next
    case False
    then have ne: "?U \<noteq> []" using n(1) by auto
    have "length (unread scan r') < fuel" using False n(1) Suc.prems(1) r'(2) by simp
    then obtain q' where "reschedule_loop fuel sessions (Inr scan) r' q1 = Some (Inr (), q')"
      "pending_ids q' = pending_ids q1 @
         map intent_id (filter (is_outbox_intent_recoverable sessions) (drop ?n ?U))"
      using Suc.IH [of r' q1] Suc.prems(2) r'(2,3) q1(2) by auto
    moreover have "filter (is_outbox_intent_recoverable sessions) ?U =
        filter (is_outbox_intent_recoverable sessions) (take ?n ?U) @
        filter (is_outbox_intent_recoverable sessions) (drop ?n ?U)"
      by (metis append_take_drop_id filter_append)
    ultimately show ?thesis
      using r' q1 n(1) ne False by (simp add: retain_recoverable_filter)
  qed
qed

section \<open>Properties\<close>

text \<open>
  Claim C20. The channel and the backlog behind it are one first-in first-out queue: for every
  sequence of scheduling calls and polls of the stream, the ids handed to the worker, in order,
  followed by the ids still queued, are the ids queued at the start followed by the ids of
  every accepted batch. A polled id whose outbox account cannot be read shows up as an error
  in its own place, never as another intent.
\<close>

theorem intake_is_fifo:
  assumes "fifo_run queue_put (queue_get load) q ops = (ins, outs, q')"
  shows "\<exists>ids. pending_ids q @ map intent_id ins = ids @ pending_ids q' \<and> list_all2 (delivers load) outs ids"
  using assms by (rule intake.run_in_order)

theorem intake_is_fifo_witness:
  "let b1 = example_bundle 1 [10]; b2 = example_bundle 2 [10];
       load = (\<lambda>i. if i = 2 then Inr (Some (Inr b2)) else Inr None);
       q = \<lparr>iq_backlog = [], iq_channel = \<lparr>ch_buffer = [], ch_capacity = 1,
              ch_receiver_open = True, ch_sender_open = True\<rparr>\<rparr>
   in \<exists>outs q' ids. fifo_run queue_put (queue_get load) q [Put [b1, b2], Get, Get] = ([b1, b2], outs, q')
        \<and> [1, 2] = ids @ pending_ids q' \<and> list_all2 (delivers load) outs ids"
proof -
  let ?b1 = "example_bundle 1 [10]" and ?b2 = "example_bundle 2 [10]"
  let ?load = "\<lambda>i :: u64. if i = 2 then Inr (Some (Inr ?b2)) else Inr None"
  let ?ch = "\<lparr>ch_buffer = [], ch_capacity = 1, ch_receiver_open = True, ch_sender_open = True\<rparr>"
  let ?q = "\<lparr>iq_backlog = [], iq_channel = ?ch\<rparr>"
  have "fifo_run queue_put (queue_get ?load) ?q [Put [?b1, ?b2], Get, Get] =
      ([?b1, ?b2], [Inr ?b1, Inr ?b2], ?q)"
    by (simp add: queue_put_def queue_get_def queue_schedule_def enqueue_def try_send_def
        store_intent_bundles_def poll_next_def)
  from this intake_is_fifo [OF this] show ?thesis
    by (simp add: Let_def pending_ids_def)
qed

text \<open>
  Claim C21. Reading an outbox whose records have distinct ids, in chunks that fit the reader's
  buffer, never fails, and the first \<open>k\<close> chunks are the first records of the outbox in ascending
  id order, none skipped and none repeated.
\<close>

theorem outbox_read_in_order:
  assumes "distinct (map intent_id scan)" and "0 < n" and "n \<le> capacity"
  shows "\<exists>chunks. read_times k scan n (new_reader capacity) = Inr chunks
    \<and> concat chunks = take (k * n) (sort_key intent_id scan)"
  using read_times_spec [OF assms(1,2), of "new_reader capacity" k] assms(3)
  by (simp add: unread_new) (simp add: new_reader_def)

theorem outbox_read_in_order_witness:
  "\<exists>chunks. read_times 2 [example_bundle 9 [], example_bundle 1 [], example_bundle 4 []] 1 (new_reader 2) =
     Inr chunks \<and> map intent_id (concat chunks) = [1, 4]"
proof -
  let ?scan = "[example_bundle 9 [], example_bundle 1 [], example_bundle 4 []]"
  have "distinct (map intent_id ?scan)" by simp
  from outbox_read_in_order [OF this, of 1 2 2]
  obtain chunks where c: "read_times 2 ?scan 1 (new_reader 2) = Inr chunks"
    "concat chunks = take (2 * 1) (sort_key intent_id ?scan)" by auto
  have "map intent_id (concat chunks) = [1, 4]" unfolding c(2) by (simp add: word_le_nat_alt)
  with c(1) show ?thesis by (intro exI [of _ chunks] conjI)
qed

text \<open>
  Claim C22. Recovery after a restart returns, and it queues exactly the recoverable records of
  the outbox, in ascending id order, behind what was queued before; one iteration more than
  the outbox has records is enough fuel.
\<close>

theorem recovery_queues_in_order:
  assumes "distinct (map intent_id scan)" and "ch_receiver_open (iq_channel q)"
    and "length scan < fuel"
  shows "\<exists>q'. reschedule_intents fuel sessions (Inr scan) q = Some (Inr (), q')
    \<and> pending_ids q' = pending_ids q @
        map intent_id (filter (is_outbox_intent_recoverable sessions) (sort_key intent_id scan))"
  using reschedule_loop_spec [OF assms(1), of "new_reader OUTBOX_READER_CAPACITY" fuel q sessions] assms
  by (simp add: unread_new reschedule_intents_def) (simp add: new_reader_def)

theorem recovery_queues_in_order_witness:
  "let scan = [example_bundle 9 [], example_bundle 1 []];
       q = \<lparr>iq_backlog = [3], iq_channel = \<lparr>ch_buffer = [], ch_capacity = 1000,
              ch_receiver_open = True, ch_sender_open = True\<rparr>\<rparr>
   in \<exists>q'. reschedule_intents 3 (\<lambda>_. Inl ()) (Inr scan) q = Some (Inr (), q') \<and> pending_ids q' = [3, 1, 9]"
proof -
  let ?scan = "[example_bundle 9 [], example_bundle 1 []]"
  let ?q = "\<lparr>iq_backlog = [3], iq_channel = \<lparr>ch_buffer = [], ch_capacity = 1000,
    ch_receiver_open = True, ch_sender_open = True\<rparr>\<rparr>"
  have rec: "is_outbox_intent_recoverable (\<lambda>_. Inl ()) (example_bundle i [])" for i
    by (simp add: is_outbox_intent_recoverable_def is_same_delegation_session_def example_bundle_def
        accepted_def sib_get_all_committed_accounts_def bundle_account_defs default_bundle_def)
  have "distinct (map intent_id ?scan)" by simp
  from recovery_queues_in_order [OF this, of ?q 3 "\<lambda>_. Inl ()"] show ?thesis
    by (simp add: rec pending_ids_def word_le_nat_alt)
qed

end
