(* ===== verification/Task_Model.thy ===== *)
theory Task_Model
  imports Outbox_Model "HOL-Library.Multiset" "HOL-Library.Product_Lexorder"
begin

text \<open>
  Settlement tasks: \<^verbatim>\<open>committor/src/shared/tasks\<close> (the tasks, how a commit's data is delivered,
  the strategist that fits tasks into transactions) and \<^verbatim>\<open>committor/src/execution/task_builder.rs\<close>
  (an intent's tasks). Message assembly and the delegation program's instruction builders are
  third-party code; what the strategist needs of them is the parameter \<open>wire\<close>.
\<close>

section \<open>Tasks\<close>

datatype commit_delivery =
    StateInArgs
  | StateInBuffer
  | DiffInArgs account
  | DiffInBuffer account

record commit_finalize_task =
  cft_commit_id :: u64
  cft_allow_undelegation :: bool
  cft_committed_account :: committed_account
  cft_delivery :: commit_delivery

record undelegate_task =
  ud_delegated_account :: pubkey
  ud_owner_program :: pubkey
  ud_rent_reimbursement :: pubkey
  ud_include_undelegation_request :: bool

datatype base_action_task =
    BaseActionV1 base_action
  | BaseActionV2 base_action pubkey

datatype task =
    Task_CommitFinalize commit_finalize_task
  | Task_Undelegate undelegate_task
  | Task_BaseAction base_action_task

fun is_buffer :: "commit_delivery \<Rightarrow> bool" where
  "is_buffer StateInArgs = False"
| "is_buffer (DiffInArgs _) = False"
| "is_buffer StateInBuffer = True"
| "is_buffer (DiffInBuffer _) = True"

definition cft_is_buffer :: "commit_finalize_task \<Rightarrow> bool" where
  "cft_is_buffer t = is_buffer (cft_delivery t)"

definition cft_try_use_buffer :: "commit_finalize_task \<Rightarrow> bool \<times> commit_finalize_task" where
  "cft_try_use_buffer t =
     (case cft_delivery t of
        StateInArgs \<Rightarrow> (True, t\<lparr>cft_delivery := StateInBuffer\<rparr>)
      | DiffInArgs base \<Rightarrow> (True, t\<lparr>cft_delivery := DiffInBuffer base\<rparr>)
      | StateInBuffer \<Rightarrow> (False, t)
      | DiffInBuffer base \<Rightarrow> (False, t))"

fun try_use_buffer :: "task \<Rightarrow> bool \<times> task" where
  "try_use_buffer (Task_CommitFinalize t) =
     (let (changed, t') = cft_try_use_buffer t in (changed, Task_CommitFinalize t'))"
| "try_use_buffer t = (False, t)"

fun bat_action :: "base_action_task \<Rightarrow> base_action" where
  "bat_action (BaseActionV1 a) = a"
| "bat_action (BaseActionV2 a _) = a"

fun bat_set_action :: "base_action \<Rightarrow> base_action_task \<Rightarrow> base_action_task" where
  "bat_set_action a (BaseActionV1 _) = BaseActionV1 a"
| "bat_set_action a (BaseActionV2 _ src) = BaseActionV2 a src"

fun task_compute_units :: "task \<Rightarrow> u32" where
  "task_compute_units (Task_CommitFinalize _) = 120000"
| "task_compute_units (Task_BaseAction t) = act_compute_units (bat_action t)"
| "task_compute_units (Task_Undelegate _) = 120000"

text \<open>
  \<^verbatim>\<open>extract_callback\<close> takes the callback out of the action even when its destination is then
  refused.
\<close>

definition bat_extract_callback ::
    "base_action_task \<Rightarrow> base_action_callback option \<times> base_action_task" where
  "bat_extract_callback t =
     (let action = bat_action t in
      case act_callback action of
        None \<Rightarrow> (None, t)
      | Some callback \<Rightarrow>
          let action' = action\<lparr>act_callback := None\<rparr>; t' = bat_set_action action' t in
          case validate_callback_destination action' (cb_destination_program callback) of
            Inl _ \<Rightarrow> (None, t')
          | Inr _ \<Rightarrow> (Some callback, t'))"

definition bat_has_callback :: "base_action_task \<Rightarrow> bool" where
  "bat_has_callback t = (act_callback (bat_action t) \<noteq> None)"

section \<open>Building tasks\<close>

definition COMMIT_STATE_SIZE_THRESHOLD :: nat where
  "COMMIT_STATE_SIZE_THRESHOLD = 256"

definition create_action_tasks :: "base_action list \<Rightarrow> task list" where
  "create_action_tasks actions =
     map (\<lambda>action. Task_BaseAction
       (case act_source_program action of
          Some source_program \<Rightarrow> BaseActionV2 action source_program
        | None \<Rightarrow> BaseActionV1 action)) actions"

definition delivery_for :: "committed_account \<Rightarrow> account option \<Rightarrow> commit_delivery" where
  "delivery_for acc base_account =
     (case (if length (acc_data (ca_account acc)) > COMMIT_STATE_SIZE_THRESHOLD
            then base_account else None) of
        Some base \<Rightarrow> DiffInArgs base
      | None \<Rightarrow> StateInArgs)"

definition create_commit_finalize_task ::
    "u64 \<Rightarrow> bool \<Rightarrow> committed_account \<Rightarrow> account option \<Rightarrow> commit_finalize_task" where
  "create_commit_finalize_task i allow acc base_account =
     \<lparr>cft_commit_id = i, cft_allow_undelegation = allow, cft_committed_account = acc,
      cft_delivery = delivery_for acc base_account\<rparr>"

text \<open>\<^verbatim>\<open>build_commit_tasks\<close> takes the base accounts it uses out of the map.\<close>

fun build_commit_tasks_of ::
    "bool \<Rightarrow> committed_account list \<Rightarrow> (pubkey, account) hashmap \<Rightarrow>
     task list \<times> (pubkey, account) hashmap" where
  "build_commit_tasks_of allow [] base_accounts = ([], base_accounts)"
| "build_commit_tasks_of allow (a # as) base_accounts =
     (let base = hm_get base_accounts (ca_pubkey a);
          t = Task_CommitFinalize (create_commit_finalize_task (ca_commit_id a) allow a base);
          (ts, base_accounts') = build_commit_tasks_of allow as (hm_remove (ca_pubkey a) base_accounts)
      in (t # ts, base_accounts'))"

definition build_commit_tasks ::
    "commit_type \<Rightarrow> bool \<Rightarrow> (pubkey, account) hashmap \<Rightarrow> task list \<times> (pubkey, account) hashmap" where
  "build_commit_tasks commit allow base_accounts =
     build_commit_tasks_of allow (ct_get_committed_accounts commit) base_accounts"

datatype undelegation_requester = OwnerProgram | Requester_Other

record delegation_metadata =
  dm_rent_payer :: pubkey
  dm_undelegation_requester :: undelegation_requester

datatype 'e task_builder_error =
    CommitTasksBuildError 'e
  | FollowUpTasksBuildError 'e
  | MissingDelegationMetadata pubkey

text \<open>\<open>provider\<close> stands for \<^verbatim>\<open>TaskInfoProvider\<close>, which fetches base-layer accounts.\<close>

record 'e task_info_provider =
  fetch_delegation_metadata ::
    "(pubkey \<times> u64) list \<Rightarrow> u64 \<Rightarrow> ('e, (pubkey, delegation_metadata) hashmap) result"
  get_base_accounts :: "pubkey list \<Rightarrow> u64 \<Rightarrow> ('e, (pubkey, account) hashmap) result"

definition max_remote_slot :: "committed_account list \<Rightarrow> u64" where
  "max_remote_slot accounts = foldr max (map ca_remote_slot accounts) 0"

definition fetch_commit_inputs ::
    "'e task_info_provider \<Rightarrow> scheduled_intent_bundle \<Rightarrow>
     ('e task_builder_error, (pubkey, account) hashmap) result" where
  "fetch_commit_inputs provider b =
     (let all_accounts = sib_get_all_committed_accounts b;
          min_context_slot = max_remote_slot all_accounts;
          committed_accounts = map (\<lambda>a. (ca_pubkey a, ca_remote_slot a)) all_accounts;
          diffable = map ca_pubkey
            (filter (\<lambda>a. length (acc_data (ca_account a)) > COMMIT_STATE_SIZE_THRESHOLD) all_accounts);
          metadata = fetch_delegation_metadata provider committed_accounts min_context_slot;
          base_accounts = get_base_accounts provider diffable min_context_slot
      in rbind (map_err CommitTasksBuildError metadata) (\<lambda>_.
         Inr (case base_accounts of Inl _ \<Rightarrow> [] | Inr m \<Rightarrow> m)))"

fun ct_base_actions :: "commit_type \<Rightarrow> base_action list" where
  "ct_base_actions (Commit_Standalone _) = []"
| "ct_base_actions (Commit_WithBaseActions _ base_actions) = base_actions"

text \<open>
  \<open>opt_tasks\<close> is \<^verbatim>\<open>if let Some(ref value) = group { tasks.extend(...) }\<close> with the map of base
  accounts threaded through.
\<close>

fun opt_tasks ::
    "('a \<Rightarrow> (pubkey, account) hashmap \<Rightarrow> task list \<times> (pubkey, account) hashmap) \<Rightarrow> 'a option \<Rightarrow>
     task list \<times> (pubkey, account) hashmap \<Rightarrow> task list \<times> (pubkey, account) hashmap" where
  "opt_tasks f None (tasks, m) = (tasks, m)"
| "opt_tasks f (Some v) (tasks, m) = (let (ts, m') = f v m in (tasks @ ts, m'))"

definition commit_tasks ::
    "'e task_info_provider \<Rightarrow> scheduled_intent_bundle \<Rightarrow> ('e task_builder_error, task list) result" where
  "commit_tasks provider b =
     (let bundle = sib_intent_bundle b;
          tasks = create_action_tasks (mib_standalone_actions bundle)
      in rbind (fetch_commit_inputs provider b) (\<lambda>base_accounts.
         Inr (fst
           (opt_tasks (\<lambda>v m. let (ts, m') = build_commit_tasks (commit_action v) True m
                in (ts @ create_action_tasks (ct_base_actions (commit_action v)), m'))
              (mib_commit_finalize_and_undelegate bundle)
           (opt_tasks (\<lambda>v m. build_commit_tasks (commit_action v) True m)
              (mib_commit_and_undelegate bundle)
           (opt_tasks (\<lambda>v m. let (ts, m') = build_commit_tasks v False m
                in (ts @ create_action_tasks (ct_base_actions v), m'))
              (mib_commit_finalize bundle)
           (opt_tasks (\<lambda>v m. build_commit_tasks v False m)
              (mib_commit bundle) (tasks, base_accounts))))))))"

definition get_follow_up_metadata_accounts :: "scheduled_intent_bundle \<Rightarrow> (pubkey \<times> u64) list" where
  "get_follow_up_metadata_accounts b =
     map (\<lambda>a. (ca_pubkey a, ca_remote_slot a))
       (flatten_options [get_undelegate_intent_accounts (sib_intent_bundle b),
          get_commit_finalize_and_undelegate_intent_accounts (sib_intent_bundle b)])"

definition undelegate_task_for :: "committed_account \<Rightarrow> pubkey \<Rightarrow> bool \<Rightarrow> task" where
  "undelegate_task_for a rent_reimbursement include_request =
     Task_Undelegate \<lparr>ud_delegated_account = ca_pubkey a, ud_owner_program = acc_owner (ca_account a),
       ud_rent_reimbursement = rent_reimbursement,
       ud_include_undelegation_request = include_request\<rparr>"

definition delegation_metadata_for_pubkey ::
    "pubkey \<Rightarrow> (pubkey, delegation_metadata) hashmap \<Rightarrow> ('e task_builder_error, delegation_metadata) result" where
  "delegation_metadata_for_pubkey k m = ok_or (hm_get m k) (MissingDelegationMetadata k)"

definition create_follow_up_tasks :: "commit_type \<Rightarrow> task list" where
  "create_follow_up_tasks commit =
     (case commit of
        Commit_Standalone _ \<Rightarrow> []
      | Commit_WithBaseActions _ base_actions \<Rightarrow> create_action_tasks base_actions)"

fun undelegate_tasks_of ::
    "(pubkey, delegation_metadata) hashmap \<Rightarrow> committed_account list \<Rightarrow>
     ('e task_builder_error, task list) result" where
  "undelegate_tasks_of m [] = Inr []"
| "undelegate_tasks_of m (a # as) =
     rbind (delegation_metadata_for_pubkey (ca_pubkey a) m) (\<lambda>metadata.
     rbind (undelegate_tasks_of m as) (\<lambda>ts.
     Inr (undelegate_task_for a (dm_rent_payer metadata)
            (dm_undelegation_requester metadata = OwnerProgram) # ts)))"

definition create_undelegate_tasks ::
    "commit_and_undelegate \<Rightarrow> (pubkey, delegation_metadata) hashmap \<Rightarrow>
     ('e task_builder_error, task list) result" where
  "create_undelegate_tasks v m =
     rbind (undelegate_tasks_of m (cau_get_committed_accounts v)) (\<lambda>tasks.
     Inr (case undelegate_action v of
            Undelegate_WithBaseActions actions \<Rightarrow> tasks @ create_action_tasks actions
          | Undelegate_Standalone \<Rightarrow> tasks))"

definition follow_up_tasks ::
    "'e task_info_provider \<Rightarrow> scheduled_intent_bundle \<Rightarrow> ('e task_builder_error, task list) result" where
  "follow_up_tasks provider b =
     (let bundle = sib_intent_bundle b;
          metadata_accounts = get_follow_up_metadata_accounts b;
          min_context_slot = max_remote_slot (sib_get_all_committed_accounts b)
      in rbind (map_err FollowUpTasksBuildError
                 (fetch_delegation_metadata provider metadata_accounts min_context_slot)) (\<lambda>metadata.
         let tasks = (case mib_commit bundle of None \<Rightarrow> [] | Some v \<Rightarrow> create_follow_up_tasks v) in
         rbind (case mib_commit_and_undelegate bundle of
                  None \<Rightarrow> Inr tasks
                | Some v \<Rightarrow> rbind (create_undelegate_tasks v metadata) (\<lambda>ts.
                    Inr (tasks @ create_follow_up_tasks (commit_action v) @ ts))) (\<lambda>tasks.
         case mib_commit_finalize_and_undelegate bundle of
           None \<Rightarrow> Inr tasks
         | Some v \<Rightarrow> rbind (create_undelegate_tasks v metadata) (\<lambda>ts. Inr (tasks @ ts)))))"

section \<open>Fitting tasks into transactions\<close>

datatype task_strategist_error = Strategist_FailedToFit | Strategist_Compile | Strategist_Signer

text \<open>
  What the strategist uses of transaction assembly: the serialized size of the signed v1
  transaction for tasks and nonce, of the v0 transaction with the given lookup keys, the size
  of one task's instruction, the accounts it names, and the two wire limits.
\<close>

record wire =
  v1_size :: "task list \<Rightarrow> u64 option \<Rightarrow> (task_strategist_error, nat) result"
  v0_size :: "task list \<Rightarrow> pubkey list \<Rightarrow> u64 option \<Rightarrow> (task_strategist_error, nat) result"
  instruction_size :: "task \<Rightarrow> nat"
  involved_accounts :: "pubkey \<Rightarrow> task \<Rightarrow> pubkey list"
  placeholder_key :: pubkey
  MAX_TRANSACTION_V1_WIRE_SIZE :: nat
  MAX_TRANSACTION_WIRE_SIZE :: nat

record transaction_strategy =
  ts_tasks :: "task list"
  ts_lookup_tables_keys :: "pubkey list"
  ts_uniqueness_nonce :: "u64 option"

record transaction_plan =
  tp_current :: transaction_strategy
  tp_follow_up :: "transaction_strategy option"

definition UNIQUENESS_NOOP_COMPUTE_UNITS :: u32 where
  "UNIQUENESS_NOOP_COMPUTE_UNITS = 1000"

definition COMPUTE_BUDGET_INSTRUCTION_COUNT :: u8 where
  "COMPUTE_BUDGET_INSTRUCTION_COUNT = 2"

definition MAX_COMPUTE_UNITS :: u32 where
  "MAX_COMPUTE_UNITS = 1400000"

definition MAX_UNITED_TASKS_LEN :: nat where
  "MAX_UNITED_TASKS_LEN = 22"

definition USIZE_MAX :: nat where
  "USIZE_MAX = 2 ^ 64 - 1"

definition tasks_compute_units :: "task list \<Rightarrow> u64 option \<Rightarrow> u32" where
  "tasks_compute_units tasks nonce =
     foldl (\<lambda>total t. saturating_add total (task_compute_units t))
       (case nonce of None \<Rightarrow> 0 | Some _ \<Rightarrow> UNIQUENESS_NOOP_COMPUTE_UNITS) tasks"

text \<open>The keys are collected in a hash set; its iteration order is unspecified and not used.\<close>

definition collect_lookup_table_keys :: "wire \<Rightarrow> pubkey \<Rightarrow> task list \<Rightarrow> pubkey list" where
  "collect_lookup_table_keys W authority tasks =
     remdups (concat (map (involved_accounts W authority) tasks))"

definition uses_alts :: "transaction_strategy \<Rightarrow> bool" where
  "uses_alts s = (ts_lookup_tables_keys s \<noteq> [])"

definition task_instruction_offset :: "transaction_strategy \<Rightarrow> u8" where
  "task_instruction_offset s = (if uses_alts s then COMPUTE_BUDGET_INSTRUCTION_COUNT else 0)"

definition refresh_lookup_table_keys :: "wire \<Rightarrow> pubkey \<Rightarrow> transaction_strategy \<Rightarrow> transaction_strategy" where
  "refresh_lookup_table_keys W authority s =
     (if uses_alts s
      then s\<lparr>ts_lookup_tables_keys := collect_lookup_table_keys W authority (ts_tasks s)\<rparr> else s)"

fun extract_callbacks :: "task list \<Rightarrow> base_action_callback list \<times> task list" where
  "extract_callbacks [] = ([], [])"
| "extract_callbacks (Task_BaseAction t # ts) =
     (let (c, t') = bat_extract_callback t; (cs, ts') = extract_callbacks ts
      in ((case c of None \<Rightarrow> cs | Some cb \<Rightarrow> cb # cs), Task_BaseAction t' # ts'))"
| "extract_callbacks (t # ts) = (let (cs, ts') = extract_callbacks ts in (cs, t # ts'))"

definition extract_action_callbacks ::
    "transaction_strategy \<Rightarrow> base_action_callback list \<times> transaction_strategy" where
  "extract_action_callbacks s =
     (let (cs, ts) = extract_callbacks (ts_tasks s) in (cs, s\<lparr>ts_tasks := ts\<rparr>))"

fun is_base_action :: "task \<Rightarrow> bool" where
  "is_base_action (Task_BaseAction _) = True"
| "is_base_action _ = False"

definition remove_actions ::
    "wire \<Rightarrow> pubkey \<Rightarrow> transaction_strategy \<Rightarrow> base_action_callback list \<times> transaction_strategy" where
  "remove_actions W authority s =
     (let (callbacks, s1) = extract_action_callbacks s;
          s2 = s1\<lparr>ts_tasks := filter (\<lambda>t. \<not> is_base_action t) (ts_tasks s1)\<rparr>
      in (callbacks, refresh_lookup_table_keys W authority s2))"

fun task_has_callback :: "task \<Rightarrow> bool" where
  "task_has_callback (Task_BaseAction t) = bat_has_callback t"
| "task_has_callback _ = False"

definition has_actions_callbacks :: "transaction_strategy \<Rightarrow> bool" where
  "has_actions_callbacks s = list_ex task_has_callback (ts_tasks s)"

definition attempt_lookup_tables :: "wire \<Rightarrow> task list \<Rightarrow> u64 option \<Rightarrow> bool" where
  "attempt_lookup_tables W tasks nonce =
     (if tasks_compute_units tasks nonce > MAX_COMPUTE_UNITS then False
      else case v0_size W tasks (collect_lookup_table_keys W (placeholder_key W) tasks) nonce of
             Inr sz \<Rightarrow> sz \<le> MAX_TRANSACTION_WIRE_SIZE W
           | Inl _ \<Rightarrow> False)"

definition calculate_tx_length :: "wire \<Rightarrow> u64 option \<Rightarrow> task list \<Rightarrow> (task_strategist_error, nat) result" where
  "calculate_tx_length W nonce tasks =
     (case v1_size W tasks nonce of
        Inr sz \<Rightarrow> Inr sz
      | Inl Strategist_FailedToFit \<Rightarrow> Inr USIZE_MAX
      | Inl Strategist_Compile \<Rightarrow> Inr USIZE_MAX
      | Inl Strategist_Signer \<Rightarrow> Inl Strategist_Signer)"

text \<open>The heap of (size, index) pairs is the list of the pairs in the order \<^verbatim>\<open>pop\<close> yields them.\<close>

fun optimize_loop ::
    "wire \<Rightarrow> u64 option \<Rightarrow> (nat \<times> nat) list \<Rightarrow> task list \<Rightarrow> nat \<Rightarrow>
     (task_strategist_error, nat \<times> task list) result" where
  "optimize_loop W nonce [] tasks len = Inr (len, tasks)"
| "optimize_loop W nonce ((_, i) # heap) tasks len =
     (if len \<le> MAX_TRANSACTION_V1_WIRE_SIZE W then Inr (len, tasks)
      else case try_use_buffer (tasks ! i) of
             (True, t) \<Rightarrow> rbind (calculate_tx_length W nonce (tasks[i := t]))
                (\<lambda>len'. optimize_loop W nonce heap (tasks[i := t]) len')
           | (False, _) \<Rightarrow> optimize_loop W nonce heap tasks len)"

definition try_optimize_tx_size_if_needed ::
    "wire \<Rightarrow> task list \<Rightarrow> u64 option \<Rightarrow> (task_strategist_error, nat \<times> task list) result" where
  "try_optimize_tx_size_if_needed W tasks nonce =
     rbind (calculate_tx_length W nonce tasks) (\<lambda>len.
       if len \<le> MAX_TRANSACTION_V1_WIRE_SIZE W then Inr (len, tasks)
       else optimize_loop W nonce
              (rev (sort (zip (map (instruction_size W) tasks) [0..<length tasks]))) tasks len)"

definition build_strategy ::
    "wire \<Rightarrow> task list \<Rightarrow> pubkey \<Rightarrow> u64 option \<Rightarrow> (task_strategist_error, transaction_strategy) result" where
  "build_strategy W tasks validator nonce =
     (if tasks_compute_units tasks nonce > MAX_COMPUTE_UNITS then Inl Strategist_FailedToFit
      else rbind (try_optimize_tx_size_if_needed W tasks nonce) (\<lambda>(len, optimized).
        if len \<le> MAX_TRANSACTION_V1_WIRE_SIZE W
        then Inr \<lparr>ts_tasks = optimized, ts_lookup_tables_keys = [], ts_uniqueness_nonce = nonce\<rparr>
        else rbind (if attempt_lookup_tables W tasks nonce then Inr tasks
                    else if attempt_lookup_tables W optimized nonce then Inr optimized
                    else Inl Strategist_FailedToFit) (\<lambda>chosen.
             Inr \<lparr>ts_tasks = chosen,
                  ts_lookup_tables_keys = collect_lookup_table_keys W validator chosen,
                  ts_uniqueness_nonce = nonce\<rparr>)))"

definition build_split_plan ::
    "wire \<Rightarrow> task list \<Rightarrow> task list \<Rightarrow> pubkey \<Rightarrow> u64 option \<Rightarrow>
     (task_strategist_error, transaction_plan) result" where
  "build_split_plan W commits follow_ups authority nonce =
     rbind (build_strategy W commits authority nonce) (\<lambda>commit_strategy.
     rbind (build_strategy W follow_ups authority nonce) (\<lambda>follow_up_strategy.
     Inr \<lparr>tp_current = commit_strategy, tp_follow_up = Some follow_up_strategy\<rparr>))"

fun is_commit_finalize_task :: "task \<Rightarrow> bool" where
  "is_commit_finalize_task (Task_CommitFinalize _) = True"
| "is_commit_finalize_task _ = False"

definition plan_uses_alts :: "transaction_plan \<Rightarrow> bool" where
  "plan_uses_alts p = (uses_alts (tp_current p) \<or>
     (case tp_follow_up p of None \<Rightarrow> False | Some s \<Rightarrow> uses_alts s))"

definition plan_of_strategy :: "transaction_strategy \<Rightarrow> transaction_plan" where
  "plan_of_strategy s = \<lparr>tp_current = s, tp_follow_up = None\<rparr>"

definition build_plan ::
    "wire \<Rightarrow> task list \<Rightarrow> task list \<Rightarrow> pubkey \<Rightarrow> u64 option \<Rightarrow>
     (task_strategist_error, transaction_plan) result" where
  "build_plan W commits follow_ups authority nonce =
     (if follow_ups = [] \<and> list_ex is_commit_finalize_task commits
      then rbind (build_strategy W commits authority nonce) (\<lambda>s. Inr (plan_of_strategy s))
      else if length commits + length follow_ups > MAX_UNITED_TASKS_LEN
      then build_split_plan W commits follow_ups authority nonce
      else case build_strategy W (commits @ follow_ups) authority nonce of
             Inl Strategist_FailedToFit \<Rightarrow> build_split_plan W commits follow_ups authority nonce
           | Inl Strategist_Signer \<Rightarrow> Inl Strategist_Signer
           | Inl Strategist_Compile \<Rightarrow> Inl Strategist_Compile
           | Inr s \<Rightarrow>
               let combined = plan_of_strategy s in
               if \<not> plan_uses_alts combined then Inr combined
               else rbind (build_split_plan W commits follow_ups authority nonce) (\<lambda>split.
                 Inr (if plan_uses_alts split then combined else split)))"

section \<open>A strategy keeps the work and fits the limits\<close>

text \<open>
  \<open>inlined\<close> forgets whether a commit's data travels in the instruction or through a buffer, and
  nothing else. \<open>fits\<close> says that a strategy's transaction is within the compute and wire limits.
\<close>

fun inlined_delivery :: "commit_delivery \<Rightarrow> commit_delivery" where
  "inlined_delivery StateInBuffer = StateInArgs"
| "inlined_delivery (DiffInBuffer base) = DiffInArgs base"
| "inlined_delivery d = d"

fun inlined :: "task \<Rightarrow> task" where
  "inlined (Task_CommitFinalize t) =
     Task_CommitFinalize (t\<lparr>cft_delivery := inlined_delivery (cft_delivery t)\<rparr>)"
| "inlined t = t"

definition total_compute_units :: "task list \<Rightarrow> u64 option \<Rightarrow> nat" where
  "total_compute_units tasks nonce =
     (case nonce of None \<Rightarrow> 0 | Some _ \<Rightarrow> 1000) + sum_list (map (\<lambda>t. unat (task_compute_units t)) tasks)"

definition fits :: "wire \<Rightarrow> transaction_strategy \<Rightarrow> bool" where
  "fits W s \<longleftrightarrow> total_compute_units (ts_tasks s) (ts_uniqueness_nonce s) \<le> 1400000 \<and>
     ((\<exists>sz. v1_size W (ts_tasks s) (ts_uniqueness_nonce s) = Inr sz \<and> sz \<le> MAX_TRANSACTION_V1_WIRE_SIZE W) \<or>
      (\<exists>sz. v0_size W (ts_tasks s) (collect_lookup_table_keys W (placeholder_key W) (ts_tasks s))
              (ts_uniqueness_nonce s) = Inr sz \<and> sz \<le> MAX_TRANSACTION_WIRE_SIZE W))"

lemma try_use_buffer_inlined: "try_use_buffer t = (changed, t') \<Longrightarrow> inlined t' = inlined t"
  by (cases t) (auto simp: cft_try_use_buffer_def split: commit_delivery.splits)

lemma inlined_compute_units [simp]: "task_compute_units (inlined t) = task_compute_units t"
  by (cases t) auto

lemma inlined_total:
  assumes "map inlined ts = map inlined ts'"
  shows "total_compute_units ts nonce = total_compute_units ts' nonce"
proof -
  have "total_compute_units us nonce = total_compute_units (map inlined us) nonce" for us
    by (simp add: total_compute_units_def comp_def)
  then show ?thesis using assms by metis
qed

lemma saturating_fold_le:
  fixes acc :: u32
  assumes "foldl (\<lambda>total t. saturating_add total (f t)) acc ts \<le> m" and "unat m < 2 ^ 32 - 1"
  shows "unat acc + sum_list (map (\<lambda>t. unat (f t)) ts) \<le> unat m"
  using assms
proof (induction ts arbitrary: acc)
  case Nil
  then show ?case by (simp add: word_le_nat_alt)
next
  case (Cons t ts)
  have "unat (saturating_add acc (f t)) + sum_list (map (\<lambda>t. unat (f t)) ts) \<le> unat m"
    by (rule Cons.IH) (use Cons.prems in simp_all)
  moreover have "unat (saturating_add acc (f t)) = unat acc + unat (f t)"
    using calculation Cons.prems(2) unat_saturating_add [of acc "f t"] by (simp add: min_def split: if_splits)
  ultimately show ?case by simp
qed

lemma compute_units_total:
  assumes "\<not> tasks_compute_units ts nonce > MAX_COMPUTE_UNITS"
  shows "total_compute_units ts nonce \<le> 1400000"
proof -
  have "unat (case nonce of None \<Rightarrow> 0 | Some _ \<Rightarrow> UNIQUENESS_NOOP_COMPUTE_UNITS)
      + sum_list (map (\<lambda>t. unat (task_compute_units t)) ts) \<le> unat MAX_COMPUTE_UNITS"
    by (rule saturating_fold_le)
       (use assms in \<open>simp_all add: tasks_compute_units_def MAX_COMPUTE_UNITS_def not_less\<close>)
  then show ?thesis
    by (simp add: total_compute_units_def UNIQUENESS_NOOP_COMPUTE_UNITS_def MAX_COMPUTE_UNITS_def
        split: option.splits)
qed

lemma optimize_loop_spec:
  assumes "optimize_loop W nonce heap tasks len = Inr (len', tasks')"
    and "\<forall>(_, i) \<in> set heap. i < length tasks" and "calculate_tx_length W nonce tasks = Inr len"
  shows "map inlined tasks' = map inlined tasks \<and> calculate_tx_length W nonce tasks' = Inr len'"
  using assms
proof (induction W nonce heap tasks len rule: optimize_loop.induct)
  case (1 W nonce tasks len)
  then show ?case by simp
next
  case (2 W nonce sz i heap tasks len)
  have i: "i < length tasks" using "2.prems"(2) by simp
  obtain changed t where t: "try_use_buffer (tasks ! i) = (changed, t)" by fastforce
  have same: "map inlined (tasks[i := t]) = map inlined tasks"
    using try_use_buffer_inlined [OF t] i
    by (metis list_update_id map_update nth_map)
  show ?case
  proof (cases "len \<le> MAX_TRANSACTION_V1_WIRE_SIZE W")
    case True
    then show ?thesis using "2.prems" by simp
  next
    case False
    show ?thesis
    proof (cases changed)
      case True
      then obtain len1 where len1: "calculate_tx_length W nonce (tasks[i := t]) = Inr len1"
        "optimize_loop W nonce heap (tasks[i := t]) len1 = Inr (len', tasks')"
        using "2.prems"(1) False t by (auto simp: rbind_Inr_iff)
      have "map inlined tasks' = map inlined (tasks[i := t]) \<and> calculate_tx_length W nonce tasks' = Inr len'"
        using "2.IH"(1) [OF False t [symmetric]] True len1 "2.prems"(2) by auto
      then show ?thesis using same by simp
    next
      case changed: False
      then show ?thesis using "2.IH"(2) [OF False t [symmetric]] "2.prems" False t by auto
    qed
  qed
qed

lemma try_optimize_spec:
  assumes "try_optimize_tx_size_if_needed W tasks nonce = Inr (len, tasks')"
  shows "map inlined tasks' = map inlined tasks" "calculate_tx_length W nonce tasks' = Inr len"
proof -
  have heap: "\<forall>(_, i) \<in> set (rev (sort (zip (map (instruction_size W) tasks) [0..<length tasks]))).
      i < length tasks"
    by (auto dest: set_zip_rightD)
  show "map inlined tasks' = map inlined tasks" "calculate_tx_length W nonce tasks' = Inr len"
    using assms optimize_loop_spec [OF _ heap, of W nonce _ len tasks']
    by (auto simp: try_optimize_tx_size_if_needed_def rbind_Inr_iff split: if_splits)
qed

lemma calculate_tx_length_fits:
  assumes "calculate_tx_length W nonce tasks = Inr len" and "len < USIZE_MAX"
  shows "v1_size W tasks nonce = Inr len"
  using assms by (auto simp: calculate_tx_length_def split: sum.splits task_strategist_error.splits)

lemma attempt_lookup_tables_fits:
  assumes "attempt_lookup_tables W tasks nonce"
  shows "\<exists>sz. v0_size W tasks (collect_lookup_table_keys W (placeholder_key W) tasks) nonce = Inr sz
    \<and> sz \<le> MAX_TRANSACTION_WIRE_SIZE W"
  using assms by (auto simp: attempt_lookup_tables_def split: if_splits sum.splits)

lemma build_strategy_spec:
  assumes lim: "MAX_TRANSACTION_V1_WIRE_SIZE W < USIZE_MAX"
    and s: "build_strategy W tasks validator nonce = Inr s"
  shows "map inlined (ts_tasks s) = map inlined tasks" "ts_uniqueness_nonce s = nonce" "fits W s"
proof -
  have cu: "total_compute_units tasks nonce \<le> 1400000"
    using s compute_units_total by (auto simp: build_strategy_def split: if_splits)
  obtain len opt where opt: "try_optimize_tx_size_if_needed W tasks nonce = Inr (len, opt)"
    using s by (auto simp: build_strategy_def rbind_Inr_iff split: if_splits)
  note o = try_optimize_spec [OF opt]
  have "map inlined (ts_tasks s) = map inlined tasks \<and> ts_uniqueness_nonce s = nonce \<and>
    ((\<exists>sz. v1_size W (ts_tasks s) nonce = Inr sz \<and> sz \<le> MAX_TRANSACTION_V1_WIRE_SIZE W) \<or>
     attempt_lookup_tables W (ts_tasks s) nonce)"
  proof (cases "len \<le> MAX_TRANSACTION_V1_WIRE_SIZE W")
    case True
    then have "v1_size W opt nonce = Inr len" using calculate_tx_length_fits [OF o(2)] lim by simp
    then show ?thesis using s opt True o(1)
      by (auto simp: build_strategy_def rbind_Inr_iff split: if_splits)
  next
    case False
    then show ?thesis using s opt o(1)
      by (auto simp: build_strategy_def rbind_Inr_iff split: if_splits)
  qed
  then show "map inlined (ts_tasks s) = map inlined tasks" "ts_uniqueness_nonce s = nonce" "fits W s"
    using cu inlined_total [of "ts_tasks s" tasks nonce] attempt_lookup_tables_fits
    by (auto simp: fits_def)
qed

definition plan_tasks :: "transaction_plan \<Rightarrow> task list" where
  "plan_tasks p = ts_tasks (tp_current p) @ (case tp_follow_up p of None \<Rightarrow> [] | Some s \<Rightarrow> ts_tasks s)"

definition plan_strategies :: "transaction_plan \<Rightarrow> transaction_strategy list" where
  "plan_strategies p = tp_current p # (case tp_follow_up p of None \<Rightarrow> [] | Some s \<Rightarrow> [s])"

lemma build_split_plan_spec:
  assumes lim: "MAX_TRANSACTION_V1_WIRE_SIZE W < USIZE_MAX"
    and p: "build_split_plan W commits follow_ups authority nonce = Inr p"
  shows "map inlined (plan_tasks p) = map inlined (commits @ follow_ups)
    \<and> list_all (fits W) (plan_strategies p)"
  using p build_strategy_spec [OF lim]
  by (fastforce simp: build_split_plan_def rbind_Inr_iff plan_tasks_def plan_strategies_def)

lemma plan_of_strategy_spec:
  assumes lim: "MAX_TRANSACTION_V1_WIRE_SIZE W < USIZE_MAX"
    and s: "build_strategy W tasks authority nonce = Inr s"
  shows "map inlined (plan_tasks (plan_of_strategy s)) = map inlined tasks
    \<and> list_all (fits W) (plan_strategies (plan_of_strategy s))"
  using build_strategy_spec [OF lim s] by (simp add: plan_tasks_def plan_strategies_def plan_of_strategy_def)

lemma build_strategy_error:
  assumes "build_strategy W tasks authority nonce = Inl e"
    and "\<And>ts. v1_size W ts nonce \<noteq> Inl Strategist_Signer"
  shows "e = Strategist_FailedToFit"
proof -
  have calc: "\<exists>n. calculate_tx_length W nonce ts = Inr n" for ts
    using assms(2) [of ts] by (auto simp: calculate_tx_length_def split: sum.split task_strategist_error.split)
  have loop: "\<exists>r. optimize_loop W nonce heap ts len = Inr r" for heap ts len
  proof (induction heap arbitrary: ts len)
    case (Cons h heap)
    obtain sz i where h: "h = (sz, i)" by (cases h)
    obtain changed t where t: "try_use_buffer (ts ! i) = (changed, t)" by fastforce
    then show ?case using h calc [of "ts[i := t]"] Cons.IH by (cases changed) auto
  qed simp
  have "\<exists>r. try_optimize_tx_size_if_needed W tasks nonce = Inr r"
    using calc [of tasks] loop by (auto simp: try_optimize_tx_size_if_needed_def)
  then show ?thesis
    using assms(1) by (auto simp: build_strategy_def rbind_Inl_iff split: if_splits)
qed

section \<open>What an intent's tasks are\<close>

fun commits_in :: "task list \<Rightarrow> (committed_account \<times> u64 \<times> bool) list" where
  "commits_in [] = []"
| "commits_in (Task_CommitFinalize t # ts) =
     (cft_committed_account t, cft_commit_id t, cft_allow_undelegation t) # commits_in ts"
| "commits_in (_ # ts) = commits_in ts"

fun undelegations_in :: "task list \<Rightarrow> pubkey list" where
  "undelegations_in [] = []"
| "undelegations_in (Task_Undelegate t # ts) = ud_delegated_account t # undelegations_in ts"
| "undelegations_in (_ # ts) = undelegations_in ts"

fun actions_in :: "task list \<Rightarrow> base_action list" where
  "actions_in [] = []"
| "actions_in (Task_BaseAction t # ts) = bat_action t # actions_in ts"
| "actions_in (_ # ts) = actions_in ts"

lemma commits_in_append [simp]: "commits_in (xs @ ys) = commits_in xs @ commits_in ys"
  by (induction xs rule: commits_in.induct) auto

lemma undelegations_in_append [simp]: "undelegations_in (xs @ ys) = undelegations_in xs @ undelegations_in ys"
  by (induction xs rule: undelegations_in.induct) auto

lemma actions_in_append [simp]: "actions_in (xs @ ys) = actions_in xs @ actions_in ys"
  by (induction xs rule: actions_in.induct) auto

lemma create_action_tasks_in [simp]:
  "commits_in (create_action_tasks as) = []" "undelegations_in (create_action_tasks as) = []"
  "actions_in (create_action_tasks as) = as"
  by (induction as) (auto simp: create_action_tasks_def split: option.split)

definition reserved :: "bool \<Rightarrow> committed_account list \<Rightarrow> (committed_account \<times> u64 \<times> bool) list" where
  "reserved allow as = map (\<lambda>a. (a, ca_commit_id a, allow)) as"

lemma build_commit_tasks_of_in:
  "build_commit_tasks_of allow as m = (ts, m') \<Longrightarrow>
     commits_in ts = reserved allow as \<and> undelegations_in ts = [] \<and> actions_in ts = []"
  by (induction allow as m arbitrary: ts rule: build_commit_tasks_of.induct)
     (auto simp: create_commit_finalize_task_def reserved_def split: prod.splits)

lemma undelegate_tasks_of_in:
  "undelegate_tasks_of m as = Inr ts \<Longrightarrow>
     commits_in ts = [] \<and> undelegations_in ts = map ca_pubkey as \<and> actions_in ts = []"
  by (induction as arbitrary: ts) (auto simp: rbind_Inr_iff undelegate_task_for_def)

lemma create_follow_up_tasks_in [simp]:
  "commits_in (create_follow_up_tasks c) = []" "undelegations_in (create_follow_up_tasks c) = []"
  "actions_in (create_follow_up_tasks c) = ct_base_actions c"
  by (cases c; simp add: create_follow_up_tasks_def)+

lemma ct_base_actions_eq: "ct_base_actions c = ct_actions c"
  by (cases c) auto

lemma create_undelegate_tasks_in:
  assumes "create_undelegate_tasks v m = (Inr ts :: ('e task_builder_error, task list) result)"
  shows "commits_in ts = []" "undelegations_in ts = map ca_pubkey (cau_get_committed_accounts v)"
    "actions_in ts = ut_actions (undelegate_action v)"
proof -
  obtain us where us:
    "undelegate_tasks_of m (cau_get_committed_accounts v) = (Inr us :: ('e task_builder_error, task list) result)"
    "ts = (case undelegate_action v of
            Undelegate_WithBaseActions actions \<Rightarrow> us @ create_action_tasks actions
          | Undelegate_Standalone \<Rightarrow> us)"
    using assms by (auto simp: create_undelegate_tasks_def rbind_Inr_iff)
  show "commits_in ts = []" "undelegations_in ts = map ca_pubkey (cau_get_committed_accounts v)"
    "actions_in ts = ut_actions (undelegate_action v)"
    using undelegate_tasks_of_in [OF us(1)] us(2) by (cases "undelegate_action v"; simp)+
qed

lemma opt_tasks_in:
  assumes "\<And>v m ts m'. g = Some v \<Longrightarrow> f v m = (ts, m') \<Longrightarrow>
      commits_in ts = cs v \<and> undelegations_in ts = [] \<and> actions_in ts = as v"
    and "opt_tasks f g (tasks, m) = (tasks', m')"
  shows "commits_in tasks' = commits_in tasks @ opt_list cs g
    \<and> undelegations_in tasks' = undelegations_in tasks
    \<and> actions_in tasks' = actions_in tasks @ opt_list as g"
  using assms by (cases g) (auto split: prod.splits)

lemma build_commit_tasks_in:
  "build_commit_tasks c allow m = (ts, m') \<Longrightarrow>
     commits_in ts = reserved allow (ct_get_committed_accounts c) \<and> undelegations_in ts = [] \<and> actions_in ts = []"
  unfolding build_commit_tasks_def by (rule build_commit_tasks_of_in)

definition bundle_commits :: "magic_intent_bundle \<Rightarrow> (committed_account \<times> u64 \<times> bool) list" where
  "bundle_commits b =
     opt_list (reserved False \<circ> ct_get_committed_accounts) (mib_commit b) @
     opt_list (reserved False \<circ> ct_get_committed_accounts) (mib_commit_finalize b) @
     opt_list (reserved True \<circ> cau_get_committed_accounts) (mib_commit_and_undelegate b) @
     opt_list (reserved True \<circ> cau_get_committed_accounts) (mib_commit_finalize_and_undelegate b)"

definition bundle_undelegations :: "magic_intent_bundle \<Rightarrow> pubkey list" where
  "bundle_undelegations b =
     opt_list (map ca_pubkey \<circ> cau_get_committed_accounts) (mib_commit_and_undelegate b) @
     opt_list (map ca_pubkey \<circ> cau_get_committed_accounts) (mib_commit_finalize_and_undelegate b)"

lemma commit_tasks_in:
  assumes "commit_tasks provider b = Inr ts"
  shows "commits_in ts = bundle_commits (sib_intent_bundle b)" "undelegations_in ts = []"
    "actions_in ts = mib_standalone_actions (sib_intent_bundle b)
       @ opt_list ct_actions (mib_commit_finalize (sib_intent_bundle b))
       @ opt_list (ct_actions \<circ> commit_action) (mib_commit_finalize_and_undelegate (sib_intent_bundle b))"
proof -
  let ?b = "sib_intent_bundle b"
  obtain m where ts: "ts = fst
     (opt_tasks (\<lambda>v m. let (ts, m') = build_commit_tasks (commit_action v) True m
          in (ts @ create_action_tasks (ct_base_actions (commit_action v)), m'))
        (mib_commit_finalize_and_undelegate ?b)
     (opt_tasks (\<lambda>v m. build_commit_tasks (commit_action v) True m) (mib_commit_and_undelegate ?b)
     (opt_tasks (\<lambda>v m. let (ts, m') = build_commit_tasks v False m
          in (ts @ create_action_tasks (ct_base_actions v), m')) (mib_commit_finalize ?b)
     (opt_tasks (\<lambda>v m. build_commit_tasks v False m)
        (mib_commit ?b) (create_action_tasks (mib_standalone_actions ?b), m)))))"
    using assms by (auto simp: commit_tasks_def rbind_Inr_iff Let_def)
  obtain t1 m1 where 1: "opt_tasks (\<lambda>v m. build_commit_tasks v False m)
      (mib_commit ?b) (create_action_tasks (mib_standalone_actions ?b), m) = (t1, m1)" by fastforce
  obtain t2 m2 where 2: "opt_tasks (\<lambda>v m. let (ts, m') = build_commit_tasks v False m
          in (ts @ create_action_tasks (ct_base_actions v), m')) (mib_commit_finalize ?b) (t1, m1) = (t2, m2)"
    by fastforce
  obtain t3 m3 where 3: "opt_tasks (\<lambda>v m. build_commit_tasks (commit_action v) True m)
      (mib_commit_and_undelegate ?b) (t2, m2) = (t3, m3)" by fastforce
  obtain t4 m4 where 4: "opt_tasks (\<lambda>v m. let (ts, m') = build_commit_tasks (commit_action v) True m
          in (ts @ create_action_tasks (ct_base_actions (commit_action v)), m'))
        (mib_commit_finalize_and_undelegate ?b) (t3, m3) = (t4, m4)" by fastforce
  note s1 = opt_tasks_in [where cs = "reserved False \<circ> ct_get_committed_accounts" and as = "\<lambda>_. []", OF _ 1]
  note s2 = opt_tasks_in [where cs = "reserved False \<circ> ct_get_committed_accounts" and as = ct_actions, OF _ 2]
  note s3 = opt_tasks_in [where cs = "reserved True \<circ> cau_get_committed_accounts" and as = "\<lambda>_. []", OF _ 3]
  note s4 = opt_tasks_in [where cs = "reserved True \<circ> cau_get_committed_accounts"
    and as = "ct_actions \<circ> commit_action", OF _ 4]
  have nil: "opt_list (\<lambda>_. []) g = []" for g :: "'c option" by (cases g) auto
  have "ts = t4" using ts 1 2 3 4 by simp
  moreover have
    "commits_in t1 = opt_list (reserved False \<circ> ct_get_committed_accounts) (mib_commit ?b)
     \<and> undelegations_in t1 = [] \<and> actions_in t1 = mib_standalone_actions ?b"
    using s1 by (simp add: nil build_commit_tasks_in)
  moreover have
    "commits_in t2 = commits_in t1 @ opt_list (reserved False \<circ> ct_get_committed_accounts) (mib_commit_finalize ?b)
     \<and> undelegations_in t2 = undelegations_in t1
     \<and> actions_in t2 = actions_in t1 @ opt_list ct_actions (mib_commit_finalize ?b)"
    by (rule s2) (auto dest: build_commit_tasks_in simp: ct_base_actions_eq split: prod.splits)
  moreover have
    "commits_in t3 = commits_in t2 @ opt_list (reserved True \<circ> cau_get_committed_accounts) (mib_commit_and_undelegate ?b)
     \<and> undelegations_in t3 = undelegations_in t2 \<and> actions_in t3 = actions_in t2"
    using s3 by (simp add: nil build_commit_tasks_in cau_get_committed_accounts_def)
  moreover have
    "commits_in t4 = commits_in t3 @ opt_list (reserved True \<circ> cau_get_committed_accounts) (mib_commit_finalize_and_undelegate ?b)
     \<and> undelegations_in t4 = undelegations_in t3
     \<and> actions_in t4 = actions_in t3 @ opt_list (ct_actions \<circ> commit_action) (mib_commit_finalize_and_undelegate ?b)"
    by (rule s4) (auto dest: build_commit_tasks_in simp: ct_base_actions_eq cau_get_committed_accounts_def
        split: prod.splits)
  ultimately show "commits_in ts = bundle_commits ?b" "undelegations_in ts = []"
    "actions_in ts = mib_standalone_actions ?b @ opt_list ct_actions (mib_commit_finalize ?b)
       @ opt_list (ct_actions \<circ> commit_action) (mib_commit_finalize_and_undelegate ?b)"
    by (simp_all add: bundle_commits_def)
qed

lemma opt_undelegate_in:
  assumes "(case g of None \<Rightarrow> Inr base | Some v \<Rightarrow> rbind (create_undelegate_tasks v m) (\<lambda>ts. Inr (base @ extra v @ ts))) =
      (Inr ts :: ('e task_builder_error, task list) result)"
    and "\<And>v. commits_in (extra v) = [] \<and> undelegations_in (extra v) = []"
  shows "commits_in ts = commits_in base
    \<and> undelegations_in ts = undelegations_in base @ opt_list (map ca_pubkey \<circ> cau_get_committed_accounts) g
    \<and> actions_in ts = actions_in base @ opt_list (\<lambda>v. actions_in (extra v) @ ut_actions (undelegate_action v)) g"
proof (cases g)
  case None
  then show ?thesis using assms by simp
next
  case (Some v)
  then obtain us where us: "create_undelegate_tasks v m = (Inr us :: ('e task_builder_error, task list) result)"
    "ts = base @ extra v @ us"
    using assms(1) by (auto simp: rbind_Inr_iff)
  show ?thesis using create_undelegate_tasks_in [OF us(1)] us(2) assms(2) [of v] Some by simp
qed

lemma follow_up_tasks_in:
  fixes provider :: "'e task_info_provider"
  assumes "follow_up_tasks provider b = Inr ts"
  shows "commits_in ts = []" "undelegations_in ts = bundle_undelegations (sib_intent_bundle b)"
    "actions_in ts = opt_list ct_actions (mib_commit (sib_intent_bundle b))
       @ opt_list cau_actions (mib_commit_and_undelegate (sib_intent_bundle b))
       @ opt_list (ut_actions \<circ> undelegate_action) (mib_commit_finalize_and_undelegate (sib_intent_bundle b))"
proof -
  let ?b = "sib_intent_bundle b"
  let ?t0 = "case mib_commit ?b of None \<Rightarrow> [] | Some v \<Rightarrow> create_follow_up_tasks v"
  obtain m t1 where 1: "(case mib_commit_and_undelegate ?b of None \<Rightarrow> Inr ?t0 | Some v \<Rightarrow>
      rbind (create_undelegate_tasks v m) (\<lambda>ts. Inr (?t0 @ create_follow_up_tasks (commit_action v) @ ts))) =
      (Inr t1 :: ('e task_builder_error, task list) result)"
    and 2: "(case mib_commit_finalize_and_undelegate ?b of None \<Rightarrow> Inr t1 | Some v \<Rightarrow>
      rbind (create_undelegate_tasks v m) (\<lambda>ts. Inr (t1 @ ts))) =
      (Inr ts :: ('e task_builder_error, task list) result)"
    using assms unfolding follow_up_tasks_def Let_def rbind_Inr_iff by blast
  have t0: "commits_in ?t0 = []" "undelegations_in ?t0 = []" "actions_in ?t0 = opt_list ct_actions (mib_commit ?b)"
    by (simp_all add: ct_base_actions_eq split: option.split)
  note i1 = opt_undelegate_in [where extra = "\<lambda>v. create_follow_up_tasks (commit_action v)", OF 1]
  note i2 = opt_undelegate_in [where extra = "\<lambda>v. []", unfolded append_Nil, OF 2]
  show "commits_in ts = []" "undelegations_in ts = bundle_undelegations ?b"
    "actions_in ts = opt_list ct_actions (mib_commit ?b) @ opt_list cau_actions (mib_commit_and_undelegate ?b)
       @ opt_list (ut_actions \<circ> undelegate_action) (mib_commit_finalize_and_undelegate ?b)"
    using i1 i2 t0 by (simp_all add: bundle_undelegations_def ct_base_actions_eq cau_actions_def [abs_def] comp_def)
qed

section \<open>Properties\<close>


definition example_undelegation :: scheduled_intent_bundle where
  "example_undelegation = (oib_inner (example_bundle 1 []))\<lparr>sib_intent_bundle :=
     default_bundle\<lparr>mib_commit_and_undelegate := Some \<lparr>commit_action = Commit_Standalone [example_account 10],
       undelegate_action = Undelegate_Standalone\<rparr>\<rparr>\<rparr>"

definition example_provider :: "unit task_info_provider" where
  "example_provider = \<lparr>fetch_delegation_metadata = \<lambda>_ _. Inr [(10, \<lparr>dm_rent_payer = 5,
       dm_undelegation_requester = OwnerProgram\<rparr>)], get_base_accounts = \<lambda>_ _. Inl ()\<rparr>"



text \<open>A wire whose v1 transactions take 3000 bytes per inline commit and nothing else.\<close>

definition example_wire :: wire where
  "example_wire = \<lparr>
     v1_size = \<lambda>ts _. Inr (3000 * length (filter (\<lambda>t. case t of Task_CommitFinalize c \<Rightarrow> \<not> cft_is_buffer c | _ \<Rightarrow> False) ts)),
     v0_size = \<lambda>_ _ _. Inl Strategist_FailedToFit,
     instruction_size = \<lambda>_. 3000, involved_accounts = \<lambda>_ _. [], placeholder_key = 0,
     MAX_TRANSACTION_V1_WIRE_SIZE = 4096, MAX_TRANSACTION_WIRE_SIZE = 1232\<rparr>"

definition example_commit :: "u64 \<Rightarrow> task" where
  "example_commit i = Task_CommitFinalize (create_commit_finalize_task i False (example_account 10) None)"

lemma example_plan:
  "\<exists>p. build_plan example_wire [example_commit 1, example_commit 2] [] 0 None = Inr p"
  by (simp add: build_plan_def build_strategy_def try_optimize_tx_size_if_needed_def
      calculate_tx_length_def example_wire_def example_commit_def create_commit_finalize_task_def
      delivery_for_def example_account_def COMMIT_STATE_SIZE_THRESHOLD_def tasks_compute_units_def
      MAX_COMPUTE_UNITS_def saturating_add_def checked_add_def cft_is_buffer_def cft_try_use_buffer_def
      upt_conv_Cons word_less_nat_alt)


text \<open>
  Claim C27. Splitting is never worse: when the commit stage and the follow-up stage each fit
  on their own, a plan is found, provided signing a probe transaction does not fail.
\<close>

theorem split_fit_gives_plan:
  assumes sign: "\<And>ts. v1_size W ts nonce \<noteq> Inl Strategist_Signer"
    and split: "build_split_plan W commits follow_ups authority nonce = Inr p"
  shows "\<exists>q. build_plan W commits follow_ups authority nonce = Inr q"
proof -
  have commit: "\<exists>s. build_strategy W commits authority nonce = Inr s"
    using split by (auto simp: build_split_plan_def rbind_Inr_iff)
  show ?thesis
  proof (cases "build_strategy W (commits @ follow_ups) authority nonce")
    case (Inl e)
    then have "e = Strategist_FailedToFit" using build_strategy_error sign by blast
    with Inl commit split show ?thesis by (auto simp: build_plan_def)
  next
    case (Inr s)
    with commit split show ?thesis by (auto simp: build_plan_def Let_def)
  qed
qed

theorem split_fit_gives_plan_witness:
  "\<exists>q. build_plan example_wire [example_commit 1] [example_commit 2] 0 None = Inr q"
proof -
  have "\<exists>p. build_split_plan example_wire [example_commit 1] [example_commit 2] 0 None = Inr p"
    by (simp add: build_split_plan_def build_strategy_def try_optimize_tx_size_if_needed_def
        calculate_tx_length_def example_wire_def example_commit_def create_commit_finalize_task_def
        delivery_for_def example_account_def COMMIT_STATE_SIZE_THRESHOLD_def tasks_compute_units_def
        MAX_COMPUTE_UNITS_def saturating_add_def checked_add_def cft_is_buffer_def word_less_nat_alt)
  moreover have "v1_size example_wire ts None \<noteq> Inl Strategist_Signer" for ts
    by (simp add: example_wire_def)
  ultimately show ?thesis using split_fit_gives_plan by blast
qed

end
