(* ===== verification/Execution_Errors.thy ===== *)
theory Execution_Errors
  imports Task_Model "HOL-Library.Sublist"
begin

text \<open>
  The errors of settlement and what is decided on them: \<^verbatim>\<open>rpc-client/src/lib.rs\<close> and
  \<^verbatim>\<open>utils.rs\<close> (client errors, which of them are retried), \<^verbatim>\<open>committor/src/execution/error.rs\<close>,
  \<^verbatim>\<open>transaction/error.rs\<close>, \<^verbatim>\<open>preparation/error.rs\<close> (their mapping into execution errors, which
  are transient, rejected or recoverable by splitting), \<^verbatim>\<open>progress.rs\<close> and \<^verbatim>\<open>utils.rs\<close> (what a
  failed execution may still do, and when its outbox record is closed).
\<close>

section \<open>Client errors\<close>

text \<open>Of Solana's error types only the variants that the code distinguishes are kept apart.\<close>

datatype transaction_error =
    TxInstructionError u8 instruction_error
  | MaxLoadedAccountsDataSizeExceeded
  | TxOther nat

datatype error_kind =
    Kind_Io
  | Kind_Reqwest "u16 option"
  | Kind_RpcResponseError int string
  | Kind_RpcForUser string
  | Kind_TransactionError transaction_error
  | Kind_Other nat

record client_error =
  ce_is_send_transaction :: bool
  ce_kind :: error_kind

datatype rpc_client_error =
    RpcClientError client_error
  | GetLatestBlockhash client_error
  | GetSlot client_error
  | LookupTableDeserialize instruction_error
  | SendTransaction client_error
  | CannotGetTransactionSignatureStatus signature
  | CannotConfirmTransactionSignatureStatus signature
  | SentTransactionError transaction_error signature

fun rpc_signature :: "rpc_client_error \<Rightarrow> signature option" where
  "rpc_signature (CannotGetTransactionSignatureStatus sig) = Some sig"
| "rpc_signature (SentTransactionError _ sig) = Some sig"
| "rpc_signature (CannotConfirmTransactionSignatureStatus sig) = Some sig"
| "rpc_signature _ = None"

definition is_send_transaction_too_large :: "client_error \<Rightarrow> bool" where
  "is_send_transaction_too_large err =
     (ce_is_send_transaction err \<and>
      (case ce_kind err of
         Kind_RpcResponseError code message \<Rightarrow> code = - 32602 \<and>
           (sublist ''VersionedTransaction too large'' message \<or> sublist ''base64 encoded too large'' message)
       | _ \<Rightarrow> False))"

fun is_transaction_too_large :: "rpc_client_error \<Rightarrow> bool" where
  "is_transaction_too_large (RpcClientError err) = is_send_transaction_too_large err"
| "is_transaction_too_large (SendTransaction err) = is_send_transaction_too_large err"
| "is_transaction_too_large _ = False"

fun is_instruction_error :: "transaction_error \<Rightarrow> bool" where
  "is_instruction_error (TxInstructionError _ _) = True"
| "is_instruction_error _ = False"

fun rpc_is_transient :: "rpc_client_error \<Rightarrow> bool" where
  "rpc_is_transient (LookupTableDeserialize _) = False"
| "rpc_is_transient (CannotGetTransactionSignatureStatus _) = False"
| "rpc_is_transient (CannotConfirmTransactionSignatureStatus _) = False"
| "rpc_is_transient (SentTransactionError tx_err _) = (\<not> is_instruction_error tx_err)"
| "rpc_is_transient _ = True"

text \<open>\<^verbatim>\<open>ControlFlow<(), Duration>\<close>: stop, or go on after so many milliseconds.\<close>

datatype flow = Flow_Break | Flow_Continue nat

definition decide_reqwest_flow :: "u16 option \<Rightarrow> flow" where
  "decide_reqwest_flow status =
     (case status of
        None \<Rightarrow> Flow_Continue 500
      | Some code \<Rightarrow>
          if 500 \<le> code \<and> code < 600 then Flow_Continue 100
          else if code = 429 then Flow_Continue 500
          else Flow_Break)"

definition JSON_RPC_SERVER_ERROR_NODE_UNHEALTHY :: int where
  "JSON_RPC_SERVER_ERROR_NODE_UNHEALTHY = - 32005"

definition decide_rpc_native_flow :: "client_error \<Rightarrow> flow" where
  "decide_rpc_native_flow err =
     (case ce_kind err of
        Kind_Io \<Rightarrow> Flow_Continue 500
      | Kind_Reqwest status \<Rightarrow> decide_reqwest_flow status
      | Kind_RpcResponseError code _ \<Rightarrow>
          if code = JSON_RPC_SERVER_ERROR_NODE_UNHEALTHY then Flow_Continue 500 else Flow_Break
      | _ \<Rightarrow> Flow_Break)"

fun decide_rpc_error_flow :: "rpc_client_error \<Rightarrow> flow" where
  "decide_rpc_error_flow (RpcClientError err) = decide_rpc_native_flow err"
| "decide_rpc_error_flow (SendTransaction err) = decide_rpc_native_flow err"
| "decide_rpc_error_flow (GetSlot _) = Flow_Break"
| "decide_rpc_error_flow (LookupTableDeserialize _) = Flow_Break"
| "decide_rpc_error_flow (SentTransactionError _ _) = Flow_Break"
| "decide_rpc_error_flow (CannotGetTransactionSignatureStatus _) = Flow_Break"
| "decide_rpc_error_flow (CannotConfirmTransactionSignatureStatus _) = Flow_Break"
| "decide_rpc_error_flow (GetLatestBlockhash _) = Flow_Continue 100"

text \<open>
  \<open>retry_loop\<close> is the loop of \<^verbatim>\<open>send_transaction_with_retries\<close> and \<^verbatim>\<open>get_with_retries\<close>: \<open>attempt i\<close>
  is the outcome of the i-th call (an \<^verbatim>\<open>Ok\<close> outcome that carries an error is already that
  error) and \<open>stop i\<close> is the stop predicate after it, at the time of the call. Fuel bounds the
  attempts.
\<close>

fun retry_loop ::
    "nat \<Rightarrow> (nat \<Rightarrow> ('e, 'a) result) \<Rightarrow> ('e \<Rightarrow> 'm) \<Rightarrow> ('m \<Rightarrow> flow) \<Rightarrow> (nat \<Rightarrow> bool) \<Rightarrow> nat \<Rightarrow>
     (nat \<times> ('m, 'a) result) option" where
  "retry_loop 0 attempt map_error decide stop i = None"
| "retry_loop (Suc fuel) attempt map_error decide stop i =
     (case attempt (i + 1) of
        Inr v \<Rightarrow> Some (i + 1, Inr v)
      | Inl err \<Rightarrow>
          let mapped = map_error err in
          case decide mapped of
            Flow_Break \<Rightarrow> Some (i + 1, Inl mapped)
          | Flow_Continue _ \<Rightarrow>
              if stop (i + 1) then Some (i + 1, Inl mapped)
              else retry_loop fuel attempt map_error decide stop (i + 1))"

section \<open>Transaction execution errors\<close>

datatype internal_error = Internal_SignerError | Internal_Rpc rpc_client_error

fun internal_signature :: "internal_error \<Rightarrow> signature option" where
  "internal_signature Internal_SignerError = None"
| "internal_signature (Internal_Rpc err) = rpc_signature err"

fun internal_is_transient :: "internal_error \<Rightarrow> bool" where
  "internal_is_transient Internal_SignerError = False"
| "internal_is_transient (Internal_Rpc err) = rpc_is_transient err"

datatype transaction_execution_error =
    ActionsError transaction_error "signature option"
  | UndelegationError transaction_error "signature option"
  | CommitIDError transaction_error "signature option"
  | CpiLimitError transaction_error "signature option"
  | LoadedAccountsDataSizeExceeded transaction_error "signature option"
  | UnfinalizedAccountError transaction_error "signature option"
  | TransactionTooLargeError internal_error
  | InternalError internal_error

fun is_rejected :: "transaction_execution_error \<Rightarrow> bool" where
  "is_rejected (InternalError (Internal_Rpc (SentTransactionError _ _))) = True"
| "is_rejected (InternalError _) = False"
| "is_rejected _ = True"

fun tee_is_transient :: "transaction_execution_error \<Rightarrow> bool" where
  "tee_is_transient (InternalError err) = internal_is_transient err"
| "tee_is_transient _ = False"

fun is_recoverable_by_splitting :: "transaction_execution_error \<Rightarrow> bool" where
  "is_recoverable_by_splitting (CpiLimitError _ _) = True"
| "is_recoverable_by_splitting (LoadedAccountsDataSizeExceeded _ _) = True"
| "is_recoverable_by_splitting (TransactionTooLargeError _) = True"
| "is_recoverable_by_splitting _ = False"

fun task_index :: "transaction_execution_error \<Rightarrow> u8 \<Rightarrow> u8 option" where
  "task_index (CommitIDError (TxInstructionError index _) _) off = checked_sub index off"
| "task_index (ActionsError (TxInstructionError index _) _) off = checked_sub index off"
| "task_index (UndelegationError (TxInstructionError index _) _) off = checked_sub index off"
| "task_index (UnfinalizedAccountError (TxInstructionError index _) _) off = checked_sub index off"
| "task_index (CpiLimitError (TxInstructionError index _) _) off = checked_sub index off"
| "task_index _ off = None"

fun tee_signature :: "transaction_execution_error \<Rightarrow> signature option" where
  "tee_signature (InternalError err) = internal_signature err"
| "tee_signature (TransactionTooLargeError err) = internal_signature err"
| "tee_signature (CommitIDError _ sig) = sig"
| "tee_signature (ActionsError _ sig) = sig"
| "tee_signature (UndelegationError _ sig) = sig"
| "tee_signature (UnfinalizedAccountError _ sig) = sig"
| "tee_signature (CpiLimitError _ sig) = sig"
| "tee_signature (LoadedAccountsDataSizeExceeded _ sig) = sig"

text \<open>The delegation program's error codes come from its API crate and are a parameter.\<close>

record dlp_codes =
  NONCE_OUT_OF_ORDER :: u32
  COMMIT_STATE_INVALID_ACCOUNT_OWNER :: u32
  COMMIT_STATE_ALREADY_INITIALIZED :: u32
  COMMIT_RECORD_INVALID_ACCOUNT_OWNER :: u32
  COMMIT_RECORD_ALREADY_INITIALIZED :: u32

definition map_commit_error ::
    "dlp_codes \<Rightarrow> u8 \<Rightarrow> instruction_error \<Rightarrow> signature option \<Rightarrow>
     (transaction_error, transaction_execution_error) result" where
  "map_commit_error D index ie sig =
     (case ie of
        Custom code \<Rightarrow>
          if code = NONCE_OUT_OF_ORDER D then Inr (CommitIDError (TxInstructionError index (Custom code)) sig)
          else if code = COMMIT_STATE_INVALID_ACCOUNT_OWNER D \<or> code = COMMIT_STATE_ALREADY_INITIALIZED D
            \<or> code = COMMIT_RECORD_INVALID_ACCOUNT_OWNER D \<or> code = COMMIT_RECORD_ALREADY_INITIALIZED D
          then Inr (UnfinalizedAccountError (TxInstructionError index (Custom code)) sig)
          else Inl (TxInstructionError index ie)
      | _ \<Rightarrow> Inl (TxInstructionError index ie))"

fun try_from_transaction_error ::
    "dlp_codes \<Rightarrow> transaction_error \<Rightarrow> signature option \<Rightarrow> task list \<Rightarrow> u8 \<Rightarrow>
     (transaction_error, transaction_execution_error) result" where
  "try_from_transaction_error D (TxInstructionError index ie) sig tasks off =
     (if ie = MaxInstructionTraceLengthExceeded then Inr (CpiLimitError (TxInstructionError index ie) sig)
      else case checked_sub index off of
        None \<Rightarrow> Inl (TxInstructionError index ie)
      | Some action_index \<Rightarrow>
          if unat action_index < length tasks then
            (case tasks ! unat action_index of
               Task_CommitFinalize _ \<Rightarrow> map_commit_error D index ie sig
             | Task_BaseAction _ \<Rightarrow> Inr (ActionsError (TxInstructionError index ie) sig)
             | Task_Undelegate _ \<Rightarrow> Inr (UndelegationError (TxInstructionError index ie) sig))
          else Inl (TxInstructionError index ie))"
| "try_from_transaction_error D MaxLoadedAccountsDataSizeExceeded sig tasks off =
     Inr (LoadedAccountsDataSizeExceeded MaxLoadedAccountsDataSizeExceeded sig)"
| "try_from_transaction_error D err sig tasks off = Inl err"

definition try_map_client_error ::
    "(transaction_error \<Rightarrow> signature option \<Rightarrow> (transaction_error, transaction_execution_error) result) \<Rightarrow>
     client_error \<Rightarrow> (client_error, transaction_execution_error) result" where
  "try_map_client_error try_map err =
     (case ce_kind err of
        Kind_TransactionError tx_err \<Rightarrow>
          map_err (\<lambda>te. err\<lparr>ce_kind := Kind_TransactionError te\<rparr>) (try_map tx_err None)
      | _ \<Rightarrow> Inl err)"

fun map_magicblock_client_error ::
    "(transaction_error \<Rightarrow> signature option \<Rightarrow> (transaction_error, transaction_execution_error) result) \<Rightarrow>
     rpc_client_error \<Rightarrow> transaction_execution_error" where
  "map_magicblock_client_error try_map (SentTransactionError tx_err sig) =
     (case try_map tx_err (Some sig) of
        Inr mapped \<Rightarrow> mapped
      | Inl original \<Rightarrow> InternalError (Internal_Rpc (SentTransactionError original sig)))"
| "map_magicblock_client_error try_map (RpcClientError err) =
     (case try_map_client_error try_map err of
        Inr mapped \<Rightarrow> mapped
      | Inl original \<Rightarrow> InternalError (Internal_Rpc (RpcClientError original)))"
| "map_magicblock_client_error try_map (SendTransaction err) =
     (case try_map_client_error try_map err of
        Inr mapped \<Rightarrow> mapped
      | Inl original \<Rightarrow> InternalError (Internal_Rpc (SendTransaction original)))"
| "map_magicblock_client_error try_map err = InternalError (Internal_Rpc err)"

definition intent_error_map :: "dlp_codes \<Rightarrow> task list \<Rightarrow> u8 \<Rightarrow> rpc_client_error \<Rightarrow> transaction_execution_error"
where
  "intent_error_map D tasks off err =
     (if is_transaction_too_large err then TransactionTooLargeError (Internal_Rpc err)
      else map_magicblock_client_error (\<lambda>te sig. try_from_transaction_error D te sig tasks off) err)"

fun intent_decide_flow :: "transaction_execution_error \<Rightarrow> flow" where
  "intent_decide_flow (InternalError (Internal_Rpc err)) = decide_rpc_error_flow err"
| "intent_decide_flow _ = Flow_Break"

definition MIN_ATTEMPTS :: nat where
  "MIN_ATTEMPTS = 3"

text \<open>\<open>late i\<close> says that the retry window is over when the i-th attempt has failed.\<close>

definition send_signed_tx_with_retries ::
    "nat \<Rightarrow> dlp_codes \<Rightarrow> task list \<Rightarrow> u8 \<Rightarrow> (nat \<Rightarrow> (rpc_client_error, signature) result) \<Rightarrow> (nat \<Rightarrow> bool) \<Rightarrow>
     (nat \<times> (transaction_execution_error, unit) result) option" where
  "send_signed_tx_with_retries fuel D tasks off attempt late =
     map_option (\<lambda>(n, r). (n, rbind r (\<lambda>_. Inr ())))
       (retry_loop fuel attempt (intent_error_map D tasks off) intent_decide_flow
          (\<lambda>i. \<not> (\<not> late i \<or> i < MIN_ATTEMPTS)) 0)"

section \<open>Preparation and task building errors\<close>

datatype transaction_send_error = Send_Compile | Send_Signer | Send_Rpc rpc_client_error

fun send_signature :: "transaction_send_error \<Rightarrow> signature option" where
  "send_signature (Send_Rpc err) = rpc_signature err"
| "send_signature _ = None"

fun send_is_transient :: "transaction_send_error \<Rightarrow> bool" where
  "send_is_transient Send_Compile = False"
| "send_is_transient Send_Signer = False"
| "send_is_transient (Send_Rpc err) = rpc_is_transient err"

datatype buffer_execution_error =
    AccountAlreadyInitializedError transaction_error "signature option"
  | TransactionSendError transaction_send_error

fun buffer_signature :: "buffer_execution_error \<Rightarrow> signature option" where
  "buffer_signature (AccountAlreadyInitializedError _ sig) = sig"
| "buffer_signature (TransactionSendError err) = send_signature err"

fun buffer_is_transient :: "buffer_execution_error \<Rightarrow> bool" where
  "buffer_is_transient (AccountAlreadyInitializedError _ _) = True"
| "buffer_is_transient (TransactionSendError err) = send_is_transient err"

datatype table_mania_error =
    TableMania_Rpc rpc_client_error
  | CannotExtendDeactivatedTable pubkey
  | InvalidAuthority pubkey pubkey
  | MaxExtendPubkeysExceeded nat nat
  | TimedOutWaitingForRemoteTablesToUpdate
  | TimedOutWaitingForLocalTablesToUpdate

fun table_mania_is_transient :: "table_mania_error \<Rightarrow> bool" where
  "table_mania_is_transient (TableMania_Rpc err) = rpc_is_transient err"
| "table_mania_is_transient TimedOutWaitingForRemoteTablesToUpdate = True"
| "table_mania_is_transient TimedOutWaitingForLocalTablesToUpdate = True"
| "table_mania_is_transient _ = False"

datatype delivery_internal_error =
    ZeroRetriesRequested
  | ChunksPDAMissing pubkey
  | Delivery_Borsh
  | Delivery_TableMania table_mania_error
  | Delivery_Rpc rpc_client_error
  | Delivery_BufferExecution buffer_execution_error

fun delivery_internal_is_transient :: "delivery_internal_error \<Rightarrow> bool" where
  "delivery_internal_is_transient ZeroRetriesRequested = False"
| "delivery_internal_is_transient Delivery_Borsh = False"
| "delivery_internal_is_transient (ChunksPDAMissing _) = True"
| "delivery_internal_is_transient (Delivery_TableMania err) = table_mania_is_transient err"
| "delivery_internal_is_transient (Delivery_Rpc err) = rpc_is_transient err"
| "delivery_internal_is_transient (Delivery_BufferExecution err) = buffer_is_transient err"

fun delivery_internal_signature :: "delivery_internal_error \<Rightarrow> signature option" where
  "delivery_internal_signature (Delivery_Rpc err) = rpc_signature err"
| "delivery_internal_signature (Delivery_BufferExecution err) = buffer_signature err"
| "delivery_internal_signature _ = None"

datatype delivery_preparator_error =
    FailedToPrepareBufferAccounts delivery_internal_error
  | FailedToCreateALTError delivery_internal_error

fun delivery_signature :: "delivery_preparator_error \<Rightarrow> signature option" where
  "delivery_signature (FailedToCreateALTError err) = delivery_internal_signature err"
| "delivery_signature (FailedToPrepareBufferAccounts err) = delivery_internal_signature err"

fun delivery_is_transient :: "delivery_preparator_error \<Rightarrow> bool" where
  "delivery_is_transient (FailedToCreateALTError err) = delivery_internal_is_transient err"
| "delivery_is_transient (FailedToPrepareBufferAccounts err) = delivery_internal_is_transient err"

datatype transaction_preparator_error =
    Prep_FailedToFit
  | Prep_Compile
  | Prep_Signer
  | Prep_GetLatestBlockhash rpc_client_error
  | DeliveryPreparation delivery_preparator_error

fun prep_signature :: "transaction_preparator_error \<Rightarrow> signature option" where
  "prep_signature (DeliveryPreparation err) = delivery_signature err"
| "prep_signature _ = None"

fun prep_is_transient :: "transaction_preparator_error \<Rightarrow> bool" where
  "prep_is_transient Prep_FailedToFit = False"
| "prep_is_transient Prep_Compile = False"
| "prep_is_transient Prep_Signer = False"
| "prep_is_transient (Prep_GetLatestBlockhash err) = rpc_is_transient err"
| "prep_is_transient (DeliveryPreparation err) = delivery_is_transient err"

datatype task_info_provider_error =
    AccountNotFoundError pubkey
  | InvalidAccountDataError pubkey
  | DelegationSessionChangedError pubkey u64 u64
  | MinContextSlotNotReachedError u64 rpc_client_error
  | TaskInfo_Rpc rpc_client_error

fun task_info_is_transient :: "task_info_provider_error \<Rightarrow> bool" where
  "task_info_is_transient (AccountNotFoundError _) = True"
| "task_info_is_transient (MinContextSlotNotReachedError _ _) = True"
| "task_info_is_transient (TaskInfo_Rpc err) = rpc_is_transient err"
| "task_info_is_transient (InvalidAccountDataError _) = False"
| "task_info_is_transient (DelegationSessionChangedError _ _ _) = False"

fun task_info_signature :: "task_info_provider_error \<Rightarrow> signature option" where
  "task_info_signature (MinContextSlotNotReachedError _ err) = rpc_signature err"
| "task_info_signature (TaskInfo_Rpc err) = rpc_signature err"
| "task_info_signature _ = None"

fun builder_signature :: "task_info_provider_error task_builder_error \<Rightarrow> signature option" where
  "builder_signature (CommitTasksBuildError err) = task_info_signature err"
| "builder_signature (FollowUpTasksBuildError err) = task_info_signature err"
| "builder_signature (MissingDelegationMetadata _) = None"

fun builder_is_transient :: "task_info_provider_error task_builder_error \<Rightarrow> bool" where
  "builder_is_transient (CommitTasksBuildError err) = task_info_is_transient err"
| "builder_is_transient (FollowUpTasksBuildError err) = task_info_is_transient err"
| "builder_is_transient (MissingDelegationMetadata _) = False"

section \<open>Intent execution errors and progress\<close>

text \<open>
  The scheduler's and the outbox client's errors are only carried, so they are a type variable
  and a unit-like constructor.
\<close>

datatype 's intent_executor_error =
    SchedulerError 's
  | EmptyIntentError
  | FailedToFitError
  | Executor_CompileError
  | PoisonedIntentError
  | Executor_SignerError
  | OutboxClientError
  | GetPendingSignatureStatusError rpc_client_error
  | PendingSignatureResolutionError signature
  | TaskBuilderError "task_info_provider_error task_builder_error"
  | FailedExecution transaction_execution_error
  | FailedPreparation transaction_preparator_error

fun executor_is_transient :: "'s intent_executor_error \<Rightarrow> bool" where
  "executor_is_transient (GetPendingSignatureStatusError err) = rpc_is_transient err"
| "executor_is_transient (TaskBuilderError err) = builder_is_transient err"
| "executor_is_transient (FailedExecution err) = tee_is_transient err"
| "executor_is_transient (FailedPreparation err) = prep_is_transient err"
| "executor_is_transient _ = False"

fun executor_signature :: "'s intent_executor_error \<Rightarrow> signature option" where
  "executor_signature (FailedExecution err) = tee_signature err"
| "executor_signature (FailedPreparation err) = prep_signature err"
| "executor_signature (TaskBuilderError err) = builder_signature err"
| "executor_signature (PendingSignatureResolutionError sig) = Some sig"
| "executor_signature _ = None"

datatype transaction_progress =
    Preparing
  | Prepared signature
  | Submitted signature
  | Rejected signature
  | Confirmed signature

fun progress_signature :: "transaction_progress \<Rightarrow> signature option" where
  "progress_signature Preparing = None"
| "progress_signature (Prepared sig) = Some sig"
| "progress_signature (Submitted sig) = Some sig"
| "progress_signature (Rejected sig) = Some sig"
| "progress_signature (Confirmed sig) = Some sig"

record execution_progress =
  ep_confirmed_commit :: "signature option"
  ep_transaction :: transaction_progress

definition default_progress :: execution_progress where
  "default_progress = \<lparr>ep_confirmed_commit = None, ep_transaction = Preparing\<rparr>"

definition can_retry :: "execution_progress \<Rightarrow> bool" where
  "can_retry p = (ep_confirmed_commit p = None \<and>
     (case ep_transaction p of Submitted _ \<Rightarrow> False | Confirmed _ \<Rightarrow> False | _ \<Rightarrow> True))"

definition filter_option :: "('a \<Rightarrow> bool) \<Rightarrow> 'a option \<Rightarrow> 'a option" where
  "filter_option p x = (case x of None \<Rightarrow> None | Some v \<Rightarrow> if p v then Some v else None)"

definition opt_values :: "'a option list \<Rightarrow> 'a list" where
  "opt_values xs = concat (map (\<lambda>x. case x of None \<Rightarrow> [] | Some v \<Rightarrow> [v]) xs)"

definition progress_signatures :: "execution_progress \<Rightarrow> 's intent_executor_error option \<Rightarrow> signature list" where
  "progress_signatures p error =
     (let committed = ep_confirmed_commit p;
          current = filter_option (\<lambda>sig. Some sig \<noteq> committed) (progress_signature (ep_transaction p));
          failed = filter_option (\<lambda>sig. Some sig \<noteq> committed \<and> Some sig \<noteq> current)
                     (Option.bind error executor_signature)
      in opt_values [committed, current, failed])"

record execution_output =
  eo_confirmed_commit :: "signature option"
  eo_signature :: signature

definition output_progress :: "execution_output \<Rightarrow> execution_progress" where
  "output_progress o' = \<lparr>ep_confirmed_commit = eo_confirmed_commit o', ep_transaction = Confirmed (eo_signature o')\<rparr>"

record 's intent_execution_result =
  ier_inner :: "('s intent_executor_error, execution_output) result"
  ier_progress :: execution_progress
  ier_callbacks_reported :: bool

fun is_failed_execution :: "'s intent_executor_error \<Rightarrow> bool" where
  "is_failed_execution (FailedExecution _) = True"
| "is_failed_execution _ = False"

definition is_retriable :: "'s intent_execution_result \<Rightarrow> bool \<Rightarrow> bool" where
  "is_retriable r has_dedup_guard =
     (case ier_inner r of
        Inr _ \<Rightarrow> False
      | Inl err \<Rightarrow>
          if ier_callbacks_reported r \<or> \<not> can_retry (ier_progress r) \<or> \<not> executor_is_transient err
          then False
          else has_dedup_guard \<or> \<not> is_failed_execution err)"

section \<open>Reporting an outcome\<close>

fun is_terminal_execution_error :: "'s intent_executor_error \<Rightarrow> bool" where
  "is_terminal_execution_error OutboxClientError = False"
| "is_terminal_execution_error (GetPendingSignatureStatusError _) = False"
| "is_terminal_execution_error (PendingSignatureResolutionError _) = False"
| "is_terminal_execution_error (FailedPreparation _) = False"
| "is_terminal_execution_error (SchedulerError _) = False"
| "is_terminal_execution_error PoisonedIntentError = False"
| "is_terminal_execution_error (FailedExecution err) = (\<not> tee_is_transient err)"
| "is_terminal_execution_error (TaskBuilderError err) = (\<not> builder_is_transient err)"
| "is_terminal_execution_error EmptyIntentError = True"
| "is_terminal_execution_error FailedToFitError = True"
| "is_terminal_execution_error Executor_CompileError = True"
| "is_terminal_execution_error Executor_SignerError = True"

text \<open>The numbers, keys and flags of \<^verbatim>\<open>SentCommit\<close>; its three display strings are left out.\<close>

record sent_commit =
  sc_message_id :: u64
  sc_slot :: slot
  sc_blockhash :: hash
  sc_payer :: pubkey
  sc_chain_signatures :: "signature list"
  sc_included_pubkeys :: "pubkey list"
  sc_excluded_pubkeys :: "pubkey list"
  sc_requested_undelegation :: bool
  sc_failed :: bool

definition build_sent_commit ::
    "scheduled_intent_bundle \<Rightarrow> ('s intent_executor_error, execution_output) result \<Rightarrow>
     execution_progress \<Rightarrow> sent_commit" where
  "build_sent_commit b r report_progress =
     (let progress = (case r of Inr out \<Rightarrow> output_progress out | Inl _ \<Rightarrow> report_progress);
          err = (case r of Inl e \<Rightarrow> Some e | Inr _ \<Rightarrow> None)
      in \<lparr>sc_message_id = sib_intent_id b, sc_slot = sib_slot b, sc_blockhash = sib_blockhash b,
          sc_payer = sib_payer b, sc_chain_signatures = progress_signatures progress err,
          sc_included_pubkeys = sib_get_all_committed_pubkeys b, sc_excluded_pubkeys = [],
          sc_requested_undelegation = sib_has_undelegate_intent b, sc_failed = (err \<noteq> None)\<rparr>)"

text \<open>\<open>notify\<close> is the outbox client's call, which closes the record; the payload is returned too.\<close>

definition report_and_close_intent ::
    "(sent_commit \<Rightarrow> (unit, unit) result) \<Rightarrow> ('s intent_executor_error, execution_output) result \<Rightarrow>
     scheduled_intent_bundle \<Rightarrow> execution_progress \<Rightarrow>
     ('s intent_executor_error, execution_output) result \<times> sent_commit option" where
  "report_and_close_intent notify r b progress =
     (if (case r of
            Inr _ \<Rightarrow> False
          | Inl err \<Rightarrow> \<not> is_terminal_execution_error err
              \<or> (sib_get_all_committed_pubkeys b \<noteq> [] \<and> ep_confirmed_commit progress = None))
      then (r, None)
      else let payload = build_sent_commit b r progress in
        case notify payload of
          Inl _ \<Rightarrow> (Inl OutboxClientError, None)
        | Inr _ \<Rightarrow> (r, Some payload))"

section \<open>What the mapping of errors keeps\<close>

lemma try_from_signature:
  "try_from_transaction_error D te sig tasks off = Inr m \<Longrightarrow>
     tee_signature m = sig \<and> \<not> tee_is_transient m \<and> is_rejected m \<and> intent_decide_flow m = Flow_Break"
  by (induction D te sig tasks off rule: try_from_transaction_error.induct)
     (auto simp: map_commit_error_def split: if_splits option.splits task.splits instruction_error.splits)

lemma try_from_original: "try_from_transaction_error D te sig tasks off = Inl te' \<Longrightarrow> te' = te"
  by (induction D te sig tasks off rule: try_from_transaction_error.induct)
     (auto simp: map_commit_error_def split: if_splits option.splits task.splits instruction_error.splits)

lemma try_map_client_error_cases:
  "(case try_map_client_error (\<lambda>te sig. try_from_transaction_error D te sig tasks off) err of
      Inr m \<Rightarrow> tee_signature m = None \<and> \<not> tee_is_transient m \<and> is_rejected m
        \<and> intent_decide_flow m = Flow_Break \<and> (\<exists>te. ce_kind err = Kind_TransactionError te)
    | Inl e \<Rightarrow> e = err)"
  by (auto simp: try_map_client_error_def map_err_Inr_iff map_err_Inl_iff
      dest: try_from_signature try_from_original split: sum.splits error_kind.splits)

text \<open>The error decides the transaction's fate: it reached the chain, or the node refused it.\<close>

fun definitive :: "rpc_client_error \<Rightarrow> bool" where
  "definitive (SentTransactionError _ _) = True"
| "definitive (RpcClientError err) = (is_send_transaction_too_large err \<or> (\<exists>te. ce_kind err = Kind_TransactionError te))"
| "definitive (SendTransaction err) = (is_send_transaction_too_large err \<or> (\<exists>te. ce_kind err = Kind_TransactionError te))"
| "definitive _ = False"

lemma native_flow_not_definitive:
  "decide_rpc_native_flow err \<noteq> Flow_Break \<Longrightarrow> \<not> (\<exists>te. ce_kind err = Kind_TransactionError te)"
  by (auto simp: decide_rpc_native_flow_def)

lemma intent_error_map_spec:
  fixes e D tasks off
  defines "m \<equiv> intent_error_map D tasks off e"
  shows "tee_signature m = rpc_signature e" "tee_is_transient m \<Longrightarrow> rpc_is_transient e"
    "is_rejected m \<Longrightarrow> definitive e"
    "intent_decide_flow m \<noteq> Flow_Break \<Longrightarrow> rpc_signature e = None \<and> \<not> definitive e"
proof -
  have "tee_signature m = rpc_signature e \<and> (tee_is_transient m \<longrightarrow> rpc_is_transient e) \<and>
    (is_rejected m \<longrightarrow> definitive e) \<and>
    (intent_decide_flow m \<noteq> Flow_Break \<longrightarrow> rpc_signature e = None \<and> \<not> definitive e)"
  proof (cases "is_transaction_too_large e")
    case True
    then show ?thesis unfolding m_def intent_error_map_def by (cases e) auto
  next
    case False
    let ?mapper = "\<lambda>te sig. try_from_transaction_error D te sig tasks off"
    have m: "m = map_magicblock_client_error ?mapper e"
      using False by (simp add: m_def intent_error_map_def)
    show ?thesis
    proof (cases e)
      case (SentTransactionError te sig)
      then show ?thesis
        using m try_from_signature [of D te "Some sig" tasks off] try_from_original [of D te "Some sig" tasks off]
        by (auto split: sum.splits)
    next
      case (RpcClientError err)
      then show ?thesis using m False try_map_client_error_cases [where D = D and tasks = tasks and off = off and err = err] native_flow_not_definitive [of err]
        by (auto split: sum.splits)
    next
      case (SendTransaction err)
      then show ?thesis using m False try_map_client_error_cases [where D = D and tasks = tasks and off = off and err = err] native_flow_not_definitive [of err]
        by (auto split: sum.splits)
    qed (use m in auto)
  qed
  then show "tee_signature m = rpc_signature e" "tee_is_transient m \<Longrightarrow> rpc_is_transient e"
    "is_rejected m \<Longrightarrow> definitive e"
    "intent_decide_flow m \<noteq> Flow_Break \<Longrightarrow> rpc_signature e = None \<and> \<not> definitive e"
    by blast+
qed

lemma retry_loop_attempts:
  "retry_loop fuel attempt map_error decide stop i = Some (n, r) \<Longrightarrow>
     i < n \<and> n \<le> i + fuel
     \<and> (\<forall>j. i < j \<and> j < n \<longrightarrow> (\<exists>e. attempt j = Inl e \<and> decide (map_error e) \<noteq> Flow_Break \<and> \<not> stop j))
     \<and> (case attempt n of Inr v \<Rightarrow> r = Inr v | Inl e \<Rightarrow> r = Inl (map_error e))"
proof (induction fuel attempt map_error decide stop i rule: retry_loop.induct)
  case (1 attempt map_error decide stop i)
  then show ?case by simp
next
  case (2 fuel attempt map_error decide stop i)
  show ?case
  proof (cases "\<exists>e d. attempt (i + 1) = Inl e \<and> decide (map_error e) = Flow_Continue d \<and> \<not> stop (i + 1)")
    case True
    then obtain e d where e: "attempt (i + 1) = Inl e" "decide (map_error e) = Flow_Continue d" "\<not> stop (i + 1)"
      by blast
    then have "retry_loop fuel attempt map_error decide stop (i + 1) = Some (n, r)" using "2.prems" by simp
    from "2.IH" [OF e(1) refl e(2,3) this]
    have IH: "i + 1 < n" "n \<le> i + 1 + fuel"
      "\<And>j. i + 1 < j \<Longrightarrow> j < n \<Longrightarrow> \<exists>e. attempt j = Inl e \<and> decide (map_error e) \<noteq> Flow_Break \<and> \<not> stop j"
      "case attempt n of Inr v \<Rightarrow> r = Inr v | Inl e \<Rightarrow> r = Inl (map_error e)" by blast+
    have "\<exists>e. attempt j = Inl e \<and> decide (map_error e) \<noteq> Flow_Break \<and> \<not> stop j" if "i < j" "j < n" for j
      using that IH(3) [of j] e by (cases "j = i + 1") auto
    then show ?thesis using IH by auto
  next
    case False
    then have "n = i + 1 \<and> (case attempt n of Inr v \<Rightarrow> r = Inr v | Inl e \<Rightarrow> r = Inl (map_error e))"
      using "2.prems" by (auto simp: Let_def split: sum.splits flow.splits if_splits)
    then show ?thesis by auto
  qed
qed

lemma retry_loop_stops:
  assumes "stop n" and "i < n"
  shows "\<exists>k r. retry_loop (n - i) attempt map_error decide stop i = Some (k, r) \<and> k \<le> n"
  using assms
proof (induction "n - i" arbitrary: i)
  case 0
  then show ?case by simp
next
  case (Suc f)
  have f: "n - i = Suc f" "f = n - (i + 1)" using Suc.hyps(2) by simp_all
  show ?case
  proof (cases "i + 1 = n")
    case True
    then show ?thesis using Suc.prems f by (auto simp: Let_def split: sum.split flow.split)
  next
    case False
    then have "\<exists>k r. retry_loop f attempt map_error decide stop (i + 1) = Some (k, r) \<and> k \<le> n"
      using Suc.hyps(1) [OF f(2)] Suc.prems f(2) by auto
    then show ?thesis using Suc.prems f by (auto simp: Let_def split: sum.split flow.split)
  qed
qed

lemma terminal_not_transient: "is_terminal_execution_error err \<Longrightarrow> \<not> executor_is_transient err"
  by (cases err) auto

section \<open>Properties\<close>

text \<open>
  Claim C19. A signed transaction is sent again only after attempts whose error neither decides
  the transaction's fate nor names a submitted signature; the final result is that of the last
  attempt; its error keeps the signature of the client's error and counts as a rejection only
  when the client's error decides the transaction's fate.
\<close>

theorem resend_only_undecided:
  assumes "send_signed_tx_with_retries fuel D tasks off attempt late = Some (n, r)"
  shows "(\<forall>j. 0 < j \<and> j < n \<longrightarrow> (\<exists>e. attempt j = Inl e \<and> rpc_signature e = None \<and> \<not> definitive e))
    \<and> (case attempt n of
         Inr _ \<Rightarrow> r = Inr ()
       | Inl e \<Rightarrow> \<exists>m. r = Inl m \<and> tee_signature m = rpc_signature e \<and> (is_rejected m \<longrightarrow> definitive e))"
proof -
  obtain r0 where r0: "retry_loop fuel attempt (intent_error_map D tasks off) intent_decide_flow
      (\<lambda>i. \<not> (\<not> late i \<or> i < MIN_ATTEMPTS)) 0 = Some (n, r0)" "r = rbind r0 (\<lambda>_. Inr ())"
    using assms by (auto simp: send_signed_tx_with_retries_def)
  note spec = retry_loop_attempts [OF r0(1)]
  show ?thesis
    using spec r0(2) intent_error_map_spec(1,3,4) [where D = D and tasks = tasks and off = off]
    by (auto split: sum.splits)
qed

definition example_codes :: dlp_codes where
  "example_codes = \<lparr>NONCE_OUT_OF_ORDER = 1, COMMIT_STATE_INVALID_ACCOUNT_OWNER = 2,
     COMMIT_STATE_ALREADY_INITIALIZED = 3, COMMIT_RECORD_INVALID_ACCOUNT_OWNER = 4,
     COMMIT_RECORD_ALREADY_INITIALIZED = 5\<rparr>"

theorem resend_only_undecided_witness:
  "let io = SendTransaction \<lparr>ce_is_send_transaction = True, ce_kind = Kind_Io\<rparr>;
       attempt = (\<lambda>i. if i < 3 then Inl io else Inl (SentTransactionError (TxInstructionError 0 GenericError) 77))
   in \<exists>m. send_signed_tx_with_retries 9 example_codes [example_commit 1] 0 attempt (\<lambda>_. False) = Some (3, Inl m)
        \<and> tee_signature m = Some 77 \<and> (\<exists>e. attempt 2 = Inl e \<and> rpc_signature e = None)"
proof -
  let ?io = "SendTransaction \<lparr>ce_is_send_transaction = True, ce_kind = Kind_Io\<rparr>"
  let ?attempt = "\<lambda>i :: nat. if i < 3 then Inl ?io else Inl (SentTransactionError (TxInstructionError 0 GenericError) 77)"
  have "\<exists>m. send_signed_tx_with_retries 9 example_codes [example_commit 1] 0 ?attempt (\<lambda>_. False) = Some (3, Inl m)"
    by (simp add: send_signed_tx_with_retries_def eval_nat_numeral intent_error_map_def
        is_send_transaction_too_large_def try_map_client_error_def decide_rpc_native_flow_def
        checked_sub_def example_commit_def map_commit_error_def)
  then obtain m where m: "send_signed_tx_with_retries 9 example_codes [example_commit 1] 0 ?attempt (\<lambda>_. False) = Some (3, Inl m)"
    by blast
  from resend_only_undecided [OF m] m show ?thesis by (auto simp: Let_def)
qed

text \<open>
  Claim C37. Sending ends: once the retry window is over from some attempt on, at most that many
  attempts (and never fewer than three of them allowed) are made, whatever the node answers.
\<close>

theorem send_terminates:
  assumes "late n" and "MIN_ATTEMPTS \<le> n"
  shows "\<exists>k r. send_signed_tx_with_retries n D tasks off attempt late = Some (k, r) \<and> k \<le> n"
proof -
  have "0 < n" using assms(2) by (simp add: MIN_ATTEMPTS_def)
  then show ?thesis
    using retry_loop_stops [of "\<lambda>i. \<not> (\<not> late i \<or> i < MIN_ATTEMPTS)" n 0 attempt
        "intent_error_map D tasks off" intent_decide_flow] assms
    by (auto simp: send_signed_tx_with_retries_def not_less)
qed

theorem send_terminates_witness:
  "\<exists>k r. send_signed_tx_with_retries 4 example_codes [] 0
     (\<lambda>_. Inl (GetLatestBlockhash \<lparr>ce_is_send_transaction = False, ce_kind = Kind_Io\<rparr>)) (\<lambda>i. i > 2) = Some (k, r)
     \<and> k \<le> 4"
  using send_terminates [of "\<lambda>i. i > 2" 4] by (simp add: MIN_ATTEMPTS_def)

text \<open>
  The signatures reported for an execution are exactly the known ones (the confirmed
  commit, the current transaction, the one named by the error), each once.
\<close>

lemma reported_signatures_distinct:
  "distinct (progress_signatures p err)
   \<and> set (progress_signatures p err) =
       set_option (ep_confirmed_commit p) \<union> set_option (progress_signature (ep_transaction p))
       \<union> set_option (Option.bind err executor_signature)"
  by (cases "ep_confirmed_commit p"; cases "progress_signature (ep_transaction p)";
      cases "Option.bind err executor_signature")
     (auto simp: progress_signatures_def Let_def filter_option_def opt_values_def)

text \<open>
  Claim C28. The outbox record is closed only on a settled outcome: success, or an error that is
  terminal and leaves no reserved commit unsettled. A failure that the worker may retry leaves
  the record open.
\<close>

theorem record_closed_only_when_settled:
  assumes "report_and_close_intent notify r b progress = (r', Some payload)"
  shows "r' = r \<and> (\<forall>err. r = Inl err \<longrightarrow> is_terminal_execution_error err
      \<and> (sib_get_all_committed_pubkeys b = [] \<or> ep_confirmed_commit progress \<noteq> None))
    \<and> \<not> is_retriable \<lparr>ier_inner = r', ier_progress = progress, ier_callbacks_reported = c\<rparr> guard"
  using assms terminal_not_transient
  by (auto simp: report_and_close_intent_def is_retriable_def Let_def split: sum.splits if_splits)

theorem record_closed_only_when_settled_witness:
  "let b = oib_inner (example_bundle 1 [10]);
       r = (Inl EmptyIntentError :: (unit intent_executor_error, execution_output) result);
       progress = \<lparr>ep_confirmed_commit = Some 3, ep_transaction = Preparing\<rparr>
   in \<exists>payload. report_and_close_intent (\<lambda>_. Inr ()) r b progress = (r, Some payload)
        \<and> \<not> is_retriable \<lparr>ier_inner = r, ier_progress = progress, ier_callbacks_reported = False\<rparr> True"
proof -
  let ?b = "oib_inner (example_bundle 1 [10])"
  let ?r = "Inl EmptyIntentError :: (unit intent_executor_error, execution_output) result"
  let ?p = "\<lparr>ep_confirmed_commit = Some 3, ep_transaction = Preparing\<rparr>"
  obtain payload where "report_and_close_intent (\<lambda>_. Inr ()) ?r ?b ?p = (?r, Some payload)"
    by (simp add: report_and_close_intent_def Let_def)
  from this record_closed_only_when_settled [OF this, of False True] show ?thesis
    by (auto simp: Let_def)
qed

end
