(* ===== verification/Intent_Executor.thy ===== *)
theory Intent_Executor
  imports Scheduler_Failure Intent_Intake Execution_Errors
begin

text \<open>
  The execution worker of \<^verbatim>\<open>committor/src/execution/worker.rs\<close>: the main loop's events (reaping
  finished tasks, draining the scheduler, admitting intents from the stream, starting tasks
  under the executor semaphore) as a step relation on the worker's state, and the retry loop of a
  task. The task itself (\<^verbatim>\<open>IntentRunner\<close>) is a parameter.
\<close>

section \<open>State and events\<close>

definition MAX_EXECUTORS :: nat where "MAX_EXECUTORS = 50"
definition SCHEDULER_CAPACITY :: nat where "SCHEDULER_CAPACITY = 3000"
definition SCHEDULER_HARD_CAPACITY :: nat where "SCHEDULER_HARD_CAPACITY = 6000"
definition MAX_SLEEPING_RETRIERS :: nat where "MAX_SLEEPING_RETRIERS = 5000"
definition MAX_INTENT_ATTEMPTS :: nat where "MAX_INTENT_ATTEMPTS = 3"

text \<open>
  \<open>ex_selected\<close> is the intent the main loop has taken and waits to start; \<open>ex_tasks\<close> are the
  running tasks, each with the intent it executes and whether it holds an executor permit (it
  gives the permit up while it sleeps before a retry); \<open>ex_finished\<close> counts the finished tasks
  that \<^verbatim>\<open>join_next\<close> has not yielded yet.
\<close>

record intent_executor =
  ex_queue :: intent_queue
  ex_scheduler :: intent_scheduler
  ex_selected :: "outbox_intent_bundle option"
  ex_tasks :: "(outbox_intent_bundle \<times> bool) list"
  ex_finished :: nat
  ex_permits :: nat
  ex_retry_permits :: nat
  ex_needs_drain :: bool

definition new_executor :: "intent_queue \<Rightarrow> intent_executor" where
  "new_executor q = \<lparr>ex_queue = q, ex_scheduler = new_scheduler, ex_selected = None, ex_tasks = [],
     ex_finished = 0, ex_permits = MAX_EXECUTORS, ex_retry_permits = MAX_SLEEPING_RETRIERS,
     ex_needs_drain = False\<rparr>"

definition can_receive :: "intent_executor \<Rightarrow> bool" where
  "can_receive x =
     (let blocked = intents_blocked (ex_scheduler x)
      in blocked < SCHEDULER_CAPACITY \<or> (blocked < SCHEDULER_HARD_CAPACITY \<and> ex_permits x > 0))"

text \<open>
  The arms of the biased \<^verbatim>\<open>select!\<close> of \<^verbatim>\<open>next_scheduled_intent\<close>, in its order. An arm is taken only
  when the earlier ones are not ready; the capacity notification changes nothing.
\<close>

definition reap :: "intent_executor \<Rightarrow> intent_executor option" where
  "reap x = (if ex_selected x = None \<and> ex_finished x > 0
     then Some (x\<lparr>ex_finished := ex_finished x - 1, ex_needs_drain := True\<rparr>) else None)"

definition drain ::
    "((u64 \<times> nat) list \<Rightarrow> (u64 \<times> nat) list) \<Rightarrow> intent_executor \<Rightarrow> intent_executor option" where
  "drain order x =
     (if ex_selected x = None \<and> ex_finished x = 0 \<and> ex_needs_drain x then
        (let (intent, s) = pop_next_scheduled_intent order (ex_scheduler x) in
         Some (x\<lparr>ex_scheduler := s, ex_selected := intent,
                ex_needs_drain := (if intent = None then False else ex_needs_drain x)\<rparr>))
      else None)"

definition receive :: "outbox_loader \<Rightarrow> intent_executor \<Rightarrow> (outbox_intent_bundle option \<times> intent_executor) option"
where
  "receive load x =
     (if ex_selected x = None \<and> ex_finished x = 0 \<and> \<not> ex_needs_drain x \<and> can_receive x then
        (case poll_next load (ex_queue x) of
           (Ready (Some (Inr b)), q) \<Rightarrow>
             (let (intent, s) = schedule (ex_scheduler x) b in
              Some (Some b, x\<lparr>ex_queue := q, ex_scheduler := s, ex_selected := intent\<rparr>))
         | (Ready (Some (Inl _)), q) \<Rightarrow> Some (None, x\<lparr>ex_queue := q\<rparr>)
         | _ \<Rightarrow> None)
      else None)"

definition start :: "intent_executor \<Rightarrow> intent_executor option" where
  "start x =
     (case ex_selected x of
        None \<Rightarrow> None
      | Some b \<Rightarrow>
          if ex_permits x > 0
          then Some (x\<lparr>ex_selected := None, ex_permits := ex_permits x - 1,
                 ex_tasks := ex_tasks x @ [(b, True)]\<rparr>)
          else None)"

text \<open>
  A task sleeps before a retry and wakes again; the last event is the end of \<^verbatim>\<open>execute\<close>: the
  scheduler is told the outcome and the permit, if held, is released.
\<close>

definition sleep_task :: "nat \<Rightarrow> intent_executor \<Rightarrow> intent_executor option" where
  "sleep_task n x =
     (if n < length (ex_tasks x) \<and> snd (ex_tasks x ! n) \<and> ex_retry_permits x > 0
      then Some (x\<lparr>ex_tasks := (ex_tasks x)[n := (fst (ex_tasks x ! n), False)],
             ex_permits := ex_permits x + 1, ex_retry_permits := ex_retry_permits x - 1\<rparr>)
      else None)"

definition wake_task :: "nat \<Rightarrow> intent_executor \<Rightarrow> intent_executor option" where
  "wake_task n x =
     (if n < length (ex_tasks x) \<and> \<not> snd (ex_tasks x ! n) \<and> ex_permits x > 0
      then Some (x\<lparr>ex_tasks := (ex_tasks x)[n := (fst (ex_tasks x ! n), True)],
             ex_permits := ex_permits x - 1, ex_retry_permits := ex_retry_permits x + 1\<rparr>)
      else None)"

definition remove_nth :: "nat \<Rightarrow> 'a list \<Rightarrow> 'a list" where
  "remove_nth n xs = take n xs @ drop (Suc n) xs"

definition finish_task ::
    "nat \<Rightarrow> bool \<Rightarrow> intent_executor \<Rightarrow>
     (intent_executor \<times> (intent_scheduler_error, outbox_intent_bundle list) result) option" where
  "finish_task n is_err x =
     (if n < length (ex_tasks x) \<and> snd (ex_tasks x ! n) then
        (let intent = fst (ex_tasks x ! n);
             (s, verdict) =
               (if is_err then failed (ex_scheduler x) intent
                else let (s, r) = complete (ex_scheduler x) intent in (s, rbind r (\<lambda>_. Inr [])))
         in Some (x\<lparr>ex_scheduler := s, ex_tasks := remove_nth n (ex_tasks x),
                ex_permits := ex_permits x + 1, ex_finished := ex_finished x + 1\<rparr>, verdict))
      else None)"

section \<open>Retries of one task\<close>

text \<open>
  What happens around attempt \<open>a\<close>: whether a stop is seen at its two checks, the outcome of the
  runner, the reconciled intent, whether a retry slot is free, whether the stop comes during the
  sleep or the wait for a permit, and whether the semaphore is still open then.
\<close>

record 's attempt_env =
  stop_before :: "nat \<Rightarrow> bool"
  stop_after_reconcile :: "nat \<Rightarrow> bool"
  run_intent :: "nat \<Rightarrow> outbox_intent_bundle \<Rightarrow> 's intent_execution_result"
  reconcile_intent :: "nat \<Rightarrow> outbox_intent_bundle \<Rightarrow> outbox_intent_bundle"
  retry_slot_free :: "nat \<Rightarrow> bool"
  stop_in_backoff :: "nat \<Rightarrow> bool"
  executors_open :: "nat \<Rightarrow> bool"

function attempt_loop ::
    "'s attempt_env \<Rightarrow> bool \<Rightarrow> outbox_intent_bundle \<Rightarrow> nat \<Rightarrow>
     ('s intent_execution_result \<times> bool) option \<times> (nat \<times> 's intent_execution_result) list" where
  "attempt_loop env guard current done_attempts =
     (if stop_before env (done_attempts + 1) then (None, [])
      else
        let attempt = done_attempts + 1;
            current' = (if attempt > 1 then reconcile_intent env attempt current else current)
        in if stop_after_reconcile env attempt then (None, [])
        else let r = run_intent env attempt current' in
          if attempt \<ge> MAX_INTENT_ATTEMPTS \<or> \<not> is_retriable r guard then (Some (r, True), [(attempt, r)])
          else if \<not> retry_slot_free env attempt then (Some (r, True), [(attempt, r)])
          else if stop_in_backoff env attempt then (None, [(attempt, r)])
          else if \<not> executors_open env attempt then (Some (r, False), [(attempt, r)])
          else let (out, runs) = attempt_loop env guard current' attempt in (out, (attempt, r) # runs))"
  by pat_completeness auto
termination
  by (relation "measure (\<lambda>(env, guard, current, done_attempts). MAX_INTENT_ATTEMPTS - done_attempts)") auto

declare attempt_loop.simps [simp del]

definition execute_with_retries ::
    "'s attempt_env \<Rightarrow> outbox_intent_bundle \<Rightarrow>
     ('s intent_execution_result \<times> bool) option \<times> (nat \<times> 's intent_execution_result) list" where
  "execute_with_retries env intent =
     attempt_loop env (intent_pubkeys intent \<noteq> []) intent 0"

section \<open>Runs with their history\<close>

text \<open>
  The history of a run: the intents admitted from the stream, those started (taken by the main
  loop) and those whose outcome the scheduler was told, each in order. An admitted intent has
  distinct pubkeys, and its id is that of a live intent (a duplicate) or above every id admitted
  before; the recovery and the accept instruction produce such a stream.
\<close>

record history =
  h_admitted :: "outbox_intent_bundle list"
  h_started :: "outbox_intent_bundle list"
  h_settled :: "outbox_intent_bundle list"

definition in_flight :: "intent_executor \<Rightarrow> outbox_intent_bundle list" where
  "in_flight x = (case ex_selected x of None \<Rightarrow> [] | Some b \<Rightarrow> [b]) @ map fst (ex_tasks x)"

definition keyed :: "outbox_intent_bundle \<Rightarrow> bool" where
  "keyed b = (intent_pubkeys b \<noteq> [])"

definition intents_map :: "outbox_intent_bundle list \<Rightarrow> intent_map" where
  "intents_map bs = map_of (map (\<lambda>b. (intent_id b, b)) (filter keyed bs))"

definition exec_map :: "intent_executor \<Rightarrow> intent_map" where
  "exec_map x = intents_map (in_flight x)"

definition live_intents :: "intent_executor \<Rightarrow> intent_map" where
  "live_intents x = live (ex_scheduler x) (exec_map x)"

definition orderly :: "intent_executor \<Rightarrow> history \<Rightarrow> outbox_intent_bundle \<Rightarrow> bool" where
  "orderly x h b \<longleftrightarrow> distinct (intent_pubkeys b)
     \<and> (intent_id b \<in> dom (live_intents x) \<or> (\<forall>a \<in> set (h_admitted h). intent_id a < intent_id b))"

definition selected_list :: "intent_executor \<Rightarrow> outbox_intent_bundle list" where
  "selected_list x = (case ex_selected x of None \<Rightarrow> [] | Some b \<Rightarrow> [b])"

inductive exec_step ::
    "((u64 \<times> nat) list \<Rightarrow> (u64 \<times> nat) list) \<Rightarrow> outbox_loader \<Rightarrow>
     intent_executor \<times> history \<Rightarrow> intent_executor \<times> history \<Rightarrow> bool"
  for order load where
  step_reap: "reap x = Some x' \<Longrightarrow> exec_step order load (x, h) (x', h)"
| step_drain: "drain order x = Some x' \<Longrightarrow>
    exec_step order load (x, h) (x', h\<lparr>h_started := h_started h @ selected_list x'\<rparr>)"
| step_receive_error: "receive load x = Some (None, x') \<Longrightarrow> exec_step order load (x, h) (x', h)"
| step_receive: "receive load x = Some (Some b, x') \<Longrightarrow> orderly x h b \<Longrightarrow>
    exec_step order load (x, h)
      (x', h\<lparr>h_admitted := h_admitted h @ [b], h_started := h_started h @ selected_list x'\<rparr>)"
| step_start: "start x = Some x' \<Longrightarrow> exec_step order load (x, h) (x', h)"
| step_sleep: "sleep_task n x = Some x' \<Longrightarrow> exec_step order load (x, h) (x', h)"
| step_wake: "wake_task n x = Some x' \<Longrightarrow> exec_step order load (x, h) (x', h)"
| step_finish: "finish_task n is_err x = Some (x', v) \<Longrightarrow>
    exec_step order load (x, h) (x', h\<lparr>h_settled := h_settled h @ [fst (ex_tasks x ! n)]\<rparr>)"

inductive_cases exec_stepE: "exec_step order load s t"

definition shares_key :: "outbox_intent_bundle \<Rightarrow> outbox_intent_bundle \<Rightarrow> bool" where
  "shares_key b c \<longleftrightarrow> keys_of b \<inter> keys_of c \<noteq> {}"

definition nothing_ready :: "intent_executor \<Rightarrow> bool" where
  "nothing_ready x \<longleftrightarrow> (\<forall>i b. blocked_map (ex_scheduler x) i = Some b \<longrightarrow> \<not> is_head (live_intents x) i b)"

definition permits_ok :: "intent_executor \<Rightarrow> bool" where
  "permits_ok x \<longleftrightarrow> ex_permits x + length (filter snd (ex_tasks x)) = MAX_EXECUTORS
     \<and> ex_retry_permits x + length (filter (\<lambda>t. \<not> snd t) (ex_tasks x)) = MAX_SLEEPING_RETRIERS"

definition history_ok :: "intent_executor \<Rightarrow> history \<Rightarrow> bool" where
  "history_ok x h \<longleftrightarrow>
     ran (live_intents x) \<subseteq> set (h_admitted h)
     \<and> set (h_started h) \<subseteq> set (h_admitted h)
     \<and> (\<forall>b \<in> set (h_started h). \<forall>i c. blocked_map (ex_scheduler x) i = Some c \<longrightarrow> shares_key b c \<longrightarrow> intent_id b < i)
     \<and> sorted_wrt (\<lambda>b c. shares_key b c \<longrightarrow> intent_id b < intent_id c) (h_started h)
     \<and> set (h_started h) \<subseteq> set (in_flight x) \<union> set (h_settled h)"

definition exec_inv :: "intent_executor \<times> history \<Rightarrow> bool" where
  "exec_inv = (\<lambda>(x, h).
     sched_inv (ex_scheduler x) (exec_map x)
     \<and> distinct (map intent_id (filter keyed (in_flight x)))
     \<and> permits_ok x
     \<and> intents_blocked (ex_scheduler x) \<le> SCHEDULER_HARD_CAPACITY
     \<and> (\<not> ex_needs_drain x \<and> ex_finished x = 0 \<longrightarrow> nothing_ready x)
     \<and> history_ok x h)"

lemma exec_invD:
  assumes "exec_inv (x, h)"
  shows "sched_inv (ex_scheduler x) (exec_map x)" "distinct (map intent_id (filter keyed (in_flight x)))"
    "permits_ok x" "intents_blocked (ex_scheduler x) \<le> SCHEDULER_HARD_CAPACITY"
    "\<not> ex_needs_drain x \<Longrightarrow> ex_finished x = 0 \<Longrightarrow> nothing_ready x" "history_ok x h"
  using assms by (auto simp: exec_inv_def)

abbreviation distinct_ids :: "outbox_intent_bundle list \<Rightarrow> bool" where
  "distinct_ids bs \<equiv> distinct (map intent_id (filter keyed bs))"

lemma intents_map_iff:
  assumes "distinct_ids bs"
  shows "intents_map bs i = Some b \<longleftrightarrow> b \<in> set bs \<and> keyed b \<and> intent_id b = i"
proof -
  have "distinct (map fst (map (\<lambda>b. (intent_id b, b)) (filter keyed bs)))"
    using assms by (simp add: comp_def)
  then show ?thesis by (auto simp: intents_map_def map_of_eq_Some_iff)
qed

lemma intents_map_Cons [simp]:
  "intents_map (b # bs) = (if keyed b then (intents_map bs)(intent_id b \<mapsto> b) else intents_map bs)"
  by (simp add: intents_map_def)

lemma dom_intents_map: "dom (intents_map bs) = intent_id ` set (filter keyed bs)"
  by (simp add: intents_map_def dom_map_of_conv_image_fst image_image)

lemma intents_map_perm:
  assumes "mset bs' = mset bs" and "distinct_ids bs"
  shows "distinct_ids bs'" "intents_map bs' = intents_map bs"
proof -
  have "mset (map intent_id (filter keyed bs')) = mset (map intent_id (filter keyed bs))"
    using assms(1) by simp
  then show d: "distinct_ids bs'"
    using assms(2) mset_eq_imp_distinct_iff by blast
  show "intents_map bs' = intents_map bs"
    by (rule map_eqI) (simp add: intents_map_iff [OF d] intents_map_iff [OF assms(2)] mset_eq_setD [OF assms(1)])
qed

lemma sched_inv_poisoned: "sched_inv (s\<lparr>poisoned_keys := P\<rparr>) E \<longleftrightarrow> sched_inv s E"
  by (simp add: sched_inv_def live_def blocked_map_def)

lemma live_poisoned: "live (s\<lparr>poisoned_keys := P\<rparr>) E = live s E"
  by (simp add: live_def blocked_map_def)

lemma schedule_cases:
  assumes inv: "sched_inv s E" and dist: "distinct (intent_pubkeys b)"
    and ord: "intent_id b \<in> dom (live s E) \<or> (\<forall>j \<in> dom (live s E). j < intent_id b)"
  obtains (action) "intent_pubkeys b = []" "schedule s b = (Some b, s)"
  | (rejected) P where "schedule s b = (None, s\<lparr>poisoned_keys := P\<rparr>)"
  | (waits) "arrives s E b" "conflicts (live s E) b" "schedule s b = (None, held s b)"
  | (runs) "arrives s E b" "\<not> conflicts (live s E) b" "schedule s b = (Some b, enqueued s b)"
proof (cases "intent_pubkeys b = []")
  case True
  then show ?thesis using action by (simp add: schedule_def)
next
  case False
  have same: "s\<lparr>poisoned_keys := poisoned_keys s\<rparr> = s" by simp
  show ?thesis
  proof (cases "intent_id b \<in> dom (live s E)")
    case True
    then have "is_duplicate s (intent_id b)" using is_duplicate_iff [OF inv] by simp
    then show ?thesis using False rejected [of "poisoned_keys s"] same by (simp add: schedule_def)
  next
    case fresh: False
    then have arr: "arrives s E b" using ord dist False by (simp add: arrives_def)
    show ?thesis
    proof (cases "keys_of b \<inter> poisoned_keys s = {}")
      case True
      then show ?thesis using schedule_arrival [OF inv arr] arr waits runs by (cases "conflicts (live s E) b") auto
    next
      case poisoned: False
      have "\<not> is_duplicate s (intent_id b)" using is_duplicate_iff [OF inv] fresh by simp
      moreover have "list_ex (\<lambda>el. el \<in> poisoned_keys s) (intent_pubkeys b)"
        using poisoned by (auto simp: list_ex_iff)
      ultimately have "schedule s b = (None, s\<lparr>poisoned_keys := poisoned_keys s \<union> keys_of b\<rparr>)"
        using False by (simp add: schedule_def)
      then show ?thesis by (rule rejected)
    qed
  qed
qed

section \<open>Every event keeps the invariant\<close>

lemma exec_inv_tasks:
  assumes inv: "exec_inv (x, h)" and s: "ex_scheduler x' = ex_scheduler x"
    and m: "mset (in_flight x') = mset (in_flight x)" and p: "permits_ok x'"
    and d: "\<not> ex_needs_drain x' \<Longrightarrow> ex_finished x' = 0 \<Longrightarrow> \<not> ex_needs_drain x \<and> ex_finished x = 0"
  shows "exec_inv (x', h)"
proof -
  note i = exec_invD [OF inv] and q = intents_map_perm [OF m exec_invD(2) [OF inv], folded exec_map_def]
  have live: "live_intents x' = live_intents x" by (simp add: live_intents_def s q)
  have "history_ok x' h"
    using i(6) by (simp add: history_ok_def live s mset_eq_setD [OF m])
  moreover have "\<not> ex_needs_drain x' \<and> ex_finished x' = 0 \<longrightarrow> nothing_ready x'"
    using d i(5) by (simp add: nothing_ready_def live s)
  ultimately show ?thesis using i(1,4) q p by (simp add: exec_inv_def s)
qed

lemma reap_inv: "exec_inv (x, h) \<Longrightarrow> reap x = Some x' \<Longrightarrow> exec_inv (x', h)"
  by (rule exec_inv_tasks [of x])
     (auto simp: reap_def in_flight_def permits_ok_def dest: exec_invD(3) split: if_splits)

lemma start_inv: "exec_inv (x, h) \<Longrightarrow> start x = Some x' \<Longrightarrow> exec_inv (x', h)"
  by (rule exec_inv_tasks [of x])
     (auto simp: start_def in_flight_def permits_ok_def dest: exec_invD(3) split: if_splits option.splits)

lemma length_filter_update:
  assumes "n < length xs"
  shows "length (filter P (xs[n := y])) + (if P (xs ! n) then 1 else 0) =
    length (filter P xs) + (if P y then 1 else 0)"
proof -
  have "mset (xs[n := y]) + {#xs ! n#} = mset xs + {#y#}"
    using assms by (simp add: mset_update)
  then have "size (filter_mset P (mset (xs[n := y]) + {#xs ! n#})) = size (filter_mset P (mset xs + {#y#}))"
    by simp
  then show ?thesis by (simp add: mset_filter [symmetric] split: if_splits del: mset_filter)
qed

lemma in_flight_update:
  assumes "n < length (ex_tasks x)" and "fst y = fst (ex_tasks x ! n)"
  shows "map fst ((ex_tasks x)[n := y]) = map fst (ex_tasks x)"
  using assms by (metis list_update_id map_update nth_map)

lemma sleep_inv: "exec_inv (x, h) \<Longrightarrow> sleep_task n x = Some x' \<Longrightarrow> exec_inv (x', h)"
proof -
  assume inv: "exec_inv (x, h)" and s: "sleep_task n x = Some x'"
  have n: "n < length (ex_tasks x)" "snd (ex_tasks x ! n)" "ex_retry_permits x > 0"
    and x': "x' = x\<lparr>ex_tasks := (ex_tasks x)[n := (fst (ex_tasks x ! n), False)],
             ex_permits := ex_permits x + 1, ex_retry_permits := ex_retry_permits x - 1\<rparr>"
    using s by (auto simp: sleep_task_def split: if_splits)
  show ?thesis
  proof (rule exec_inv_tasks [OF inv])
    show "permits_ok x'"
      using exec_invD(3) [OF inv] n length_filter_update [OF n(1), of snd "(fst (ex_tasks x ! n), False)"]
        length_filter_update [OF n(1), of "\<lambda>t. \<not> snd t" "(fst (ex_tasks x ! n), False)"]
      by (simp add: permits_ok_def x')
    show "mset (in_flight x') = mset (in_flight x)"
      using in_flight_update [OF n(1), of "(fst (ex_tasks x ! n), False)"] by (simp add: in_flight_def x')
  qed (simp_all add: x')
qed

lemma wake_inv: "exec_inv (x, h) \<Longrightarrow> wake_task n x = Some x' \<Longrightarrow> exec_inv (x', h)"
proof -
  assume inv: "exec_inv (x, h)" and s: "wake_task n x = Some x'"
  have n: "n < length (ex_tasks x)" "\<not> snd (ex_tasks x ! n)" "ex_permits x > 0"
    and x': "x' = x\<lparr>ex_tasks := (ex_tasks x)[n := (fst (ex_tasks x ! n), True)],
             ex_permits := ex_permits x - 1, ex_retry_permits := ex_retry_permits x + 1\<rparr>"
    using s by (auto simp: wake_task_def split: if_splits)
  show ?thesis
  proof (rule exec_inv_tasks [OF inv])
    show "permits_ok x'"
      using exec_invD(3) [OF inv] n length_filter_update [OF n(1), of snd "(fst (ex_tasks x ! n), True)"]
        length_filter_update [OF n(1), of "\<lambda>t. \<not> snd t" "(fst (ex_tasks x ! n), True)"]
      by (simp add: permits_ok_def x')
    show "mset (in_flight x') = mset (in_flight x)"
      using in_flight_update [OF n(1), of "(fst (ex_tasks x ! n), True)"] by (simp add: in_flight_def x')
  qed (simp_all add: x')
qed

lemma hm_length_card: "hm_distinct m \<Longrightarrow> length m = card (dom (hm_get m))"
  using distinct_card [of "map fst m"] by (simp add: dom_map_of_conv_image_fst)

lemma blocked_shrinks:
  assumes "hm_distinct (blocked_intents s)" and "hm_distinct (blocked_intents s')"
    and "dom (hm_get (blocked_intents s')) \<subseteq> dom (hm_get (blocked_intents s))"
  shows "intents_blocked s' \<le> intents_blocked s"
  using assms by (simp add: intents_blocked_def hm_length_card card_mono finite_dom_map_of)

lemma drain_inv:
  assumes ord: "iteration_order order" and inv: "exec_inv (x, h)" and d: "drain order x = Some x'"
  shows "exec_inv (x', h\<lparr>h_started := h_started h @ selected_list x'\<rparr>)"
proof -
  note i = exec_invD [OF inv]
  obtain r s where pop: "pop_next_scheduled_intent order (ex_scheduler x) = (r, s)" by fastforce
  have pre: "ex_selected x = None" "ex_finished x = 0" "ex_needs_drain x"
    and x': "x' = x\<lparr>ex_scheduler := s, ex_selected := r,
        ex_needs_drain := (if r = None then False else ex_needs_drain x)\<rparr>"
    using d pop by (auto simp: drain_def split: if_splits)
  show ?thesis
  proof (cases r)
    case None
    note p = pop_None [OF i(1) ord pop [unfolded None]]
    have "exec_map x' = exec_map x" "live_intents x' = live_intents x" "in_flight x' = in_flight x"
      "ex_scheduler x' = ex_scheduler x"
      using x' None p(1) pre(1) by (simp_all add: exec_map_def in_flight_def live_intents_def)
    then show ?thesis
      using i p(2) x' None
      by (simp add: exec_inv_def permits_ok_def nothing_ready_def history_ok_def selected_list_def)
         (simp add: live_intents_def)
  next
    case (Some b)
    note p = pop_Some [OF i(1) ord pop [unfolded Some]]
    have f: "ex_scheduler x' = s" "ex_selected x' = Some b" "ex_tasks x' = ex_tasks x"
      "ex_permits x' = ex_permits x" "ex_retry_permits x' = ex_retry_permits x" "ex_needs_drain x'"
      using x' Some pre by simp_all
    have live: "live_intents x (intent_id b) = Some b"
      using p(2) by (auto simp: live_intents_def live_def map_add_def)
    have keyed: "keyed b"
      using wf_intentsD(3) [OF sched_invD(4) [OF i(1)], of "intent_id b" b] live
      by (simp add: keyed_def live_intents_def)
    have fl: "in_flight x' = b # in_flight x" using f pre(1) by (simp add: in_flight_def)
    have E: "exec_map x' = (exec_map x)(intent_id b \<mapsto> b)" using fl keyed by (simp add: exec_map_def)
    have L: "live_intents x' = live_intents x" using p(5) f by (simp add: live_intents_def E)
    have "intent_id b \<notin> dom (exec_map x)" using sched_invD(3) [OF i(1)] p(1) by auto
    then have dist: "distinct_ids (in_flight x')"
      using i(2) keyed fl by (simp add: exec_map_def dom_intents_map)
    have sub: "blocked_map s j = Some c \<Longrightarrow> blocked_map (ex_scheduler x) j = Some c \<and> j \<noteq> intent_id b" for j c
      using p(4) by (auto simp: blocked_map_def split: if_splits)
    have "intents_blocked s \<le> intents_blocked (ex_scheduler x)"
      using p(4) by (simp add: intents_blocked_def length_delete_le)
    moreover have "history_ok x' (h\<lparr>h_started := h_started h @ [b]\<rparr>)"
      unfolding history_ok_def
    proof (intro conjI ballI allI impI)
      show "ran (live_intents x') \<subseteq> set (h_admitted (h\<lparr>h_started := h_started h @ [b]\<rparr>))"
        using i(6) by (simp add: history_ok_def L)
      show "set (h_started (h\<lparr>h_started := h_started h @ [b]\<rparr>)) \<subseteq> set (h_admitted (h\<lparr>h_started := h_started h @ [b]\<rparr>))"
        using i(6) live by (auto simp: history_ok_def ran_def)
      show "sorted_wrt (\<lambda>b c. shares_key b c \<longrightarrow> intent_id b < intent_id c) (h_started (h\<lparr>h_started := h_started h @ [b]\<rparr>))"
        using i(6) p(2) by (auto simp: history_ok_def sorted_wrt_append)
      show "set (h_started (h\<lparr>h_started := h_started h @ [b]\<rparr>)) \<subseteq>
          set (in_flight x') \<union> set (h_settled (h\<lparr>h_started := h_started h @ [b]\<rparr>))"
        using i(6) fl by (auto simp: history_ok_def)
    next
      fix p' j c
      assume st: "p' \<in> set (h_started (h\<lparr>h_started := h_started h @ [b]\<rparr>))"
        and bl: "blocked_map (ex_scheduler x') j = Some c" and sh: "shares_key p' c"
      have bl': "blocked_map (ex_scheduler x) j = Some c" "j \<noteq> intent_id b" using sub [of j c] bl f by auto
      show "intent_id p' < j"
      proof (cases "p' = b")
        case True
        then obtain k where k: "k \<in> keys_of b" "k \<in> keys_of c" using sh by (auto simp: shares_key_def)
        have "j \<in> holders (live_intents x) k"
          using bl' k by (auto simp: holders_def live_intents_def live_def map_add_def)
        then have "intent_id b \<le> j" using p(3) k(1) by (auto simp: is_head_def live_intents_def)
        then show ?thesis using True bl'(2) by (metis order_le_imp_less_or_eq)
      next
        case False
        then show ?thesis using i(6) st bl' sh by (auto simp: history_ok_def)
      qed
    qed
    ultimately show ?thesis
      using i(3,4) p(6) dist f
      by (simp add: exec_inv_def E permits_ok_def selected_list_def)
  qed
qed

lemma is_head_upd_rev: "L i = None \<Longrightarrow> is_head (L(i \<mapsto> b)) j c \<Longrightarrow> is_head L j c"
  by (auto simp: is_head_def holders_upd split: if_splits)

text \<open>
  \<open>taken h x b\<close> is the history after admitting \<open>b\<close> in a step to \<open>x\<close>.
\<close>

definition taken :: "history \<Rightarrow> intent_executor \<Rightarrow> outbox_intent_bundle \<Rightarrow> history" where
  "taken h x b = h\<lparr>h_admitted := h_admitted h @ [b], h_started := h_started h @ selected_list x\<rparr>"

lemma taken_simps [simp]:
  "h_admitted (taken h x b) = h_admitted h @ [b]" "h_started (taken h x b) = h_started h @ selected_list x"
  "h_settled (taken h x b) = h_settled h"
  by (simp_all add: taken_def)

lemma receive_rejected_inv:
  assumes inv: "exec_inv (x, h)"
    and f: "ex_scheduler x' = (ex_scheduler x)\<lparr>poisoned_keys := P\<rparr>" "ex_selected x' = ex_selected x"
      "ex_tasks x' = ex_tasks x" "ex_permits x' = ex_permits x" "ex_retry_permits x' = ex_retry_permits x"
      "ex_finished x' = ex_finished x" "ex_needs_drain x' = ex_needs_drain x" "ex_selected x = None"
  shows "exec_inv (x', taken h x' b)"
proof -
  note i = exec_invD [OF inv]
  have E: "exec_map x' = exec_map x" and fl: "in_flight x' = in_flight x" and sel: "selected_list x' = []"
    using f by (simp_all add: exec_map_def in_flight_def selected_list_def)
  have L: "live_intents x' = live_intents x" by (simp add: live_intents_def E f live_poisoned)
  have B: "blocked_map (ex_scheduler x') = blocked_map (ex_scheduler x)"
    "intents_blocked (ex_scheduler x') = intents_blocked (ex_scheduler x)"
    by (simp_all add: f blocked_map_def intents_blocked_def)
  have "history_ok x' (taken h x' b)"
    using i(6) by (auto simp: history_ok_def L B fl sel)
  moreover have "sched_inv (ex_scheduler x') (exec_map x)" using i(1) by (simp add: f sched_inv_poisoned)
  ultimately show ?thesis
    using i f(2-8) by (simp add: exec_inv_def E fl B nothing_ready_def L permits_ok_def)
qed

lemma receive_action_inv:
  assumes inv: "exec_inv (x, h)" and b: "intent_pubkeys b = []"
    and f: "ex_scheduler x' = ex_scheduler x" "ex_selected x' = Some b"
      "ex_tasks x' = ex_tasks x" "ex_permits x' = ex_permits x" "ex_retry_permits x' = ex_retry_permits x"
      "ex_finished x' = ex_finished x" "ex_needs_drain x' = ex_needs_drain x" "ex_selected x = None"
  shows "exec_inv (x', taken h x' b)"
proof -
  note i = exec_invD [OF inv]
  have fl: "in_flight x' = b # in_flight x" and sel: "selected_list x' = [b]"
    using f by (simp_all add: in_flight_def selected_list_def)
  have nk: "\<not> keyed b" "\<not> shares_key c b" "\<not> shares_key b c" for c
    using b by (simp_all add: keyed_def shares_key_def)
  have E: "exec_map x' = exec_map x" using fl nk by (simp add: exec_map_def)
  have L: "live_intents x' = live_intents x" by (simp add: live_intents_def E f)
  have "history_ok x' (taken h x' b)"
    using i(6) nk by (auto simp: history_ok_def L f fl sel sorted_wrt_append)
  then show ?thesis
    using i f nk by (simp add: exec_inv_def E fl nothing_ready_def L permits_ok_def)
qed

lemma receive_waits_inv:
  assumes inv: "exec_inv (x, h)" and rec: "can_receive x"
    and arr: "arrives (ex_scheduler x) (exec_map x) b" and conf: "conflicts (live_intents x) b"
    and adm: "\<forall>a \<in> set (h_admitted h). intent_id a < intent_id b"
    and f: "ex_scheduler x' = held (ex_scheduler x) b" "ex_selected x' = ex_selected x"
      "ex_tasks x' = ex_tasks x" "ex_permits x' = ex_permits x" "ex_retry_permits x' = ex_retry_permits x"
      "ex_finished x' = ex_finished x" "ex_needs_drain x' = ex_needs_drain x" "ex_selected x = None"
  shows "exec_inv (x', taken h x' b)"
proof -
  note i = exec_invD [OF inv]
  let ?L = "live_intents x" and ?i = "intent_id b"
  have E: "exec_map x' = exec_map x" and fl: "in_flight x' = in_flight x" and sel: "selected_list x' = []"
    using f by (simp_all add: exec_map_def in_flight_def selected_list_def)
  note hi = held_inv [OF i(1) arr]
  have L: "live_intents x' = ?L(?i \<mapsto> b)" using hi(2) by (simp add: live_intents_def E f)
  have fresh: "?L ?i = None" and below: "\<forall>j \<in> dom ?L. j < ?i"
    using arr by (auto simp: arrives_def live_intents_def)
  have B: "blocked_map (ex_scheduler x') = (blocked_map (ex_scheduler x))(?i \<mapsto> b)"
    by (rule ext) (simp add: f held_def enqueued_def blocked_map_def)
  have "intents_blocked (ex_scheduler x') = Suc (intents_blocked (ex_scheduler x))"
  proof -
    have "hm_get (blocked_intents (ex_scheduler x)) ?i = None"
      using fresh live_blocked [of "ex_scheduler x" ?i _ "exec_map x"]
      by (cases "hm_get (blocked_intents (ex_scheduler x)) ?i") (auto simp: live_intents_def)
    then show ?thesis
      using sched_invD(2) [OF hi(1)] sched_invD(2) [OF i(1)]
      by (simp add: f intents_blocked_def hm_length_card held_def enqueued_def card_insert_if domIff
          finite_dom_map_of)
  qed
  then have cap: "intents_blocked (ex_scheduler x') \<le> SCHEDULER_HARD_CAPACITY"
    using rec i(4) by (auto simp: can_receive_def SCHEDULER_CAPACITY_def SCHEDULER_HARD_CAPACITY_def Let_def)
  have "nothing_ready x'" if "nothing_ready x"
  proof -
    have "\<not> is_head (?L(?i \<mapsto> b)) ?i b"
    proof -
      obtain k j where k: "k \<in> keys_of b" "j \<in> holders ?L k" using conf by (auto simp: conflicts_def)
      then have "j < ?i" "j \<in> holders (?L(?i \<mapsto> b)) k"
        using below holders_dom fresh by (auto simp: holders_upd)
      then show ?thesis using k(1) by (auto simp: is_head_def not_le)
    qed
    then show ?thesis
      using that by (auto simp: nothing_ready_def L B dest: is_head_upd_rev [where L = ?L, OF fresh] split: if_splits)
  qed
  moreover have "history_ok x' (taken h x' b)"
    using i(6) adm by (auto simp: history_ok_def L B fl sel ran_def split: if_splits)
  ultimately show ?thesis
    using i hi(1) [folded f(1)] f(2-8) cap by (simp add: exec_inv_def E fl permits_ok_def)
qed

lemma receive_runs_inv:
  assumes inv: "exec_inv (x, h)"
    and arr: "arrives (ex_scheduler x) (exec_map x) b" and free: "\<not> conflicts (live_intents x) b"
    and adm: "\<forall>a \<in> set (h_admitted h). intent_id a < intent_id b"
    and f: "ex_scheduler x' = enqueued (ex_scheduler x) b" "ex_selected x' = Some b"
      "ex_tasks x' = ex_tasks x" "ex_permits x' = ex_permits x" "ex_retry_permits x' = ex_retry_permits x"
      "ex_finished x' = ex_finished x" "ex_needs_drain x' = ex_needs_drain x" "ex_selected x = None"
  shows "exec_inv (x', taken h x' b)"
proof -
  note i = exec_invD [OF inv]
  let ?L = "live_intents x" and ?i = "intent_id b"
  have fl: "in_flight x' = b # in_flight x" and sel: "selected_list x' = [b]"
    using f by (simp_all add: in_flight_def selected_list_def)
  have keyed: "keyed b" using arr by (simp add: keyed_def arrives_def)
  have E: "exec_map x' = (exec_map x)(?i \<mapsto> b)" using fl keyed by (simp add: exec_map_def)
  note hi = enqueued_inv [OF i(1) arr free [unfolded live_intents_def]]
  have L: "live_intents x' = ?L(?i \<mapsto> b)" using hi(2) by (simp add: live_intents_def E f)
  have fresh: "?L ?i = None" using arr by (auto simp: arrives_def live_intents_def)
  then have dist: "distinct_ids (in_flight x')"
    using i(2) keyed fl dom_live [of "ex_scheduler x" "exec_map x"]
    by (auto simp: live_intents_def exec_map_def dom_intents_map domIff)
  have B: "blocked_map (ex_scheduler x') = blocked_map (ex_scheduler x)"
    "intents_blocked (ex_scheduler x') = intents_blocked (ex_scheduler x)"
    by (simp_all add: f enqueued_def blocked_map_def intents_blocked_def)
  have sep: "\<not> shares_key b c" if "blocked_map (ex_scheduler x) j = Some c" for j c
  proof
    assume "shares_key b c"
    then obtain k where "k \<in> keys_of b" "k \<in> keys_of c" by (auto simp: shares_key_def)
    moreover have "?L j = Some c" using that by (simp add: live_intents_def live_def map_add_def)
    ultimately show False using free by (auto simp: conflicts_def holders_def)
  qed
  have "nothing_ready x'" if "nothing_ready x"
    using that by (auto simp: nothing_ready_def L B dest: is_head_upd_rev [where L = ?L, OF fresh])
  moreover have "history_ok x' (taken h x' b)"
    using i(6) adm sep
    by (auto simp: history_ok_def L B fl sel ran_def sorted_wrt_append split: if_splits)
  ultimately show ?thesis
    using i hi(1) [folded f(1)] f(2-8) dist by (simp add: exec_inv_def E B permits_ok_def)
qed

lemma receive_cases:
  assumes "receive load x = Some (r, x')"
  obtains (pre) "ex_selected x = None" "can_receive x"
    "\<exists>q. (r = None \<and> x' = x\<lparr>ex_queue := q\<rparr>) \<or>
      (\<exists>b intent s. r = Some b \<and> schedule (ex_scheduler x) b = (intent, s)
         \<and> x' = x\<lparr>ex_queue := q, ex_scheduler := s, ex_selected := intent\<rparr>)"
proof -
  have g: "ex_selected x = None" "can_receive x" "ex_finished x = 0" "\<not> ex_needs_drain x"
    using assms by (auto simp: receive_def split: if_splits)
  obtain p q where poll: "poll_next load (ex_queue x) = (p, q)" by fastforce
  have "\<exists>item. p = Ready (Some item)" using assms g poll
    by (cases p) (auto simp: receive_def split: option.splits)
  then obtain item where item: "p = Ready (Some item)" ..
  have "\<exists>q. (r = None \<and> x' = x\<lparr>ex_queue := q\<rparr>) \<or>
      (\<exists>b intent s. r = Some b \<and> schedule (ex_scheduler x) b = (intent, s)
         \<and> x' = x\<lparr>ex_queue := q, ex_scheduler := s, ex_selected := intent\<rparr>)"
  proof (cases item)
    case (Inl e)
    then show ?thesis using assms g poll item by (auto simp: receive_def)
  next
    case (Inr b)
    obtain intent s where "schedule (ex_scheduler x) b = (intent, s)" by fastforce
    then show ?thesis using assms g poll item Inr by (auto simp: receive_def)
  qed
  with g that show ?thesis by blast
qed

lemma receive_error_inv:
  assumes inv: "exec_inv (x, h)" and r: "receive load x = Some (None, x')"
  shows "exec_inv (x', h)"
proof -
  obtain q where x': "x' = x\<lparr>ex_queue := q\<rparr>" using r by (auto elim: receive_cases)
  show ?thesis
    by (rule exec_inv_tasks [OF inv])
       (use exec_invD(3) [OF inv] in \<open>simp_all add: x' in_flight_def permits_ok_def\<close>)
qed

lemma receive_inv:
  assumes inv: "exec_inv (x, h)" and r: "receive load x = Some (Some b, x')" and ord: "orderly x h b"
  shows "exec_inv (x', taken h x' b)"
proof -
  note i = exec_invD [OF inv]
  obtain intent s q where sch: "schedule (ex_scheduler x) b = (intent, s)"
    and x': "x' = x\<lparr>ex_queue := q, ex_scheduler := s, ex_selected := intent\<rparr>"
    and pre: "ex_selected x = None" "can_receive x"
    using r by (auto elim: receive_cases)
  have below: "j < intent_id b" if "\<forall>a \<in> set (h_admitted h). intent_id a < intent_id b" "j \<in> dom (live_intents x)" for j
  proof -
    obtain c where "live_intents x j = Some c" using \<open>j \<in> dom (live_intents x)\<close> by auto
    moreover have "intent_id c = j"
      using wf_intentsD(1) [OF sched_invD(4) [OF i(1)], of j c] calculation by (simp add: live_intents_def)
    ultimately show ?thesis using that(1) i(6) by (auto simp: history_ok_def ran_def)
  qed
  have dist: "distinct (intent_pubkeys b)"
    and o: "intent_id b \<in> dom (live (ex_scheduler x) (exec_map x))
        \<or> (\<forall>j \<in> dom (live (ex_scheduler x) (exec_map x)). j < intent_id b)"
    using ord below by (auto simp: orderly_def live_intents_def)
  have adm: "\<forall>a \<in> set (h_admitted h). intent_id a < intent_id b"
    if "arrives (ex_scheduler x) (exec_map x) b"
    using ord that by (auto simp: orderly_def arrives_def live_intents_def)
  from i(1) dist o show ?thesis
  proof (cases rule: schedule_cases)
    case action
    then show ?thesis using sch x' pre receive_action_inv [OF inv action(1), of x'] by simp
  next
    case (rejected P)
    then show ?thesis using sch x' pre receive_rejected_inv [OF inv, of x' P b] by simp
  next
    case waits
    then show ?thesis
      using sch x' pre receive_waits_inv [OF inv pre(2) waits(1) _ adm [OF waits(1)], of x']
      by (simp add: live_intents_def)
  next
    case runs
    then show ?thesis
      using sch x' pre receive_runs_inv [OF inv runs(1) _ adm [OF runs(1)], of x']
      by (simp add: live_intents_def)
  qed
qed

lemma mset_remove_nth: "n < length xs \<Longrightarrow> mset xs = add_mset (xs ! n) (mset (remove_nth n xs))"
  by (subst id_take_nth_drop [of n xs]) (simp_all add: remove_nth_def)

lemma finish_settles:
  assumes inv: "sched_inv s E" and b: "E i = Some b"
  shows "\<exists>s' v. (if is_err then failed s b else let (s, r) = complete s b in (s, rbind r (\<lambda>_. Inr []))) = (s', Inr v)
    \<and> sched_inv s' (E(i := None))
    \<and> live s' (E(i := None)) \<subseteq>\<^sub>m live s E
    \<and> hm_get (blocked_intents s') \<subseteq>\<^sub>m hm_get (blocked_intents s)"
proof (cases is_err)
  case True
  then show ?thesis using failed_ok [OF inv b] by (auto simp: map_le_def)
next
  case False
  obtain s' where "complete s b = (s', Inr ())" "sched_inv s' (E(i := None))"
    "live s' (E(i := None)) = (live s E)(i := None)" "blocked_intents s' = blocked_intents s"
    using complete_ok [OF inv b] by blast
  then show ?thesis using False by (auto simp: map_le_def)
qed

lemma finish_action:
  "intent_pubkeys b = [] \<Longrightarrow>
     (if is_err then failed s b else let (s, r) = complete s b in (s, rbind r (\<lambda>_. Inr []))) = (s, Inr [])"
  by (simp add: failed_def complete_def)

lemma finish_effect:
  assumes inv: "exec_inv (x, h)" and f: "finish_task n is_err x = Some (x', v)"
  shows "\<exists>ps. v = Inr ps" "sched_inv (ex_scheduler x') (exec_map x')" "distinct_ids (in_flight x')"
    "live_intents x' \<subseteq>\<^sub>m live_intents x"
    "hm_get (blocked_intents (ex_scheduler x')) \<subseteq>\<^sub>m hm_get (blocked_intents (ex_scheduler x))"
    "mset (in_flight x) = add_mset (fst (ex_tasks x ! n)) (mset (in_flight x'))"
    "permits_ok x'" "ex_finished x' > 0"
proof -
  note i = exec_invD [OF inv]
  let ?b = "fst (ex_tasks x ! n)"
  obtain s where n: "n < length (ex_tasks x)" "snd (ex_tasks x ! n)"
    and sv: "(if is_err then failed (ex_scheduler x) ?b
        else let (s, r) = complete (ex_scheduler x) ?b in (s, rbind r (\<lambda>_. Inr []))) = (s, v)"
    and x': "x' = x\<lparr>ex_scheduler := s, ex_tasks := remove_nth n (ex_tasks x),
        ex_permits := ex_permits x + 1, ex_finished := ex_finished x + 1\<rparr>"
    using f by (auto simp: finish_task_def Let_def split: if_splits prod.splits)
  note m = mset_remove_nth [OF n(1)]
  show fl: "mset (in_flight x) = add_mset ?b (mset (in_flight x'))"
    using m by (simp add: in_flight_def x')
  have perm: "mset (?b # in_flight x') = mset (in_flight x)" using fl by simp
  note p = intents_map_perm [OF perm i(2)]
  show "distinct_ids (in_flight x')" using p(1) by (simp split: if_splits)
  have "size (filter_mset snd (mset (ex_tasks x))) = Suc (size (filter_mset snd (mset (remove_nth n (ex_tasks x)))))"
    "size (filter_mset (\<lambda>t. \<not> snd t) (mset (ex_tasks x))) =
      size (filter_mset (\<lambda>t. \<not> snd t) (mset (remove_nth n (ex_tasks x))))"
    using m n(2) by simp_all
  then show "permits_ok x'"
    using i(3) by (simp add: permits_ok_def x' mset_filter [symmetric] del: mset_filter)
  show "ex_finished x' > 0" by (simp add: x')
  have goal: "(\<exists>ps. v = Inr ps) \<and> sched_inv s (exec_map x') \<and> live s (exec_map x') \<subseteq>\<^sub>m live (ex_scheduler x) (exec_map x)
    \<and> hm_get (blocked_intents s) \<subseteq>\<^sub>m hm_get (blocked_intents (ex_scheduler x))"
  proof (cases "keyed ?b")
    case False
    then have "exec_map x' = exec_map x" using p(2) by (simp add: exec_map_def)
    moreover have "(s, v) = (ex_scheduler x, Inr [])"
      using trans [OF sv [symmetric] finish_action] False by (simp add: keyed_def)
    ultimately show ?thesis using i(1) by (auto simp: map_le_refl)
  next
    case True
    have upd: "exec_map x = (exec_map x')(intent_id ?b \<mapsto> ?b)" using p(2) True by (simp add: exec_map_def)
    moreover have "intent_id ?b \<notin> dom (exec_map x')"
      using p(1) True by (simp add: exec_map_def dom_intents_map)
    ultimately have E: "exec_map x' = (exec_map x)(intent_id ?b := None)" "exec_map x (intent_id ?b) = Some ?b"
      by (auto simp: fun_eq_iff domIff)
    show ?thesis using finish_settles [OF i(1) E(2), of is_err] sv by (auto simp: E(1))
  qed
  then show "\<exists>ps. v = Inr ps" "sched_inv (ex_scheduler x') (exec_map x')"
    "live_intents x' \<subseteq>\<^sub>m live_intents x"
    "hm_get (blocked_intents (ex_scheduler x')) \<subseteq>\<^sub>m hm_get (blocked_intents (ex_scheduler x))"
    by (simp_all add: live_intents_def) (simp_all add: x')
qed

lemma map_le_Some: "m \<subseteq>\<^sub>m n \<Longrightarrow> m k = Some v \<Longrightarrow> n k = Some v"
  by (metis domI map_le_def)

lemma finish_inv:
  assumes inv: "exec_inv (x, h)" and f: "finish_task n is_err x = Some (x', v)"
  shows "exec_inv (x', h\<lparr>h_settled := h_settled h @ [fst (ex_tasks x ! n)]\<rparr>)"
proof -
  note i = exec_invD [OF inv] and e = finish_effect [OF inv f]
  have ran: "ran (live_intents x') \<subseteq> ran (live_intents x)"
    using map_le_Some [OF e(4)] by (auto simp: ran_def)
  have bl: "blocked_map (ex_scheduler x) j = Some c" if "blocked_map (ex_scheduler x') j = Some c" for j c
    using that map_le_Some [OF e(5)] by (auto simp: blocked_map_def)
  have fl: "set (in_flight x) = insert (fst (ex_tasks x ! n)) (set (in_flight x'))"
    using e(6) by (metis set_mset_add_mset_insert set_mset_mset)
  have "history_ok x' (h\<lparr>h_settled := h_settled h @ [fst (ex_tasks x ! n)]\<rparr>)"
    using i(6) ran bl fl by (auto simp: history_ok_def)
  moreover have "intents_blocked (ex_scheduler x') \<le> SCHEDULER_HARD_CAPACITY"
    using blocked_shrinks [OF sched_invD(2) [OF i(1)] sched_invD(2) [OF e(2)]] map_le_implies_dom_le [OF e(5)] i(4)
    by simp
  ultimately show ?thesis using e by (simp add: exec_inv_def)
qed

lemma exec_step_inv:
  assumes ord: "iteration_order order" and inv: "exec_inv s" and step: "exec_step order load s t"
  shows "exec_inv t"
  using step inv
  by (cases rule: exec_step.cases)
     (auto intro: reap_inv start_inv sleep_inv wake_inv finish_inv receive_error_inv drain_inv [OF ord]
       receive_inv [unfolded taken_def])

lemma new_executor_inv: "exec_inv (new_executor q, \<lparr>h_admitted = [], h_started = [], h_settled = []\<rparr>)"
proof -
  have E: "exec_map (new_executor q) = Map.empty"
    by (simp add: exec_map_def in_flight_def new_executor_def intents_map_def)
  have s: "ex_scheduler (new_executor q) = new_scheduler" by (simp add: new_executor_def)
  have b: "blocked_map new_scheduler = Map.empty" by (auto simp: blocked_map_def new_scheduler_def)
  show ?thesis
    using new_scheduler_inv E s b
    by (simp add: exec_inv_def nothing_ready_def history_ok_def live_intents_def live_def)
       (simp add: new_executor_def in_flight_def permits_ok_def intents_blocked_def new_scheduler_def)
qed

definition initial_run :: "intent_executor \<times> history \<Rightarrow> bool" where
  "initial_run s \<longleftrightarrow> (\<exists>q. s = (new_executor q, \<lparr>h_admitted = [], h_started = [], h_settled = []\<rparr>))"

text \<open>
  The hash map's iteration order is fixed for a process; \<open>ordered_step\<close> is a step under a
  legitimate one.
\<close>

definition ordered_step :: "outbox_loader \<Rightarrow> intent_executor \<times> history \<Rightarrow> intent_executor \<times> history \<Rightarrow> bool" where
  "ordered_step load s t \<longleftrightarrow> (\<exists>order. iteration_order order \<and> exec_step order load s t)"

interpretation executor: invariant_system initial_run "ordered_step load" exec_inv for load
  by unfold_locales (auto simp: initial_run_def ordered_step_def intro: new_executor_inv exec_step_inv)

section \<open>Consequences of the invariant\<close>

lemma exclusive_list:
  assumes "distinct_ids bs"
    and "\<And>b c. b \<in> set bs \<Longrightarrow> c \<in> set bs \<Longrightarrow> shares_key b c \<Longrightarrow> intent_id b = intent_id c"
  shows "sorted_wrt (\<lambda>b c. \<not> shares_key b c) bs"
  using assms
proof (induction bs)
  case Nil
  then show ?case by simp
next
  case (Cons b bs)
  have "\<not> shares_key b c" if "c \<in> set bs" for c
  proof
    assume sh: "shares_key b c"
    then have "keyed b" "keyed c" by (auto simp: shares_key_def keyed_def)
    then show False using Cons.prems(1) Cons.prems(2) [of b c] sh that by auto
  qed
  moreover have "distinct_ids bs" using Cons.prems(1) by (simp split: if_splits)
  ultimately show ?case using Cons by simp
qed

lemma executing_share:
  assumes inv: "exec_inv (x, h)" and b: "b \<in> set (in_flight x)" and c: "c \<in> set (in_flight x)"
    and sh: "shares_key b c"
  shows "intent_id b = intent_id c"
proof -
  note i = exec_invD [OF inv]
  obtain k where k: "k \<in> keys_of b" "k \<in> keys_of c" using sh by (auto simp: shares_key_def)
  then have "exec_map x (intent_id b) = Some b" "exec_map x (intent_id c) = Some c"
    using b c by (auto simp: exec_map_def intents_map_iff [OF i(2)] keyed_def)
  note e = this live_executing [OF i(1) this(1)] live_executing [OF i(1) this(2)]
    sched_invD(7) [OF i(1) this(1)] sched_invD(7) [OF i(1) this(2)]
  have "intent_id b \<in> holders (live_intents x) k" "intent_id c \<in> holders (live_intents x) k"
    using e(3,4) k by (auto simp: holders_def live_intents_def)
  then show ?thesis using e(5,6) k by (intro antisym) (auto simp: is_head_def live_intents_def)
qed

lemma blocked_waits:
  assumes inv: "exec_inv (x, h)" and n: "nothing_ready x"
  shows "blocked_map (ex_scheduler x) i = Some b \<Longrightarrow>
    \<exists>c \<in> set (in_flight x). (depends (live_intents x))\<^sup>+\<^sup>+ (intent_id c) i"
proof (induction i arbitrary: b rule: less_induct)
  case (less i)
  note iv = exec_invD [OF inv]
  let ?L = "live_intents x"
  have "\<not> is_head ?L i b" using n less.prems by (auto simp: nothing_ready_def)
  then obtain k j where k: "k \<in> keys_of b" "j \<in> holders ?L k" "j < i"
    by (auto simp: is_head_def not_le)
  have "?L i = Some b" using less.prems by (simp add: live_intents_def live_def map_add_def)
  then have dep: "depends ?L j i" using k by (intro dependsI [of j i ?L k]) (auto simp: holders_def)
  obtain c where c: "?L j = Some c" using k(2) by (auto simp: holders_def)
  show ?case
  proof (cases "blocked_map (ex_scheduler x) j")
    case None
    then have "exec_map x j = Some c" using c by (simp add: live_intents_def live_def map_add_def)
    then have "c \<in> set (in_flight x)" "intent_id c = j"
      by (simp_all add: exec_map_def intents_map_iff [OF iv(2)])
    then show ?thesis using dep by blast
  next
    case (Some d)
    then obtain e where "e \<in> set (in_flight x)" "(depends ?L)\<^sup>+\<^sup>+ (intent_id e) j"
      using less.IH [OF k(3) Some] by blast
    then show ?thesis using dep by (meson tranclp.trancl_into_trancl)
  qed
qed

lemma failed_finish:
  assumes inv: "exec_inv (x, h)" and f: "finish_task n True x = Some (x', Inr ps)"
    and b: "b = fst (ex_tasks x ! n)" "intent_pubkeys b \<noteq> []"
  shows "intent_id ` set ps = voided (live_intents x) (intent_id b)"
    "sorted_wrt (<) (map intent_id ps)"
    "\<And>c. c \<in> set ps \<Longrightarrow> blocked_map (ex_scheduler x) (intent_id c) = Some c"
    "live_intents x' = live_intents x |` (- insert (intent_id b) (voided (live_intents x) (intent_id b)))"
    "poisoned_keys (ex_scheduler x') = poisoned_keys (ex_scheduler x) \<union> keys_of b \<union> (\<Union>c \<in> set ps. keys_of c)"
proof -
  note i = exec_invD [OF inv] and e = finish_effect [OF inv f]
  obtain s where s: "failed (ex_scheduler x) b = (s, Inr ps)" "ex_scheduler x' = s"
    and n: "n < length (ex_tasks x)"
    using f b by (auto simp: finish_task_def Let_def split: if_splits prod.splits)
  have "b \<in> set (in_flight x)" using n b(1) by (auto simp: in_flight_def)
  then have E: "exec_map x (intent_id b) = Some b"
    using b(2) by (simp add: exec_map_def intents_map_iff [OF i(2)] keyed_def)
  obtain s' p where p: "failed (ex_scheduler x) b = (s', Inr p)"
    "live s' ((exec_map x)(intent_id b := None)) =
       live (ex_scheduler x) (exec_map x) |` (- insert (intent_id b) (voided (live_intents x) (intent_id b)))"
    "intent_id ` set p = voided (live_intents x) (intent_id b)"
    "\<forall>c \<in> set p. blocked_map (ex_scheduler x) (intent_id c) = Some c" "sorted_wrt (<) (map intent_id p)"
    "poisoned_keys s' = poisoned_keys (ex_scheduler x) \<union> keys_of b \<union> (\<Union>c \<in> set p. keys_of c)"
    using failed_ok [OF i(1) E] by (auto simp: live_intents_def)
  have sp: "s' = s" "p = ps" using p(1) s(1) by auto
  have perm: "mset (b # in_flight x') = mset (in_flight x)" using e(6) b(1) by simp
  note q = intents_map_perm [OF perm i(2)]
  have "exec_map x = (exec_map x')(intent_id b \<mapsto> b)" "intent_id b \<notin> dom (exec_map x')"
    using q b(2) by (simp_all add: exec_map_def dom_intents_map keyed_def)
  then have "exec_map x' = (exec_map x)(intent_id b := None)" by (auto simp: fun_eq_iff domIff)
  then show "live_intents x' = live_intents x |` (- insert (intent_id b) (voided (live_intents x) (intent_id b)))"
    using p(2) s(2) sp by (simp add: live_intents_def)
  show "intent_id ` set ps = voided (live_intents x) (intent_id b)" "sorted_wrt (<) (map intent_id ps)"
    "\<And>c. c \<in> set ps \<Longrightarrow> blocked_map (ex_scheduler x) (intent_id c) = Some c"
    "poisoned_keys (ex_scheduler x') = poisoned_keys (ex_scheduler x) \<union> keys_of b \<union> (\<Union>c \<in> set ps. keys_of c)"
    using p(3-6) sp s(2) by auto
qed

lemma attempt_loop_spec:
  "attempt_loop env guard current k = (out, runs) \<Longrightarrow> k < MAX_INTENT_ATTEMPTS \<Longrightarrow>
     length runs \<le> MAX_INTENT_ATTEMPTS - k
     \<and> (\<forall>r \<in> set (butlast runs). is_retriable (snd r) guard)
     \<and> (\<forall>r permit. out = Some (r, permit) \<longrightarrow>
          runs \<noteq> [] \<and> r = snd (last runs) \<and> (\<not> permit \<longrightarrow> \<not> executors_open env (fst (last runs))))"
proof (induction env guard current k arbitrary: out runs rule: attempt_loop.induct)
  case (1 env guard current k)
  let ?a = "k + 1"
  let ?cur = "if ?a > 1 then reconcile_intent env ?a current else current"
  let ?r = "run_intent env ?a ?cur"
  show ?case
  proof (cases "stop_before env ?a \<or> stop_after_reconcile env ?a \<or> ?a \<ge> MAX_INTENT_ATTEMPTS
      \<or> \<not> is_retriable ?r guard \<or> \<not> retry_slot_free env ?a \<or> stop_in_backoff env ?a
      \<or> \<not> executors_open env ?a")
    case True
    have "attempt_loop env guard current k = (out, runs)" by (rule "1.prems"(1))
    then have "out = None \<and> runs = [] \<or> runs = [(?a, ?r)] \<and> (out = None \<or>
        (\<exists>permit. out = Some (?r, permit) \<and> (\<not> permit \<longrightarrow> \<not> executors_open env ?a)))"
      using True by (subst (asm) attempt_loop.simps) (cases "k = 0"; auto simp: Let_def split: if_splits)
    then show ?thesis using "1.prems"(2) by auto
  next
    case False
    obtain out' runs' where rec: "attempt_loop env guard ?cur ?a = (out', runs')" by fastforce
    have "attempt_loop env guard current k =
        (let (out, runs) = attempt_loop env guard ?cur ?a in (out, (?a, ?r) # runs))"
      using False by (subst attempt_loop.simps) (cases "k = 0"; simp add: Let_def)
    then have eq: "out = out'" "runs = (?a, ?r) # runs'" using "1.prems"(1) rec by simp_all
    have a: "?a < MAX_INTENT_ATTEMPTS" using False by simp
    have IH: "length runs' \<le> MAX_INTENT_ATTEMPTS - ?a"
      "\<forall>r \<in> set (butlast runs'). is_retriable (snd r) guard"
      "\<forall>r permit. out' = Some (r, permit) \<longrightarrow>
          runs' \<noteq> [] \<and> r = snd (last runs') \<and> (\<not> permit \<longrightarrow> \<not> executors_open env (fst (last runs')))"
      using "1.IH" [of ?a ?cur ?r out' runs'] False rec a by auto
    then show ?thesis using eq False a by auto
  qed
qed

section \<open>An example run\<close>

text \<open>
  Three intents on the accounts 10 and 20: the second waits for the first, the third for the
  second. \<open>example_state\<close> is the state in which the first runs and the others are blocked.
\<close>

definition example_queue :: "outbox_intent_bundle list \<Rightarrow> intent_queue" where
  "example_queue bs = \<lparr>iq_backlog = [], iq_channel = \<lparr>ch_buffer = bs, ch_capacity = 10,
     ch_receiver_open = True, ch_sender_open = True\<rparr>\<rparr>"

definition example_state ::
    "outbox_intent_bundle list \<Rightarrow> (pubkey \<times> u64 list) list \<Rightarrow> (u64 \<times> intent_meta) list \<Rightarrow>
     outbox_intent_bundle option \<Rightarrow> (outbox_intent_bundle \<times> bool) list \<Rightarrow> nat \<Rightarrow> intent_executor" where
  "example_state bs bk bi sel tasks permits =
     \<lparr>ex_queue = example_queue bs,
      ex_scheduler = \<lparr>blocked_keys = bk, blocked_intents = bi, poisoned_keys = {}\<rparr>,
      ex_selected = sel, ex_tasks = tasks, ex_finished = 0, ex_permits = permits,
      ex_retry_permits = 5000, ex_needs_drain = False\<rparr>"

abbreviation ex1 :: outbox_intent_bundle where "ex1 \<equiv> example_bundle 1 [10]"
abbreviation ex2 :: outbox_intent_bundle where "ex2 \<equiv> example_bundle 2 [10, 20]"
abbreviation ex3 :: outbox_intent_bundle where "ex3 \<equiv> example_bundle 3 [20]"

definition example_meta :: "outbox_intent_bundle \<Rightarrow> intent_meta" where
  "example_meta b = \<lparr>im_num_keys = length (intent_pubkeys b), im_intent = b\<rparr>"

abbreviation no_load :: outbox_loader where "no_load \<equiv> \<lambda>_. Inr None"

lemma example_receive:
  "receive no_load (example_state [ex1, ex2, ex3] [] [] None [] 50) =
     Some (Some ex1, example_state [ex2, ex3] [(10, [1])] [] (Some ex1) [] 50)"
  "receive no_load (example_state [ex2, ex3] [(10, [1])] [] None [(ex1, True)] 49) =
     Some (Some ex2, example_state [ex3] [(10, [1, 2]), (20, [2])] [(2, example_meta ex2)] None [(ex1, True)] 49)"
  "receive no_load (example_state [ex3] [(10, [1, 2]), (20, [2])] [(2, example_meta ex2)] None [(ex1, True)] 49) =
     Some (Some ex3, example_state [] [(10, [1, 2]), (20, [2, 3])]
       [(2, example_meta ex2), (3, example_meta ex3)] None [(ex1, True)] 49)"
  by (simp_all add: receive_def example_state_def example_queue_def can_receive_def intents_blocked_def
      SCHEDULER_CAPACITY_def SCHEDULER_HARD_CAPACITY_def poll_next_def schedule_def is_duplicate_def push_back_key_def
      example_meta_def Let_def hm_contains_def)

lemma example_start:
  "start (example_state [ex2, ex3] [(10, [1])] [] (Some ex1) [] 50) =
     Some (example_state [ex2, ex3] [(10, [1])] [] None [(ex1, True)] 49)"
  by (simp add: start_def example_state_def)

abbreviation example_final :: intent_executor where
  "example_final \<equiv> example_state [] [(10, [1, 2]), (20, [2, 3])]
     [(2, example_meta ex2), (3, example_meta ex3)] None [(ex1, True)] 49"

abbreviation example_history :: history where
  "example_history \<equiv> \<lparr>h_admitted = [ex1, ex2, ex3], h_started = [ex1], h_settled = []\<rparr>"

lemma ordered_stepI: "exec_step id load s t \<Longrightarrow> ordered_step load s t"
  unfolding ordered_step_def by (rule exI [of _ id]) (simp add: iteration_order_def)

lemma example_run:
  "initial_run (example_state [ex1, ex2, ex3] [] [] None [] 50, \<lparr>h_admitted = [], h_started = [], h_settled = []\<rparr>)"
  "(ordered_step no_load)\<^sup>*\<^sup>*
     (example_state [ex1, ex2, ex3] [] [] None [] 50, \<lparr>h_admitted = [], h_started = [], h_settled = []\<rparr>)
     (example_final, example_history)"
proof -
  let ?x0 = "example_state [ex1, ex2, ex3] [] [] None [] 50"
  let ?h0 = "\<lparr>h_admitted = [], h_started = [], h_settled = []\<rparr>"
  show "initial_run (?x0, ?h0)"
    by (auto simp: initial_run_def example_state_def new_executor_def new_scheduler_def
        MAX_EXECUTORS_def MAX_SLEEPING_RETRIERS_def)
  have o: "orderly x h b" if "distinct (intent_pubkeys b)" "\<forall>a \<in> set (h_admitted h). intent_id a < intent_id b" for x h b
    using that by (simp add: orderly_def)
  have 1: "ordered_step no_load (?x0, ?h0)
      (example_state [ex2, ex3] [(10, [1])] [] (Some ex1) [] 50, \<lparr>h_admitted = [ex1], h_started = [ex1], h_settled = []\<rparr>)"
    using step_receive [where load = no_load and order = id and h = ?h0, OF example_receive(1)] o [of ex1 ?h0]
    by (intro ordered_stepI) (simp add: selected_list_def example_state_def)
  have 2: "ordered_step no_load
      (example_state [ex2, ex3] [(10, [1])] [] (Some ex1) [] 50, h) (example_state [ex2, ex3] [(10, [1])] [] None [(ex1, True)] 49, h)" for h
    by (intro ordered_stepI step_start example_start)
  let ?h1 = "\<lparr>h_admitted = [ex1], h_started = [ex1], h_settled = []\<rparr>"
  have 3: "ordered_step no_load (example_state [ex2, ex3] [(10, [1])] [] None [(ex1, True)] 49, ?h1)
      (example_state [ex3] [(10, [1, 2]), (20, [2])] [(2, example_meta ex2)] None [(ex1, True)] 49,
       \<lparr>h_admitted = [ex1, ex2], h_started = [ex1], h_settled = []\<rparr>)"
    using step_receive [where load = no_load and order = id and h = ?h1, OF example_receive(2)] o [of ex2 ?h1]
    by (intro ordered_stepI) (simp add: selected_list_def example_state_def word_less_nat_alt)
  let ?h2 = "\<lparr>h_admitted = [ex1, ex2], h_started = [ex1], h_settled = []\<rparr>"
  have 4: "ordered_step no_load
      (example_state [ex3] [(10, [1, 2]), (20, [2])] [(2, example_meta ex2)] None [(ex1, True)] 49, ?h2)
      (example_final, example_history)"
    using step_receive [where load = no_load and order = id and h = ?h2, OF example_receive(3)] o [of ex3 ?h2]
    by (intro ordered_stepI) (simp add: selected_list_def example_state_def word_less_nat_alt)
  show "(ordered_step no_load)\<^sup>*\<^sup>* (?x0, ?h0) (example_final, example_history)"
    using 1 2 3 4 by (meson converse_rtranclp_into_rtranclp rtranclp.rtrancl_refl)
qed

section \<open>Properties\<close>

text \<open>
  Claim C1. Accounts are locked: in every reachable state of the worker, no two intents in
  flight (selected, running or sleeping before a retry) commit a common account.
\<close>

theorem exclusive_execution:
  assumes "initial_run s" and "(ordered_step load)\<^sup>*\<^sup>* s (x, h)"
  shows "sorted_wrt (\<lambda>b c. keys_of b \<inter> keys_of c = {}) (in_flight x)"
proof -
  have inv: "exec_inv (x, h)" using executor.reachable_inv assms .
  have "sorted_wrt (\<lambda>b c. \<not> shares_key b c) (in_flight x)"
    using exec_invD(2) [OF inv] executing_share [OF inv] by (rule exclusive_list)
  then show ?thesis by (simp add: shares_key_def)
qed

theorem exclusive_execution_witness:
  "sorted_wrt (\<lambda>b c. keys_of b \<inter> keys_of c = {}) (in_flight example_final) \<and> in_flight example_final = [ex1]"
  using exclusive_execution [OF example_run] by (simp add: in_flight_def example_state_def)

text \<open>
  Claim C2. Every account sees its intents in id order, whatever runs in parallel: of two
  intents with a common account, the one started first has the smaller id, and a started intent
  is still in flight or has been settled.
\<close>

theorem account_order:
  assumes "initial_run s" and "(ordered_step load)\<^sup>*\<^sup>* s (x, h)"
  shows "sorted_wrt (\<lambda>b c. keys_of b \<inter> keys_of c \<noteq> {} \<longrightarrow> intent_id b < intent_id c) (h_started h)
    \<and> set (h_started h) \<subseteq> set (in_flight x) \<union> set (h_settled h)"
proof -
  have "exec_inv (x, h)" using executor.reachable_inv assms .
  then show ?thesis using exec_invD(6) by (fastforce simp: history_ok_def shares_key_def)
qed

theorem account_order_witness:
  "set (h_started example_history) \<subseteq> set (in_flight example_final) \<union> set (h_settled example_history)
   \<and> h_started example_history = [ex1]"
  using account_order [OF example_run] by simp

text \<open>
  Claim C24. The scheduler is never found inconsistent: when a task ends, successfully or not, the
  scheduler accepts the outcome (the error branch of the worker is unreachable).
\<close>

theorem outcome_accepted:
  assumes "initial_run s" and "(ordered_step load)\<^sup>*\<^sup>* s (x, h)"
    and "finish_task n is_err x = Some (x', verdict)"
  shows "\<exists>voided_intents. verdict = Inr voided_intents"
proof -
  have "exec_inv (x, h)" using executor.reachable_inv assms(1,2) .
  then show ?thesis using finish_effect(1) assms(3) by blast
qed

lemma example_complete:
  "\<exists>x'. finish_task 0 False example_final = Some (x', Inr [])"
  by (simp add: finish_task_def example_state_def complete_def validate_executing_def front_def Let_def
      example_meta_def hm_contains_def)

theorem outcome_accepted_witness:
  "\<exists>x' v. finish_task 0 False example_final = Some (x', v) \<and> (\<exists>ps. v = Inr ps)"
proof -
  obtain x' where f: "finish_task 0 False example_final = Some (x', Inr [])" using example_complete by blast
  show ?thesis using outcome_accepted [OF example_run f] f by blast
qed

text \<open>
  Claim C14. No ready intent is forgotten: whenever the worker has nothing to reap and nothing to
  drain, every blocked intent waits, through a chain of intents with common accounts and
  ascending ids, for an intent in flight. In particular nothing is blocked when nothing is in
  flight.
\<close>

theorem blocked_waits_for_flight:
  assumes "initial_run s" and "(ordered_step load)\<^sup>*\<^sup>* s (x, h)"
    and "\<not> ex_needs_drain x" and "ex_finished x = 0" and "blocked_map (ex_scheduler x) i = Some b"
  shows "\<exists>c \<in> set (in_flight x). (depends (live_intents x))\<^sup>+\<^sup>+ (intent_id c) i"
proof -
  have inv: "exec_inv (x, h)" using executor.reachable_inv assms(1,2) .
  show ?thesis using blocked_waits [OF inv exec_invD(5) [OF inv assms(3,4)] assms(5)] .
qed

theorem blocked_waits_for_flight_witness:
  "(depends (live_intents example_final))\<^sup>+\<^sup>+ 1 3"
proof -
  have "blocked_map (ex_scheduler example_final) 3 = Some ex3"
    by (simp add: blocked_map_def example_state_def example_meta_def)
  from blocked_waits_for_flight [OF example_run _ _ this] show ?thesis
    by (simp add: example_state_def in_flight_def)
qed

text \<open>
  Claim C3. A failure voids exactly its dependents: when a task that commits accounts fails, the
  evicted intents are the blocked ones reachable from it through common accounts and ascending
  ids, reported in ascending order; every other live intent stays live, and the poisoned keys
  grow by the accounts of the failed and the voided intents and nothing else.
\<close>

theorem failure_voids_dependents:
  assumes "initial_run s" and "(ordered_step load)\<^sup>*\<^sup>* s (x, h)"
    and "finish_task n True x = Some (x', Inr ps)"
    and "b = fst (ex_tasks x ! n)" and "intent_pubkeys b \<noteq> []"
  shows "intent_id ` set ps = {j. (depends (live_intents x))\<^sup>+\<^sup>+ (intent_id b) j}
    \<and> sorted_wrt (<) (map intent_id ps)
    \<and> live_intents x' = live_intents x |` (- insert (intent_id b) (intent_id ` set ps))
    \<and> poisoned_keys (ex_scheduler x') =
        poisoned_keys (ex_scheduler x) \<union> keys_of b \<union> (\<Union>c \<in> set ps. keys_of c)"
proof -
  have inv: "exec_inv (x, h)" using executor.reachable_inv assms(1,2) .
  show ?thesis using failed_finish [OF inv assms(3-5)] by (simp add: voided_def)
qed

lemma example_failure:
  "\<exists>x'. finish_task 0 True example_final = Some (x', Inr [ex2, ex3])"
  by (simp add: finish_task_def example_state_def failed_def validate_executing_def front_def Let_def
      example_meta_def hm_contains_def bt_extend_def bt_insert_def binary_search_def binary_search_loop.simps word_less_nat_alt)

theorem failure_voids_dependents_witness:
  "{j. (depends (live_intents example_final))\<^sup>+\<^sup>+ 1 j} = {2, 3}"
proof -
  obtain x' where f: "finish_task 0 True example_final = Some (x', Inr [ex2, ex3])" using example_failure by blast
  have "ex1 = fst (ex_tasks example_final ! 0)" "intent_pubkeys ex1 \<noteq> []" by (simp_all add: example_state_def)
  from failure_voids_dependents [OF example_run f this] show ?thesis by simp
qed

text \<open>
  Claim C40. The worker's resources are bounded: at most 50 tasks hold an executor permit, at
  most 5000 sleep before a retry, and at most 6000 intents are blocked.
\<close>

theorem worker_bounds:
  assumes "initial_run s" and "(ordered_step load)\<^sup>*\<^sup>* s (x, h)"
  shows "length (filter snd (ex_tasks x)) \<le> 50 \<and> length (filter (\<lambda>t. \<not> snd t) (ex_tasks x)) \<le> 5000
    \<and> intents_blocked (ex_scheduler x) \<le> 6000"
proof -
  have inv: "exec_inv (x, h)" using executor.reachable_inv assms .
  show ?thesis
    using exec_invD(3,4) [OF inv]
    by (simp add: permits_ok_def MAX_EXECUTORS_def MAX_SLEEPING_RETRIERS_def SCHEDULER_HARD_CAPACITY_def)
qed

theorem worker_bounds_witness:
  "intents_blocked (ex_scheduler example_final) \<le> 6000 \<and> intents_blocked (ex_scheduler example_final) = 2"
  using worker_bounds [OF example_run] by (simp add: example_state_def intents_blocked_def)

text \<open>
  Claim C25. Retries are safe and few: an intent is executed at most three times, every execution
  but the last ended in a failure that may be retried (no commit confirmed, nothing submitted
  unresolved, no callback reported, a transient error, and for an intent without committed
  accounts not a failed send), the result returned is that of the last execution, and the
  executor permit is lost only when the semaphore was closed.
\<close>

theorem retries_safe:
  assumes "execute_with_retries env intent = (out, runs)"
  shows "length runs \<le> 3
    \<and> (\<forall>r \<in> set (butlast runs). \<exists>err. ier_inner (snd r) = Inl err \<and> executor_is_transient err
         \<and> ep_confirmed_commit (ier_progress (snd r)) = None
         \<and> (\<forall>sig. ep_transaction (ier_progress (snd r)) \<notin> {Submitted sig, Confirmed sig})
         \<and> \<not> ier_callbacks_reported (snd r)
         \<and> (intent_pubkeys intent = [] \<longrightarrow> \<not> is_failed_execution err))
    \<and> (\<forall>r permit. out = Some (r, permit) \<longrightarrow>
         runs \<noteq> [] \<and> r = snd (last runs) \<and> (\<not> permit \<longrightarrow> \<not> executors_open env (fst (last runs))))"
proof -
  have spec: "length runs \<le> MAX_INTENT_ATTEMPTS"
    "\<forall>r \<in> set (butlast runs). is_retriable (snd r) (intent_pubkeys intent \<noteq> [])"
    "\<forall>r permit. out = Some (r, permit) \<longrightarrow>
       runs \<noteq> [] \<and> r = snd (last runs) \<and> (\<not> permit \<longrightarrow> \<not> executors_open env (fst (last runs)))"
    using attempt_loop_spec [of env "intent_pubkeys intent \<noteq> []" intent 0 out runs] assms
    by (auto simp: execute_with_retries_def MAX_INTENT_ATTEMPTS_def)
  have retriable: "\<exists>err. ier_inner r = Inl err \<and> executor_is_transient err
      \<and> ep_confirmed_commit (ier_progress r) = None
      \<and> (\<forall>sig. ep_transaction (ier_progress r) \<notin> {Submitted sig, Confirmed sig})
      \<and> \<not> ier_callbacks_reported r \<and> (g = False \<longrightarrow> \<not> is_failed_execution err)"
    if "is_retriable r g" for r g
    using that by (auto simp: is_retriable_def can_retry_def split: sum.splits if_splits transaction_progress.splits)
  have "\<forall>r \<in> set (butlast runs). \<exists>err. ier_inner (snd r) = Inl err \<and> executor_is_transient err
      \<and> ep_confirmed_commit (ier_progress (snd r)) = None
      \<and> (\<forall>sig. ep_transaction (ier_progress (snd r)) \<notin> {Submitted sig, Confirmed sig})
      \<and> \<not> ier_callbacks_reported (snd r) \<and> (intent_pubkeys intent = [] \<longrightarrow> \<not> is_failed_execution err)"
  proof
    fix r
    assume "r \<in> set (butlast runs)"
    then have "is_retriable (snd r) (intent_pubkeys intent \<noteq> [])" using spec(2) by blast
    from retriable [OF this]
    show "\<exists>err. ier_inner (snd r) = Inl err \<and> executor_is_transient err
      \<and> ep_confirmed_commit (ier_progress (snd r)) = None
      \<and> (\<forall>sig. ep_transaction (ier_progress (snd r)) \<notin> {Submitted sig, Confirmed sig})
      \<and> \<not> ier_callbacks_reported (snd r) \<and> (intent_pubkeys intent = [] \<longrightarrow> \<not> is_failed_execution err)"
      by simp
  qed
  then show ?thesis using spec(1,3) by (simp add: MAX_INTENT_ATTEMPTS_def)
qed

definition example_env :: "unit attempt_env" where
  "example_env = \<lparr>stop_before = \<lambda>_. False, stop_after_reconcile = \<lambda>_. False,
     run_intent = \<lambda>a _. if a < 2
       then \<lparr>ier_inner = Inl (GetPendingSignatureStatusError (GetSlot \<lparr>ce_is_send_transaction = False, ce_kind = Kind_Other 0\<rparr>)),
             ier_progress = default_progress, ier_callbacks_reported = False\<rparr>
       else \<lparr>ier_inner = Inl PoisonedIntentError, ier_progress = default_progress, ier_callbacks_reported = False\<rparr>,
     reconcile_intent = \<lambda>_ b. b, retry_slot_free = \<lambda>_. True, stop_in_backoff = \<lambda>_. False,
     executors_open = \<lambda>_. True\<rparr>"

theorem retries_safe_witness:
  "\<exists>out runs. execute_with_retries example_env ex1 = (out, runs) \<and> length runs = 2 \<and> length runs \<le> 3"
proof -
  obtain out runs where e: "execute_with_retries example_env ex1 = (out, runs)" by fastforce
  have "length runs = 2"
    using e by (auto simp: execute_with_retries_def example_env_def attempt_loop.simps Let_def
        MAX_INTENT_ATTEMPTS_def is_retriable_def can_retry_def default_progress_def)
  then show ?thesis using retries_safe [OF e] e by blast
qed

end
