(* ===== verification/Chunk_Tracker.thy ===== *)
theory Chunk_Tracker
  imports Prelude
begin

text \<open>
  The bitfield that records which chunks of a buffer have been written
  (\<^verbatim>\<open>programs/committor-interface/src/state/chunks.rs\<close>). A tracker is abstracted to the set of
  delivered indices; the locale \<open>delivery_tracker\<close> is the contract its clients rely on. An
  operation that may panic returns an option, and \<open>None\<close> is the panic.
\<close>

unbundle bit_operations_syntax

section \<open>The bitfield\<close>

definition BITS_PER_BYTE :: nat where
  "BITS_PER_BYTE = 8"

definition MAX_ACCOUNT_ALLOC_PER_INSTRUCTION_SIZE :: u16 where
  "MAX_ACCOUNT_ALLOC_PER_INSTRUCTION_SIZE = 10240"

record chunks =
  ck_bits :: "u8 list"
  ck_count :: nat
  ck_chunk_size :: u16

datatype chunks_error = OutOfBoundsError | InvalidOffsetError nat u16

definition count_to_bitfield_bytes :: "nat \<Rightarrow> nat" where
  "count_to_bitfield_bytes count = div_ceil count BITS_PER_BYTE"

definition struct_size :: "nat \<Rightarrow> nat" where
  "struct_size count = 4 + count_to_bitfield_bytes count + 8 + 2"

definition serialized_size :: "chunks \<Rightarrow> nat" where
  "serialized_size c = struct_size (ck_count c)"

definition chunks_new :: "nat \<Rightarrow> u16 \<Rightarrow> chunks option" where
  "chunks_new chunk_count chunk_size =
     (if struct_size chunk_count < unat MAX_ACCOUNT_ALLOC_PER_INSTRUCTION_SIZE
      then Some \<lparr>ck_bits = replicate (count_to_bitfield_bytes chunk_count) 0,
                 ck_count = chunk_count, ck_chunk_size = chunk_size\<rparr>
      else None)"

text \<open>A chunk size of zero makes \<^verbatim>\<open>div_ceil\<close> panic.\<close>

definition from_data_length :: "nat \<Rightarrow> u16 \<Rightarrow> chunks option" where
  "from_data_length data_len chunk_size =
     (if chunk_size = 0 then None
      else chunks_new (div_ceil data_len (unat chunk_size)) chunk_size)"

text \<open>\<^verbatim>\<open>self.bits[vec_idx]\<close> panics when the index is out of range.\<close>

definition is_chunk_delivered :: "chunks \<Rightarrow> nat \<Rightarrow> bool option option" where
  "is_chunk_delivered c idx =
     (if idx \<ge> ck_count c then Some None
      else
        let vec_idx = idx div BITS_PER_BYTE; bit_idx = idx mod BITS_PER_BYTE
        in if vec_idx < length (ck_bits c)
           then Some (Some (ck_bits c ! vec_idx AND push_bit bit_idx 1 \<noteq> 0))
           else None)"

definition set_chunk_delivered :: "chunks \<Rightarrow> nat \<Rightarrow> (chunks_error, chunks) result option" where
  "set_chunk_delivered c idx =
     (if idx < ck_count c then
        let vec_idx = idx div BITS_PER_BYTE; bit_idx = idx mod BITS_PER_BYTE
        in if vec_idx < length (ck_bits c)
           then Some (Inr (c\<lparr>ck_bits := (ck_bits c)[vec_idx := ck_bits c ! vec_idx OR push_bit bit_idx 1]\<rparr>))
           else None
      else Some (Inl OutOfBoundsError))"

definition set_offset_delivered :: "chunks \<Rightarrow> nat \<Rightarrow> (chunks_error, chunks) result option" where
  "set_offset_delivered c offset =
     (if ck_chunk_size c = 0 then None
      else if offset mod unat (ck_chunk_size c) \<noteq> 0
      then Some (Inl (InvalidOffsetError offset (ck_chunk_size c)))
      else set_chunk_delivered c (offset div unat (ck_chunk_size c)))"

definition is_offset_delivered :: "chunks \<Rightarrow> nat \<Rightarrow> (chunks_error, bool) result option" where
  "is_offset_delivered c offset =
     (if ck_chunk_size c = 0 then None
      else if offset mod unat (ck_chunk_size c) \<noteq> 0
      then Some (Inl (InvalidOffsetError offset (ck_chunk_size c)))
      else map_option (\<lambda>delivered. ok_or delivered OutOfBoundsError)
             (is_chunk_delivered c (offset div unat (ck_chunk_size c))))"

text \<open>\<^verbatim>\<open>expect\<close> panics on \<^verbatim>\<open>None\<close>, as the indexing inside may.\<close>

definition get_missing_chunks :: "chunks \<Rightarrow> nat set option" where
  "get_missing_chunks c =
     (if list_all (\<lambda>i. \<exists>b. is_chunk_delivered c i = Some (Some b)) [0..<ck_count c]
      then Some (set (filter (\<lambda>i. is_chunk_delivered c i = Some (Some False)) [0..<ck_count c]))
      else None)"

definition is_complete :: "chunks \<Rightarrow> bool option" where
  "is_complete c = map_option (\<lambda>missing. missing = {}) (get_missing_chunks c)"

fun set_flags :: "chunks \<Rightarrow> nat \<Rightarrow> bool list \<Rightarrow> chunks option" where
  "set_flags c i [] = Some c"
| "set_flags c i (d # ds) =
     (if d then
        (case set_chunk_delivered c i of
           Some (Inr c') \<Rightarrow> set_flags c' (Suc i) ds
         | _ \<Rightarrow> None)
      else set_flags c (Suc i) ds)"

definition chunks_from_flags :: "bool list \<Rightarrow> u16 \<Rightarrow> chunks option" where
  "chunks_from_flags flags chunk_size =
     Option.bind (chunks_new (length flags) chunk_size) (\<lambda>c. set_flags c 0 flags)"

section \<open>The set of delivered chunks\<close>

definition chunks_ok :: "chunks \<Rightarrow> bool" where
  "chunks_ok c = (length (ck_bits c) = count_to_bitfield_bytes (ck_count c))"

definition delivered :: "chunks \<Rightarrow> nat set" where
  "delivered c = {i. i < ck_count c \<and> bit (ck_bits c ! (i div 8)) (i mod 8)}"

lemma div_ceil_index: "i < n \<Longrightarrow> i div 8 < div_ceil n 8"
  by (auto simp: div_ceil_def Let_def)

lemma chunks_ok_index: "chunks_ok c \<Longrightarrow> i < ck_count c \<Longrightarrow> i div 8 < length (ck_bits c)"
  by (simp add: chunks_ok_def count_to_bitfield_bytes_def BITS_PER_BYTE_def div_ceil_index)

lemma mask_bit_nonzero: "(w :: u8) AND 2 ^ n = 0 \<longleftrightarrow> \<not> (n < 8 \<and> bit w n)"
proof -
  have "w AND 2 ^ n = (if n < 8 \<and> bit w n then 2 ^ n else 0)"
    by (rule bit_word_eqI) (auto simp: bit_simps)
  moreover have "n < 8 \<Longrightarrow> (2 :: u8) ^ n \<noteq> 0"
    by simp
  ultimately show ?thesis by simp
qed

lemma is_chunk_delivered_eq:
  "chunks_ok c \<Longrightarrow> is_chunk_delivered c i = Some (if i < ck_count c then Some (i \<in> delivered c) else None)"
  by (auto simp: is_chunk_delivered_def chunks_ok_index BITS_PER_BYTE_def delivered_def Let_def
      mask_bit_nonzero)

lemma bit_set_flag:
  "i div 8 < length bs \<Longrightarrow>
     bit (bs[i div 8 := bs ! (i div 8) OR push_bit (i mod 8) (1 :: u8)] ! (j div 8)) (j mod 8)
     \<longleftrightarrow> j = i \<or> bit (bs ! (j div 8)) (j mod 8)"
  by (cases "i div 8 = j div 8") (auto simp: bit_simps nth_list_update, (metis div_mult_mod_eq)+)

lemma set_chunk_delivered_ok:
  assumes "chunks_ok c" and "i < ck_count c"
  obtains c' where "set_chunk_delivered c i = Some (Inr c')" "chunks_ok c'"
    "delivered c' = insert i (delivered c)" "ck_count c' = ck_count c" "ck_chunk_size c' = ck_chunk_size c"
proof -
  let ?c' = "c\<lparr>ck_bits := (ck_bits c)[i div 8 := ck_bits c ! (i div 8) OR push_bit (i mod 8) 1]\<rparr>"
  have "set_chunk_delivered c i = Some (Inr ?c')"
    using assms chunks_ok_index [OF assms] by (simp add: set_chunk_delivered_def BITS_PER_BYTE_def Let_def)
  moreover have "delivered ?c' = insert i (delivered c)"
    using assms(2) bit_set_flag [OF chunks_ok_index [OF assms]] by (auto simp: delivered_def)
  moreover have "chunks_ok ?c'" using assms(1) by (simp add: chunks_ok_def)
  ultimately show thesis using that by simp
qed

lemma set_chunk_delivered_Inr:
  assumes "chunks_ok c" and "set_chunk_delivered c i = Some (Inr c')"
  shows "i < ck_count c" "chunks_ok c'" "delivered c' = insert i (delivered c)" "ck_count c' = ck_count c"
    "ck_chunk_size c' = ck_chunk_size c"
proof -
  show i: "i < ck_count c" using assms(2) by (auto simp: set_chunk_delivered_def split: if_splits)
  from set_chunk_delivered_ok [OF assms(1) i] assms(2)
  show "chunks_ok c'" "delivered c' = insert i (delivered c)" "ck_count c' = ck_count c"
    "ck_chunk_size c' = ck_chunk_size c" by (metis option.inject sum.inject(2))+
qed

lemma chunks_new_ok:
  assumes "chunks_new n s = Some c"
  shows "chunks_ok c" "delivered c = {}" "ck_count c = n" "ck_chunk_size c = s"
  using assms div_ceil_index [of _ n]
  by (auto simp: chunks_new_def chunks_ok_def delivered_def count_to_bitfield_bytes_def BITS_PER_BYTE_def
      split: if_splits)

lemma get_missing_chunks_eq:
  "chunks_ok c \<Longrightarrow> get_missing_chunks c = Some ({..<ck_count c} - delivered c)"
  by (auto simp: get_missing_chunks_def is_chunk_delivered_eq list_all_iff)

lemma is_complete_eq: "chunks_ok c \<Longrightarrow> is_complete c = Some ({..<ck_count c} \<subseteq> delivered c)"
  by (auto simp: is_complete_def get_missing_chunks_eq)

lemma serialized_size_eq: "chunks_ok c \<Longrightarrow> serialized_size c = 14 + length (ck_bits c)"
  by (simp add: serialized_size_def struct_size_def chunks_ok_def)

section \<open>The contract of a tracker\<close>

text \<open>
  What a client of a tracker relies on: \<open>mark\<close> adds one index below the size and changes nothing
  else, \<open>marked\<close> answers for every index below the size and \<open>missing\<close> is the complement.
\<close>

locale delivery_tracker =
  fixes ok :: "'c \<Rightarrow> bool"
    and capacity :: "'c \<Rightarrow> nat"
    and items :: "'c \<Rightarrow> nat set"
    and mark :: "'c \<Rightarrow> nat \<Rightarrow> ('e, 'c) result option"
    and marked :: "'c \<Rightarrow> nat \<Rightarrow> bool option option"
    and missing :: "'c \<Rightarrow> nat set option"
  assumes mark_inside: "ok c \<Longrightarrow> i < capacity c \<Longrightarrow>
      \<exists>c'. mark c i = Some (Inr c') \<and> ok c' \<and> capacity c' = capacity c \<and> items c' = insert i (items c)"
    and mark_outside: "ok c \<Longrightarrow> i \<ge> capacity c \<Longrightarrow> \<exists>e. mark c i = Some (Inl e)"
    and marked_iff: "ok c \<Longrightarrow> marked c i = Some (if i < capacity c then Some (i \<in> items c) else None)"
    and missing_eq: "ok c \<Longrightarrow> missing c = Some ({..<capacity c} - items c)"
begin

fun mark_all :: "'c \<Rightarrow> nat list \<Rightarrow> 'c option" where
  "mark_all c [] = Some c"
| "mark_all c (i # is) =
     (case mark c i of
        Some (Inr c') \<Rightarrow> mark_all c' is
      | Some (Inl _) \<Rightarrow> mark_all c is
      | None \<Rightarrow> None)"

lemma mark_all_items:
  "ok c \<Longrightarrow> \<exists>c'. mark_all c is = Some c' \<and> ok c' \<and> capacity c' = capacity c
     \<and> items c' = items c \<union> (set is \<inter> {..<capacity c})"
proof (induction "is" arbitrary: c)
  case (Cons i "is")
  show ?case
  proof (cases "i < capacity c")
    case True
    obtain c1 where "mark c i = Some (Inr c1)" "ok c1" "capacity c1 = capacity c" "items c1 = insert i (items c)"
      using mark_inside [OF Cons.prems True] by blast
    then show ?thesis using Cons.IH [of c1] True by auto
  next
    case False
    obtain e where "mark c i = Some (Inl e)" using mark_outside [OF Cons.prems, of i] False by auto
    then show ?thesis using Cons.IH [OF Cons.prems] False by auto
  qed
qed simp

text \<open>Marking in any order, with repetitions and indices out of range, misses exactly the rest.\<close>

lemma mark_all_missing:
  assumes "ok c" and "items c = {}"
  shows "\<exists>c'. mark_all c is = Some c' \<and> missing c' = Some ({..<capacity c} - set is)"
proof -
  obtain c' where c': "mark_all c is = Some c'" "ok c'" "capacity c' = capacity c"
    "items c' = set is \<inter> {..<capacity c}"
    using mark_all_items [OF assms(1), of "is"] assms(2) by auto
  then show ?thesis using missing_eq [OF c'(2)] by auto
qed

end

interpretation tracker: delivery_tracker chunks_ok ck_count delivered set_chunk_delivered
  is_chunk_delivered get_missing_chunks
proof
  fix c i
  assume "chunks_ok c" "i < ck_count c"
  from set_chunk_delivered_ok [OF this]
  show "\<exists>c'. set_chunk_delivered c i = Some (Inr c') \<and> chunks_ok c' \<and> ck_count c' = ck_count c
      \<and> delivered c' = insert i (delivered c)" by metis
qed (simp_all add: set_chunk_delivered_def is_chunk_delivered_eq get_missing_chunks_eq)

section \<open>Reading the flags back\<close>

lemma set_flags_ok:
  "chunks_ok c \<Longrightarrow> i + length ds \<le> ck_count c \<Longrightarrow>
     \<exists>c'. set_flags c i ds = Some c' \<and> chunks_ok c' \<and> ck_count c' = ck_count c
       \<and> delivered c' = delivered c \<union> {i + j | j. j < length ds \<and> ds ! j}"
proof (induction ds arbitrary: c i)
  case (Cons d ds)
  have split: "{i + j | j. j < length (d # ds) \<and> (d # ds) ! j} =
      (if d then {i} else {}) \<union> {Suc i + j | j. j < length ds \<and> ds ! j}" (is "?A = ?B")
  proof
    show "?A \<subseteq> ?B"
    proof
      fix x assume "x \<in> ?A"
      then obtain j where "x = i + j" "j < Suc (length ds)" "(d # ds) ! j" by auto
      then show "x \<in> ?B" by (cases j) auto
    qed
    show "?B \<subseteq> ?A"
    proof
      fix x assume "x \<in> ?B"
      then consider "d" "x = i" | j where "x = Suc i + j" "j < length ds" "ds ! j"
        by (auto split: if_splits)
      then show "x \<in> ?A"
      proof cases
        case 1 then show ?thesis by (auto intro: exI [of _ 0])
      next
        case 2 then show ?thesis by (auto intro!: exI [of _ "Suc j"])
      qed
    qed
  qed
  show ?case
  proof (cases d)
    case True
    obtain c1 where c1: "set_chunk_delivered c i = Some (Inr c1)" "chunks_ok c1"
      "delivered c1 = insert i (delivered c)" "ck_count c1 = ck_count c"
      using set_chunk_delivered_ok [OF Cons.prems(1), of i] Cons.prems(2) by auto
    have "Suc i + length ds \<le> ck_count c1" using Cons.prems(2) c1(4) by simp
    from Cons.IH [OF c1(2) this] c1 True show ?thesis unfolding split by auto
  next
    case False
    have "Suc i + length ds \<le> ck_count c" using Cons.prems(2) by simp
    from Cons.IH [OF Cons.prems(1) this] False show ?thesis unfolding split by simp
  qed
qed auto

lemma chunks_from_flags_ok:
  assumes "chunks_new (length flags) s = Some c0"
  shows "\<exists>c. chunks_from_flags flags s = Some c \<and> chunks_ok c \<and> ck_count c = length flags
    \<and> delivered c = {i. i < length flags \<and> flags ! i}"
  using set_flags_ok [OF chunks_new_ok(1) [OF assms], of 0 flags] chunks_new_ok [OF assms] assms
  by (auto simp: chunks_from_flags_def)

text \<open>
  Claim C30. Storing flags in the bitfield and reading them back gives the same flags: for every
  list that the tracker accepts, each index below its length answers its own flag, every other
  index answers nothing, and the missing chunks are the indices of the false flags.
\<close>

theorem chunk_flags_round_trip:
  assumes "struct_size (length flags) < 10240"
  shows "\<exists>c. chunks_from_flags flags s = Some c
    \<and> (\<forall>i. is_chunk_delivered c i = Some (if i < length flags then Some (flags ! i) else None))
    \<and> get_missing_chunks c = Some {i. i < length flags \<and> \<not> flags ! i}"
proof -
  have "\<exists>c0. chunks_new (length flags) s = Some c0"
    using assms by (simp add: chunks_new_def MAX_ACCOUNT_ALLOC_PER_INSTRUCTION_SIZE_def)
  then obtain c where "chunks_from_flags flags s = Some c" "chunks_ok c" "ck_count c = length flags"
    "delivered c = {i. i < length flags \<and> flags ! i}"
    using chunks_from_flags_ok by blast
  then show ?thesis by (auto simp: is_chunk_delivered_eq get_missing_chunks_eq)
qed

theorem chunk_flags_round_trip_witness:
  "\<exists>c. chunks_from_flags [True, False, True] 128 = Some c \<and> get_missing_chunks c = Some {1}"
proof -
  have size: "struct_size (length [True, False, True]) < 10240"
    by (simp add: struct_size_def count_to_bitfield_bytes_def BITS_PER_BYTE_def div_ceil_def)
  have "{i. i < length [True, False, True] \<and> \<not> [True, False, True] ! i} = {1 :: nat}"
    by (auto simp: less_Suc_eq nth_Cons')
  then show ?thesis using chunk_flags_round_trip [OF size, of 128] by metis
qed

end
