(* ===== verification/Chunk_Data.thy ===== *)
theory Chunk_Data
  imports Chunk_Tracker
begin

text \<open>
  Cutting data into chunks and instructions into transactions: the iterator over the chunks of
  a buffer (\<^verbatim>\<open>programs/committor-interface/src/state/changeset_chunks.rs\<close>) and the grouping of the
  realloc instructions (\<^verbatim>\<open>programs/committor-interface/src/instruction_chunks.rs\<close>, with the sizes
  of \<^verbatim>\<open>instruction.rs\<close> and \<^verbatim>\<open>consts.rs\<close>). \<open>None\<close> is a panic, as in \<open>Chunk_Tracker\<close>.
\<close>

section \<open>The chunks of a buffer\<close>

record changeset_chunk =
  cc_offset :: u32
  cc_data_chunk :: bytes
  cc_chunk_size :: u16

text \<open>The slice \<^verbatim>\<open>data[offset..end]\<close> panics when it starts after its end.\<close>

definition changeset_chunk_from :: "bytes \<Rightarrow> u32 \<Rightarrow> u16 \<Rightarrow> changeset_chunk option" where
  "changeset_chunk_from data offset chunk_size =
     (let end_pos = min (unat (offset + ucast chunk_size)) (length data)
      in if unat offset \<le> end_pos
         then Some \<lparr>cc_offset = offset,
                    cc_data_chunk = take (end_pos - unat offset) (drop (unat offset) data),
                    cc_chunk_size = chunk_size\<rparr>
         else None)"

definition chunk_idx :: "changeset_chunk \<Rightarrow> u32 option" where
  "chunk_idx c = (if cc_chunk_size c = 0 then None else Some (cc_offset c div ucast (cc_chunk_size c)))"

record chunks_iter =
  ci_data :: bytes
  ci_chunk_size :: u16
  ci_chunk_count :: nat
  ci_filter :: "nat set option"
  ci_idx :: nat

definition assert_sizes :: "chunks \<Rightarrow> u16 \<Rightarrow> bytes \<Rightarrow> bool" where
  "assert_sizes c chunk_size data =
     (let chunks_len = ck_count c * unat chunk_size
      in length data \<le> chunks_len \<and> chunks_len < length data + unat chunk_size)"

definition chunks_iter_new :: "bytes \<Rightarrow> u16 \<Rightarrow> nat \<Rightarrow> nat set option \<Rightarrow> chunks_iter" where
  "chunks_iter_new data chunk_size chunk_count flt =
     \<lparr>ci_data = data, ci_chunk_size = chunk_size, ci_chunk_count = chunk_count, ci_filter = flt, ci_idx = 0\<rparr>"

definition iter_all_chunks :: "chunks \<Rightarrow> u16 \<Rightarrow> bytes \<Rightarrow> chunks_iter option" where
  "iter_all_chunks c chunk_size data =
     (if assert_sizes c chunk_size data then Some (chunks_iter_new data chunk_size (ck_count c) None) else None)"

definition iter_missing_chunks :: "chunks \<Rightarrow> u16 \<Rightarrow> bytes \<Rightarrow> chunks_iter option" where
  "iter_missing_chunks c chunk_size data =
     (if assert_sizes c chunk_size data
      then map_option (\<lambda>missing. chunks_iter_new data chunk_size (ck_count c) (Some missing)) (get_missing_chunks c)
      else None)"

function skip_filtered :: "nat set \<Rightarrow> nat \<Rightarrow> nat \<Rightarrow> nat" where
  "skip_filtered flt chunk_count idx =
     (if idx < chunk_count \<and> idx \<notin> flt then skip_filtered flt chunk_count (idx + 1) else idx)"
  by pat_completeness auto
termination
  by (relation "measure (\<lambda>(flt, chunk_count, idx). chunk_count - idx)") auto

declare skip_filtered.simps [simp del]

definition iter_next :: "chunks_iter \<Rightarrow> (changeset_chunk option \<times> chunks_iter) option" where
  "iter_next it =
     (let idx = (case ci_filter it of
                   Some flt \<Rightarrow> skip_filtered flt (ci_chunk_count it) (ci_idx it)
                 | None \<Rightarrow> ci_idx it)
      in if idx \<ge> ci_chunk_count it then Some (None, it\<lparr>ci_idx := idx\<rparr>)
         else
           let offset = idx * unat (ci_chunk_size it)
           in if offset < length (ci_data it)
              then map_option (\<lambda>chunk. (Some chunk, it\<lparr>ci_idx := idx + 1\<rparr>))
                     (changeset_chunk_from (ci_data it) (of_nat offset) (ci_chunk_size it))
              else None)"

lemma skip_filtered_ge: "idx \<le> skip_filtered flt n idx"
proof (induction flt n idx rule: skip_filtered.induct)
  case (1 flt n idx)
  then show ?case by (subst skip_filtered.simps) auto
qed

lemma iter_next_progress:
  "iter_next it = Some (Some chunk, it') \<Longrightarrow>
     ci_chunk_count it' = ci_chunk_count it \<and> ci_idx it < ci_idx it' \<and> ci_idx it < ci_chunk_count it"
  using skip_filtered_ge [of "ci_idx it" _ "ci_chunk_count it"]
  by (auto simp: iter_next_def Let_def not_le less_Suc_eq_le intro: le_less_trans
      split: if_splits option.splits)

function iter_collect :: "chunks_iter \<Rightarrow> changeset_chunk list option" where
  "iter_collect it =
     (case iter_next it of
        None \<Rightarrow> None
      | Some (None, _) \<Rightarrow> Some []
      | Some (Some chunk, it') \<Rightarrow> map_option (\<lambda>rest. chunk # rest) (iter_collect it'))"
  by pat_completeness auto
termination
  by (relation "measure (\<lambda>it. ci_chunk_count it - ci_idx it)") (auto dest!: iter_next_progress)

declare iter_collect.simps [simp del]

section \<open>Grouping realloc instructions\<close>

definition MAX_INSTRUCTION_LENGTH :: u8 where
  "MAX_INSTRUCTION_LENGTH = 11"

definition MAX_INSTRUCTION_DATA_SIZE :: u16 where
  "MAX_INSTRUCTION_DATA_SIZE = 1028"

definition IX_INIT_SIZE :: u16 where
  "IX_INIT_SIZE = 32 + 8 + 8 + 8 + 1 + 1 + 8 + 2 + 6"

definition IX_REALLOC_SIZE :: u16 where
  "IX_REALLOC_SIZE = 32 + 8 + 8 + 1 + 2 + 6"

definition IX_WRITE_SIZE_WITHOUT_CHUNKS :: u16 where
  "IX_WRITE_SIZE_WITHOUT_CHUNKS = 32 + 8 + 1 + 1 + 32"

definition IX_CLOSE_SIZE :: u16 where
  "IX_CLOSE_SIZE = 32 + 8 + 1 + 1"

definition BUDGET_SET_COMPUTE_UNIT_PRICE_BYTES :: u16 where
  "BUDGET_SET_COMPUTE_UNIT_PRICE_BYTES = (1 + 8) * 8"

definition BUDGET_SET_COMPUTE_UNIT_LIMIT_BYTES :: u16 where
  "BUDGET_SET_COMPUTE_UNIT_LIMIT_BYTES = (1 + 4) * 8"

definition MAX_WRITE_CHUNK_SIZE :: u16 where
  "MAX_WRITE_CHUNK_SIZE = MAX_INSTRUCTION_DATA_SIZE - IX_WRITE_SIZE_WITHOUT_CHUNKS
     - BUDGET_SET_COMPUTE_UNIT_PRICE_BYTES - BUDGET_SET_COMPUTE_UNIT_LIMIT_BYTES"

text \<open>
  The realloc instructions are reversed and popped from the end; the model keeps the reversed
  vector in its original order, so that \<^verbatim>\<open>pop\<close> takes the head.
\<close>

fun add_reallocs :: "'a list \<Rightarrow> 'a list \<Rightarrow> u16 \<Rightarrow> 'a list \<times> 'a list" where
  "add_reallocs chunk [] total_size = (chunk, [])"
| "add_reallocs chunk (realloc # reallocs) total_size =
     (if total_size + IX_REALLOC_SIZE < MAX_INSTRUCTION_DATA_SIZE
         \<and> length chunk < unat MAX_INSTRUCTION_LENGTH
      then add_reallocs (chunk @ [realloc]) reallocs (total_size + IX_REALLOC_SIZE)
      else (chunk, realloc # reallocs))"

lemma add_reallocs_length: "length (snd (add_reallocs chunk reallocs sz)) \<le> length reallocs"
  by (induction chunk reallocs sz rule: add_reallocs.induct) auto

function realloc_chunks :: "'a list \<Rightarrow> 'a list list" where
  "realloc_chunks [] = []"
| "realloc_chunks (realloc # reallocs) =
     (let (chunk, rest) = add_reallocs [realloc] reallocs IX_REALLOC_SIZE in chunk # realloc_chunks rest)"
  by pat_completeness auto
termination
proof (relation "measure length", simp)
  fix realloc :: 'a and reallocs x chunk rest
  assume "x = add_reallocs [realloc] reallocs IX_REALLOC_SIZE" "(chunk, rest) = x"
  then show "(rest, realloc # reallocs) \<in> measure length"
    using add_reallocs_length [of "[realloc]" reallocs IX_REALLOC_SIZE] by (metis in_measure le_imp_less_Suc length_Cons snd_conv)
qed

definition chunk_realloc_ixs :: "'a list \<Rightarrow> 'a option \<Rightarrow> 'a list list" where
  "chunk_realloc_ixs reallocs init_ix =
     (case init_ix of
        Some ix \<Rightarrow>
          (let (chunk, rest) = add_reallocs [ix] reallocs IX_INIT_SIZE in chunk # realloc_chunks rest)
      | None \<Rightarrow> realloc_chunks reallocs)"

section \<open>The chunks partition the data\<close>

definition chunk_at :: "bytes \<Rightarrow> u16 \<Rightarrow> nat \<Rightarrow> changeset_chunk" where
  "chunk_at data csz i =
     \<lparr>cc_offset = of_nat (i * unat csz),
      cc_data_chunk = take (unat csz) (drop (i * unat csz) data), cc_chunk_size = csz\<rparr>"

definition selected :: "nat set option \<Rightarrow> nat \<Rightarrow> bool" where
  "selected flt i = (case flt of None \<Rightarrow> True | Some s \<Rightarrow> i \<in> s)"

lemma selected_simps [simp]: "selected None = (\<lambda>_. True)" "selected (Some s) = (\<lambda>i. i \<in> s)"
  by (auto simp: selected_def)

lemma unat_offset:
  assumes "n + unat (s :: u16) < 2 ^ 32"
  shows "unat (of_nat n :: u32) = n" "unat ((of_nat n :: u32) + ucast s) = n + unat s"
proof -
  show n: "unat (of_nat n :: u32) = n" using assms by (simp add: unat_of_nat)
  have "unat (ucast s :: u32) = unat s" using unat_bound [of s] by (simp add: unsigned_ucast_eq take_bit_nat_eq_self)
  then show "unat ((of_nat n :: u32) + ucast s) = n + unat s"
    using assms n by (subst unat_word_ariths) simp
qed

lemma changeset_chunk_from_eq:
  assumes "i * unat csz \<le> length data" and "length data + unat csz < 2 ^ 32"
  shows "changeset_chunk_from data (of_nat (i * unat csz)) csz = Some (chunk_at data csz i)"
proof -
  have "i * unat csz + unat csz < 2 ^ 32" using assms by simp
  note u = unat_offset [OF this]
  show ?thesis
    using assms(1) by (simp add: changeset_chunk_from_def u chunk_at_def Let_def min_def del: of_nat_mult)
qed

lemma skip_filtered_filter:
  "filter (\<lambda>i. i \<in> flt) [idx..<n] = filter (\<lambda>i. i \<in> flt) [skip_filtered flt n idx..<n]
   \<and> (skip_filtered flt n idx < n \<longrightarrow> skip_filtered flt n idx \<in> flt)"
proof (induction flt n idx rule: skip_filtered.induct)
  case (1 flt n idx)
  then show ?case by (subst (1 2 3) skip_filtered.simps) (auto simp: upt_rec [of idx])
qed

lemma iter_collect_eq:
  assumes "length (ci_data it) + unat (ci_chunk_size it) < 2 ^ 32"
    and "\<forall>i < ci_chunk_count it. i * unat (ci_chunk_size it) < length (ci_data it)"
  shows "iter_collect it = Some (map (chunk_at (ci_data it) (ci_chunk_size it))
    (filter (selected (ci_filter it)) [ci_idx it..<ci_chunk_count it]))"
  using assms
proof (induction it rule: iter_collect.induct)
  case (1 it)
  define j where "j = (case ci_filter it of
      Some flt \<Rightarrow> skip_filtered flt (ci_chunk_count it) (ci_idx it) | None \<Rightarrow> ci_idx it)"
  have j: "filter (selected (ci_filter it)) [ci_idx it..<ci_chunk_count it] =
      filter (selected (ci_filter it)) [j..<ci_chunk_count it]"
    "j < ci_chunk_count it \<Longrightarrow> selected (ci_filter it) j"
    using skip_filtered_filter [of _ "ci_idx it" "ci_chunk_count it"]
    by (auto simp: j_def split: option.splits)
  show ?case
  proof (cases "j < ci_chunk_count it")
    case False
    then have "iter_next it = Some (None, it\<lparr>ci_idx := j\<rparr>)"
      by (simp add: iter_next_def Let_def flip: j_def)
    then show ?thesis using False j(1) by (simp add: iter_collect.simps [of it])
  next
    case True
    let ?c = "chunk_at (ci_data it) (ci_chunk_size it)"
    have "changeset_chunk_from (ci_data it) (of_nat (j * unat (ci_chunk_size it))) (ci_chunk_size it) = Some (?c j)"
      using True 1(2,3) by (intro changeset_chunk_from_eq) (auto intro: less_imp_le)
    then have n: "iter_next it = Some (Some (?c j), it\<lparr>ci_idx := j + 1\<rparr>)"
      using True 1(3) by (simp add: iter_next_def Let_def del: of_nat_mult flip: j_def)
    have "iter_collect (it\<lparr>ci_idx := j + 1\<rparr>) =
        Some (map ?c (filter (selected (ci_filter it)) [j + 1..<ci_chunk_count it]))"
      using 1(1) [OF n refl] 1(2,3) by simp
    then show ?thesis using n True j by (simp add: iter_collect.simps [of it] upt_conv_Cons)
  qed
qed

lemma assert_sizes_bounds:
  assumes "assert_sizes c csz data"
  shows "unat csz > 0" "length data \<le> ck_count c * unat csz"
    "\<forall>i < ck_count c. i * unat csz < length data"
proof -
  note a = assms [unfolded assert_sizes_def Let_def]
  show "unat csz > 0" "length data \<le> ck_count c * unat csz" using a by auto
  show "\<forall>i < ck_count c. i * unat csz < length data"
  proof (intro allI impI)
    fix i assume "i < ck_count c"
    then have "Suc i * unat csz \<le> ck_count c * unat csz" by (intro mult_le_mono1) simp
    with a show "i * unat csz < length data" by simp
  qed
qed

lemma concat_chunks_take:
  "concat (map (\<lambda>i. take s (drop (i * s) xs)) [0..<n]) = take (n * s) xs"
  by (induction n) (simp_all add: take_add add.commute [of s] del: take_append)

lemma chunks_concat:
  "assert_sizes c csz data \<Longrightarrow> concat (map cc_data_chunk (map (chunk_at data csz) [0..<ck_count c])) = data"
  using assert_sizes_bounds(2) by (simp add: comp_def chunk_at_def concat_chunks_take)

lemma iterations_eq:
  assumes "assert_sizes c csz data" and "length data + unat csz < 2 ^ 32" and "chunks_ok c"
  shows "Option.bind (iter_all_chunks c csz data) iter_collect = Some (map (chunk_at data csz) [0..<ck_count c])"
    and "Option.bind (iter_missing_chunks c csz data) iter_collect =
      Some (map (chunk_at data csz) (filter (\<lambda>i. i \<notin> delivered c) [0..<ck_count c]))"
proof -
  note b = assert_sizes_bounds [OF assms(1)]
  show "Option.bind (iter_all_chunks c csz data) iter_collect = Some (map (chunk_at data csz) [0..<ck_count c])"
    using assms(1,2) b by (simp add: iter_all_chunks_def iter_collect_eq chunks_iter_new_def)
  show "Option.bind (iter_missing_chunks c csz data) iter_collect =
      Some (map (chunk_at data csz) (filter (\<lambda>i. i \<notin> delivered c) [0..<ck_count c]))"
    using assms b
    by (auto simp: iter_missing_chunks_def iter_collect_eq chunks_iter_new_def get_missing_chunks_eq
        intro!: arg_cong [of _ _ "map (chunk_at data csz)"] filter_cong)
qed

text \<open>
  Claim C31. The chunk iterator cuts data exactly: when the tracker fits the data, the full
  iteration returns one chunk per index, in order, at the offsets that are multiples of the
  chunk size, the chunks concatenate to the data, and the iteration over the missing chunks
  returns exactly those whose index is not delivered.
\<close>

theorem chunk_iteration_exact:
  assumes "assert_sizes c csz data" and "length data + unat csz < 2 ^ 32" and "chunks_ok c"
  shows "\<exists>chunks missing.
      Option.bind (iter_all_chunks c csz data) iter_collect = Some chunks
    \<and> Option.bind (iter_missing_chunks c csz data) iter_collect = Some missing
    \<and> concat (map cc_data_chunk chunks) = data
    \<and> map (\<lambda>ch. unat (cc_offset ch)) chunks = map (\<lambda>i. i * unat csz) [0..<ck_count c]
    \<and> missing = map (\<lambda>i. chunks ! i) (filter (\<lambda>i. i \<notin> delivered c) [0..<ck_count c])"
proof -
  note b = assert_sizes_bounds [OF assms(1)]
  let ?all = "map (chunk_at data csz) [0..<ck_count c]"
  have "unat (cc_offset (chunk_at data csz i)) = i * unat csz" if "i < ck_count c" for i
  proof -
    have "i * unat csz + unat csz < 2 ^ 32" using b(3) that assms(2) by (metis add_less_mono1 order.strict_trans)
    from unat_offset(1) [OF this] show ?thesis by (simp add: chunk_at_def del: of_nat_mult)
  qed
  then show ?thesis
    using iterations_eq [OF assms] chunks_concat [OF assms(1)] by (intro exI [of _ ?all] exI conjI) auto
qed

theorem chunk_iteration_exact_witness:
  "\<exists>chunks. Option.bind (iter_all_chunks \<lparr>ck_bits = [2], ck_count = 2, ck_chunk_size = 3\<rparr> 3 [1, 2, 3, 4, 5]) iter_collect
     = Some chunks \<and> concat (map cc_data_chunk chunks) = [1, 2, 3, 4, 5] \<and> length chunks = 2"
proof -
  let ?c = "\<lparr>ck_bits = [2], ck_count = 2, ck_chunk_size = 3\<rparr> :: chunks"
  have "assert_sizes ?c 3 [1, 2, 3, 4, 5]" "length [1, 2, 3, 4, 5 :: u8] + unat (3 :: u16) < 2 ^ 32" "chunks_ok ?c"
    by (simp_all add: assert_sizes_def chunks_ok_def count_to_bitfield_bytes_def BITS_PER_BYTE_def div_ceil_def)
  from chunk_iteration_exact [OF this] obtain chunks where
    "Option.bind (iter_all_chunks ?c 3 [1, 2, 3, 4, 5]) iter_collect = Some chunks"
    "concat (map cc_data_chunk chunks) = [1, 2, 3, 4, 5]"
    "map (\<lambda>ch. unat (cc_offset ch)) chunks = map (\<lambda>i. i * unat (3 :: u16)) [0..<2]" by auto
  then show ?thesis by (metis length_map length_upt diff_zero)
qed

section \<open>The groups keep the instructions\<close>

definition group_size :: "nat \<Rightarrow> 'a list \<Rightarrow> nat" where
  "group_size first g = first + 57 * (length g - 1)"

lemma realloc_consts:
  "unat IX_REALLOC_SIZE = 57" "unat IX_INIT_SIZE = 74" "unat MAX_INSTRUCTION_DATA_SIZE = 1028"
  "unat MAX_INSTRUCTION_LENGTH = 11"
  by (simp_all add: IX_REALLOC_SIZE_def IX_INIT_SIZE_def MAX_INSTRUCTION_DATA_SIZE_def MAX_INSTRUCTION_LENGTH_def)

lemma add_reallocs_spec:
  assumes "add_reallocs chunk reallocs sz = (chunk', rest)" and "unat sz < 1028"
    and "chunk \<noteq> []" and "length chunk \<le> 11" and "unat sz = first + 57 * (length chunk - 1)"
  shows "chunk' @ rest = chunk @ reallocs \<and> chunk' \<noteq> [] \<and> hd chunk' = hd chunk \<and> length chunk' \<le> 11
    \<and> first + 57 * (length chunk' - 1) < 1028"
  using assms
proof (induction chunk reallocs sz rule: add_reallocs.induct)
  case (2 chunk r rs sz)
  have sum: "unat (sz + IX_REALLOC_SIZE) = unat sz + 57"
    using 2(3) by (simp add: unat_word_ariths realloc_consts)
  show ?case
  proof (cases "sz + IX_REALLOC_SIZE < MAX_INSTRUCTION_DATA_SIZE \<and> length chunk < unat MAX_INSTRUCTION_LENGTH")
    case True
    then have "unat sz + 57 < 1028" "length chunk < 11"
      using sum by (simp_all add: word_less_nat_alt realloc_consts)
    moreover have "first + 57 * (length (chunk @ [r]) - 1) = first + 57 * (length chunk - 1) + 57"
      using 2(4) by (cases chunk) auto
    ultimately show ?thesis
      using 2(1) [OF True] 2(2-6) True sum by simp
  next
    case False
    then show ?thesis using 2(2-6) by auto
  qed
qed simp

lemma realloc_chunks_spec:
  "concat (realloc_chunks rs) = rs
   \<and> (\<forall>g \<in> set (realloc_chunks rs). g \<noteq> [] \<and> length g \<le> 11 \<and> group_size 57 g < 1028)"
proof (induction rs rule: realloc_chunks.induct)
  case (2 r rs)
  obtain chunk rest where a: "add_reallocs [r] rs IX_REALLOC_SIZE = (chunk, rest)" by fastforce
  have "chunk @ rest = r # rs \<and> chunk \<noteq> [] \<and> length chunk \<le> 11 \<and> 57 + 57 * (length chunk - 1) < 1028"
    using add_reallocs_spec [OF a, of 57] by (simp add: realloc_consts)
  then show ?case using 2 [OF a [symmetric] refl] a by (simp add: group_size_def)
qed simp

text \<open>
  Claim C35. Grouping realloc instructions into transactions keeps them: the groups concatenate to
  the init instruction, if any, followed by the reallocs in order, and every group has between
  one and eleven instructions whose data stays below the size limit.
\<close>

theorem realloc_groups_keep_order:
  "concat (chunk_realloc_ixs reallocs init_ix) = (case init_ix of None \<Rightarrow> [] | Some ix \<Rightarrow> [ix]) @ reallocs
   \<and> (\<forall>g \<in> set (chunk_realloc_ixs reallocs init_ix). g \<noteq> [] \<and> length g \<le> 11 \<and> group_size 57 g < 1028)
   \<and> (init_ix \<noteq> None \<longrightarrow> group_size 74 (hd (chunk_realloc_ixs reallocs init_ix)) < 1028)"
proof (cases init_ix)
  case None
  then show ?thesis using realloc_chunks_spec [of reallocs]
    by (simp add: chunk_realloc_ixs_def)
next
  case (Some ix)
  obtain chunk rest where a: "add_reallocs [ix] reallocs IX_INIT_SIZE = (chunk, rest)" by fastforce
  have "chunk @ rest = ix # reallocs \<and> chunk \<noteq> [] \<and> length chunk \<le> 11 \<and> 74 + 57 * (length chunk - 1) < 1028"
    using add_reallocs_spec [OF a, of 74] by (simp add: realloc_consts)
  then show ?thesis using realloc_chunks_spec [of rest] Some a
    by (auto simp: chunk_realloc_ixs_def group_size_def)
qed

theorem realloc_groups_keep_order_witness:
  "concat (chunk_realloc_ixs [1 .. 20] (Some 0)) = [0 .. 20 :: int] \<and> length (chunk_realloc_ixs [1 .. 20] (Some (0 :: int))) = 2"
proof -
  have e: "[1 .. 20] = [1, 2, 3, 4, 5, 6, 7, 8, 9, 10, 11, 12, 13, 14, 15, 16, 17, 18, 19, 20 :: int]"
    by (simp add: upto.simps)
  have "length (chunk_realloc_ixs [1 .. 20] (Some (0 :: int))) = 2"
    by (simp add: e chunk_realloc_ixs_def realloc_consts word_less_nat_alt IX_REALLOC_SIZE_def IX_INIT_SIZE_def
        MAX_INSTRUCTION_DATA_SIZE_def)
  moreover have "concat (chunk_realloc_ixs [1 .. 20] (Some 0)) = [0 .. 20 :: int]"
    using realloc_groups_keep_order [of "[1 .. 20 :: int]" "Some 0"] by (simp add: upto.simps)
  ultimately show ?thesis by simp
qed

end
