(* ===== verification/Committor_Program.thy ===== *)
theory Committor_Program
  imports Chunk_Data
begin

text \<open>
  The committor program: its instructions and their builders
  (\<^verbatim>\<open>programs/committor-interface\<close>: \<^verbatim>\<open>instruction.rs\<close>, \<^verbatim>\<open>instruction_builder\<close>, \<^verbatim>\<open>pdas.rs\<close>, \<^verbatim>\<open>error.rs\<close>)
  and its processor (\<^verbatim>\<open>programs/committor-program/src\<close>). The Solana runtime (address derivation,
  rent, account creation, resizing) and the Borsh codec are third-party code: they are the
  fields of the parameter \<open>runtime\<close>, and \<open>runtime_ok\<close> states what is documented of them.
\<close>

section \<open>Errors and accounts\<close>

datatype committor_error =
    UnableToSerializeChangeSet string
  | PubkeyError
  | OffsetMustBeMultipleOfChunkSize nat u16
  | OffsetChunkOutOfRange nat u32 nat
  | CE_OutOfBoundsError

text \<open>\<open>PE_Panic\<close> is a panic of the program, which aborts the transaction as an error does.\<close>

datatype program_error =
    PE_Custom u32
  | PE_NotEnoughAccountKeys
  | PE_MissingRequiredSignature
  | PE_AccountAlreadyInitialized
  | PE_IncorrectProgramId
  | PE_ArithmeticOverflow
  | PE_BorshIoError
  | PE_Runtime nat
  | PE_Panic

fun committor_error_of_chunks :: "chunks_error \<Rightarrow> committor_error" where
  "committor_error_of_chunks OutOfBoundsError = CE_OutOfBoundsError"
| "committor_error_of_chunks (InvalidOffsetError offset chunk_size) =
     OffsetMustBeMultipleOfChunkSize offset chunk_size"

fun program_error_of_committor :: "committor_error \<Rightarrow> program_error" where
  "program_error_of_committor (UnableToSerializeChangeSet _) = PE_Custom 0x69000"
| "program_error_of_committor PubkeyError = PE_Custom 0x69001"
| "program_error_of_committor (OffsetMustBeMultipleOfChunkSize _ _) = PE_Custom 0x69002"
| "program_error_of_committor (OffsetChunkOutOfRange _ _ _) = PE_Custom 0x69003"
| "program_error_of_committor CE_OutOfBoundsError = PE_Custom 0x69004"

record account_info =
  ai_key :: pubkey
  ai_is_signer :: bool
  ai_lamports :: u64
  ai_data :: bytes
  ai_owner :: pubkey

text \<open>The program's address, \<^verbatim>\<open>ComtrB2KEaWgXsW1dhr1xYL4Ht4Bjj3gXnnL6KMdABq\<close>.\<close>

definition committor_id :: pubkey where
  "committor_id = 1368028104484285409909519111671880577004947272012820839895072635886431717016"

section \<open>Instructions\<close>

datatype committor_instruction =
    CI_Init pubkey u64 u64 u64 u8 u8 nat u16
  | CI_ReallocBuffer pubkey u64 u64 u8 u16
  | CI_Write pubkey u64 u8 u8 u32 bytes
  | CI_Close pubkey u64 u8 u8

record runtime =
  rt_create_program_address :: "seed list \<Rightarrow> pubkey \<Rightarrow> pubkey option"
  rt_find_program_address :: "seed list \<Rightarrow> pubkey \<Rightarrow> pubkey \<times> u8"
  rt_rent :: "(program_error, nat \<Rightarrow> u64) result"
  rt_create_account ::
    "account_info \<Rightarrow> account_info \<Rightarrow> u64 \<Rightarrow> u64 \<Rightarrow> pubkey \<Rightarrow> seed list \<Rightarrow>
     (program_error, account_info \<times> account_info) result"
  rt_resize :: "account_info \<Rightarrow> nat \<Rightarrow> (program_error, account_info) result"
  rt_enc_chunks :: "chunks \<Rightarrow> bytes"
  rt_dec_chunks :: "bytes \<Rightarrow> chunks option"
  rt_enc_ix :: "committor_instruction \<Rightarrow> bytes"
  rt_dec_ix :: "bytes \<Rightarrow> committor_instruction option"
  rt_system_program :: pubkey

definition chunks_seeds :: "pubkey \<Rightarrow> pubkey \<Rightarrow> u64 \<Rightarrow> seed list" where
  "chunks_seeds validator_auth pubkey commit_id =
     [Seed_Key committor_id, Seed_Bytes ''comittor_chunks'', Seed_Key validator_auth, Seed_Key pubkey,
      Seed_Le commit_id]"

definition chunks_seeds_with_bump :: "pubkey \<Rightarrow> pubkey \<Rightarrow> u64 \<Rightarrow> u8 \<Rightarrow> seed list" where
  "chunks_seeds_with_bump validator_auth pubkey commit_id bump =
     [Seed_Key committor_id, Seed_Bytes ''comittor_chunks'', Seed_Key validator_auth, Seed_Key pubkey,
      Seed_Le commit_id, Seed_Bump bump]"

definition buffer_seeds :: "pubkey \<Rightarrow> pubkey \<Rightarrow> u64 \<Rightarrow> seed list" where
  "buffer_seeds validator_auth pubkey commit_id =
     [Seed_Key committor_id, Seed_Bytes ''comittor_buffer'', Seed_Key validator_auth, Seed_Key pubkey,
      Seed_Le commit_id]"

definition buffer_seeds_with_bump :: "pubkey \<Rightarrow> pubkey \<Rightarrow> u64 \<Rightarrow> u8 \<Rightarrow> seed list" where
  "buffer_seeds_with_bump validator_auth pubkey commit_id bump =
     [Seed_Key committor_id, Seed_Bytes ''comittor_buffer'', Seed_Key validator_auth, Seed_Key pubkey,
      Seed_Le commit_id, Seed_Bump bump]"

definition chunks_pda :: "runtime \<Rightarrow> pubkey \<Rightarrow> pubkey \<Rightarrow> u64 \<Rightarrow> pubkey \<times> u8" where
  "chunks_pda rt validator_auth pubkey commit_id =
     rt_find_program_address rt (chunks_seeds validator_auth pubkey commit_id) committor_id"

definition buffer_pda :: "runtime \<Rightarrow> pubkey \<Rightarrow> pubkey \<Rightarrow> u64 \<Rightarrow> pubkey \<times> u8" where
  "buffer_pda rt validator_auth pubkey commit_id =
     rt_find_program_address rt (buffer_seeds validator_auth pubkey commit_id) committor_id"

record instruction =
  ix_program_id :: pubkey
  ix_accounts :: "account_meta list"
  ix_data :: bytes

definition meta_new :: "pubkey \<Rightarrow> bool \<Rightarrow> account_meta" where
  "meta_new k signer = \<lparr>am_pubkey = k, am_is_signer = signer, am_is_writable = True\<rparr>"

definition meta_new_readonly :: "pubkey \<Rightarrow> bool \<Rightarrow> account_meta" where
  "meta_new_readonly k signer = \<lparr>am_pubkey = k, am_is_signer = signer, am_is_writable = False\<rparr>"

definition create_init_ix ::
    "runtime \<Rightarrow> pubkey \<Rightarrow> pubkey \<Rightarrow> u64 \<Rightarrow> u64 \<Rightarrow> u64 \<Rightarrow> nat \<Rightarrow> u16 \<Rightarrow> instruction \<times> pubkey \<times> pubkey" where
  "create_init_ix rt authority pubkey chunks_account_size buffer_account_size commit_id chunk_count chunk_size =
     (let (chunks_key, chunks_bump) = chunks_pda rt authority pubkey commit_id;
          (buffer_key, buffer_bump) = buffer_pda rt authority pubkey commit_id;
          ix = CI_Init pubkey chunks_account_size buffer_account_size commit_id chunks_bump buffer_bump
                 chunk_count chunk_size
      in (\<lparr>ix_program_id = committor_id,
           ix_accounts = [meta_new authority True, meta_new chunks_key False, meta_new buffer_key False,
             meta_new_readonly (rt_system_program rt) False],
           ix_data = rt_enc_ix rt ix\<rparr>, chunks_key, buffer_key))"

definition create_realloc_buffer_ix ::
    "runtime \<Rightarrow> pubkey \<Rightarrow> pubkey \<Rightarrow> u64 \<Rightarrow> u64 \<Rightarrow> u16 \<Rightarrow> instruction" where
  "create_realloc_buffer_ix rt authority pubkey buffer_account_size commit_id invocation_count =
     (let (buffer_key, buffer_bump) = buffer_pda rt authority pubkey commit_id;
          ix = CI_ReallocBuffer pubkey buffer_account_size commit_id buffer_bump invocation_count
      in \<lparr>ix_program_id = committor_id,
          ix_accounts = [meta_new authority True, meta_new buffer_key False],
          ix_data = rt_enc_ix rt ix\<rparr>)"

definition create_realloc_buffer_ixs_to_add_remaining ::
    "runtime \<Rightarrow> pubkey \<Rightarrow> pubkey \<Rightarrow> u64 \<Rightarrow> u64 \<Rightarrow> u64 \<Rightarrow> instruction list" where
  "create_realloc_buffer_ixs_to_add_remaining rt authority pubkey buffer_account_size commit_id remaining_size =
     (let remaining_invocation_count =
            div_ceil (unat remaining_size) (unat MAX_ACCOUNT_ALLOC_PER_INSTRUCTION_SIZE)
      in map (\<lambda>i. create_realloc_buffer_ix rt authority pubkey buffer_account_size commit_id (of_nat i))
           [1..<remaining_invocation_count + 1])"

definition create_realloc_buffer_ixs ::
    "runtime \<Rightarrow> pubkey \<Rightarrow> pubkey \<Rightarrow> u64 \<Rightarrow> u64 \<Rightarrow> instruction list" where
  "create_realloc_buffer_ixs rt authority pubkey buffer_account_size commit_id =
     (if buffer_account_size \<le> ucast MAX_ACCOUNT_ALLOC_PER_INSTRUCTION_SIZE then []
      else create_realloc_buffer_ixs_to_add_remaining rt authority pubkey buffer_account_size commit_id
             (buffer_account_size - ucast MAX_ACCOUNT_ALLOC_PER_INSTRUCTION_SIZE))"

definition create_write_ix :: "runtime \<Rightarrow> pubkey \<Rightarrow> pubkey \<Rightarrow> u32 \<Rightarrow> bytes \<Rightarrow> u64 \<Rightarrow> instruction" where
  "create_write_ix rt authority pubkey offset data_chunk commit_id =
     (let (chunks_key, chunks_bump) = chunks_pda rt authority pubkey commit_id;
          (buffer_key, buffer_bump) = buffer_pda rt authority pubkey commit_id;
          ix = CI_Write pubkey commit_id chunks_bump buffer_bump offset data_chunk
      in \<lparr>ix_program_id = committor_id,
          ix_accounts = [meta_new authority True, meta_new chunks_key False, meta_new buffer_key False],
          ix_data = rt_enc_ix rt ix\<rparr>)"

definition create_close_ix :: "runtime \<Rightarrow> pubkey \<Rightarrow> pubkey \<Rightarrow> u64 \<Rightarrow> instruction" where
  "create_close_ix rt authority pubkey commit_id =
     (let (chunks_key, chunks_bump) = chunks_pda rt authority pubkey commit_id;
          (buffer_key, buffer_bump) = buffer_pda rt authority pubkey commit_id;
          ix = CI_Close pubkey commit_id chunks_bump buffer_bump
      in \<lparr>ix_program_id = committor_id,
          ix_accounts = [meta_new authority True, meta_new chunks_key False, meta_new buffer_key False],
          ix_data = rt_enc_ix rt ix\<rparr>)"

section \<open>The processor\<close>

definition assert_program_id :: "pubkey \<Rightarrow> (program_error, unit) result" where
  "assert_program_id program_id = ensure (program_id = committor_id) PE_IncorrectProgramId"

definition assert_is_signer :: "account_info \<Rightarrow> (program_error, unit) result" where
  "assert_is_signer a = ensure (ai_is_signer a) PE_MissingRequiredSignature"

definition assert_account_unallocated :: "account_info \<Rightarrow> (program_error, unit) result" where
  "assert_account_unallocated a = ensure (length (ai_data a) = 0) PE_AccountAlreadyInitialized"

definition verify_pda :: "runtime \<Rightarrow> account_info \<Rightarrow> seed list \<Rightarrow> (program_error, unit) result" where
  "verify_pda rt a seeds =
     rbind (map_err (\<lambda>_. program_error_of_committor PubkeyError)
              (ok_or (rt_create_program_address rt seeds committor_id) ())) (\<lambda>expected.
     ensure (ai_key a = expected) (PE_Custom 1))"

definition verify_seeds_and_pdas ::
    "runtime \<Rightarrow> account_info \<Rightarrow> account_info \<Rightarrow> account_info \<Rightarrow> pubkey \<Rightarrow> u64 \<Rightarrow> u8 \<Rightarrow> u8 \<Rightarrow>
     (program_error, unit) result" where
  "verify_seeds_and_pdas rt authority chunks_account buffer_account pubkey commit_id chunks_bump buffer_bump =
     rbind (verify_pda rt chunks_account (chunks_seeds_with_bump (ai_key authority) pubkey commit_id chunks_bump)) (\<lambda>_.
     verify_pda rt buffer_account (buffer_seeds_with_bump (ai_key authority) pubkey commit_id buffer_bump))"

text \<open>\<^verbatim>\<open>copy_from_slice\<close> panics when the lengths differ.\<close>

definition copy_from_slice :: "bytes \<Rightarrow> bytes \<Rightarrow> (program_error, bytes) result" where
  "copy_from_slice dst src = rbind (ensure (length dst = length src) PE_Panic) (\<lambda>_. Inr src)"

definition process_init ::
    "runtime \<Rightarrow> pubkey \<Rightarrow> account_info list \<Rightarrow> pubkey \<Rightarrow> u64 \<Rightarrow> u64 \<Rightarrow> u64 \<Rightarrow> u8 \<Rightarrow> u8 \<Rightarrow> nat \<Rightarrow> u16 \<Rightarrow>
     (program_error, account_info list) result" where
  "process_init rt program_id accounts pubkey chunks_account_size buffer_account_size commit_id chunks_bump
     buffer_bump chunk_count chunk_size =
     (case accounts of
        [authority, chunks_account, buffer_account, system_program] \<Rightarrow>
          rbind (assert_is_signer authority) (\<lambda>_.
          let chunks_sd = chunks_seeds_with_bump (ai_key authority) pubkey commit_id chunks_bump;
              buffer_sd = buffer_seeds_with_bump (ai_key authority) pubkey commit_id buffer_bump in
          rbind (verify_pda rt chunks_account chunks_sd) (\<lambda>_.
          rbind (verify_pda rt buffer_account buffer_sd) (\<lambda>_.
          rbind (assert_account_unallocated chunks_account) (\<lambda>_.
          rbind (assert_account_unallocated buffer_account) (\<lambda>_.
          rbind (rt_rent rt) (\<lambda>minimum_balance.
          rbind (rt_create_account rt authority chunks_account (minimum_balance (unat chunks_account_size))
                   chunks_account_size program_id chunks_sd) (\<lambda>(authority1, chunks1).
          let initial_alloc_size = min buffer_account_size (ucast MAX_ACCOUNT_ALLOC_PER_INSTRUCTION_SIZE) in
          rbind (rt_create_account rt authority1 buffer_account (minimum_balance (unat buffer_account_size))
                   initial_alloc_size program_id buffer_sd) (\<lambda>(authority2, buffer1).
          rbind (ok_or (chunks_new chunk_count chunk_size) PE_Panic) (\<lambda>tracker.
          rbind (copy_from_slice (ai_data chunks1) (rt_enc_chunks rt tracker)) (\<lambda>data.
          Inr [authority2, chunks1\<lparr>ai_data := data\<rparr>, buffer1, system_program]))))))))))
      | _ \<Rightarrow> Inl PE_NotEnoughAccountKeys)"

definition process_realloc_buffer ::
    "runtime \<Rightarrow> account_info list \<Rightarrow> pubkey \<Rightarrow> u64 \<Rightarrow> u64 \<Rightarrow> u8 \<Rightarrow> u16 \<Rightarrow>
     (program_error, account_info list) result" where
  "process_realloc_buffer rt accounts pubkey buffer_account_size commit_id buffer_bump invocation_count =
     (case accounts of
        [authority, buffer_account] \<Rightarrow>
          if length (ai_data buffer_account) \<ge> unat buffer_account_size then Inr accounts
          else
          rbind (assert_is_signer authority) (\<lambda>_.
          rbind (verify_pda rt buffer_account
                   (buffer_seeds_with_bump (ai_key authority) pubkey commit_id buffer_bump)) (\<lambda>_.
          let current_buffer_size = of_nat (length (ai_data buffer_account)) :: u64;
              next_alloc_size = min buffer_account_size
                (current_buffer_size + ucast MAX_ACCOUNT_ALLOC_PER_INSTRUCTION_SIZE) in
          rbind (rt_resize rt buffer_account (unat next_alloc_size)) (\<lambda>buffer1.
          Inr [authority, buffer1])))
      | _ \<Rightarrow> Inl PE_NotEnoughAccountKeys)"

text \<open>The slice assignment \<^verbatim>\<open>buffer[a..a + n].copy_from_slice(&chunk)\<close>.\<close>

definition write_at :: "bytes \<Rightarrow> nat \<Rightarrow> bytes \<Rightarrow> bytes" where
  "write_at xs a ys = take a xs @ ys @ drop (a + length ys) xs"

definition process_write ::
    "runtime \<Rightarrow> account_info list \<Rightarrow> pubkey \<Rightarrow> u32 \<Rightarrow> bytes \<Rightarrow> u64 \<Rightarrow> u8 \<Rightarrow> u8 \<Rightarrow>
     (program_error, account_info list) result" where
  "process_write rt accounts pubkey offset data_chunk commit_id chunks_bump buffer_bump =
     (case accounts of
        [authority, chunks_account, buffer_account] \<Rightarrow>
          rbind (assert_is_signer authority) (\<lambda>_.
          rbind (verify_seeds_and_pdas rt authority chunks_account buffer_account pubkey commit_id
                   chunks_bump buffer_bump) (\<lambda>_.
          let out_of_range = program_error_of_committor
                (OffsetChunkOutOfRange (length data_chunk) offset (length (ai_data buffer_account))) in
          rbind (ok_or (checked_add offset (of_nat (length data_chunk))) out_of_range) (\<lambda>end_offset.
          rbind (ensure (unat end_offset \<le> length (ai_data buffer_account)) out_of_range) (\<lambda>_.
          rbind (ensure (unat offset + length data_chunk \<le> length (ai_data buffer_account)) PE_Panic) (\<lambda>_.
          let buffer1 = buffer_account\<lparr>ai_data := write_at (ai_data buffer_account) (unat offset) data_chunk\<rparr> in
          rbind (ok_or (rt_dec_chunks rt (ai_data chunks_account)) PE_BorshIoError) (\<lambda>tracker.
          rbind (ok_or (set_offset_delivered tracker (unat offset)) PE_Panic) (\<lambda>marked.
          rbind (map_err (\<lambda>e. program_error_of_committor (committor_error_of_chunks e)) marked) (\<lambda>tracker1.
          rbind (copy_from_slice (ai_data chunks_account) (rt_enc_chunks rt tracker1)) (\<lambda>data.
          Inr [authority, chunks_account\<lparr>ai_data := data\<rparr>, buffer1])))))))))
      | _ \<Rightarrow> Inl PE_NotEnoughAccountKeys)"

definition close_and_refund_authority ::
    "runtime \<Rightarrow> account_info \<Rightarrow> account_info \<Rightarrow> (program_error, account_info \<times> account_info) result" where
  "close_and_refund_authority rt authority account =
     rbind (rt_resize rt account 0) (\<lambda>account1.
     rbind (ok_or (checked_add (ai_lamports authority) (ai_lamports account1)) PE_ArithmeticOverflow) (\<lambda>total.
     Inr (authority\<lparr>ai_lamports := total\<rparr>, account1\<lparr>ai_lamports := 0\<rparr>)))"

definition process_close ::
    "runtime \<Rightarrow> account_info list \<Rightarrow> pubkey \<Rightarrow> u64 \<Rightarrow> u8 \<Rightarrow> u8 \<Rightarrow> (program_error, account_info list) result" where
  "process_close rt accounts pubkey commit_id chunks_bump buffer_bump =
     (case accounts of
        [authority, chunks_account, buffer_account] \<Rightarrow>
          rbind (assert_is_signer authority) (\<lambda>_.
          rbind (verify_seeds_and_pdas rt authority chunks_account buffer_account pubkey commit_id
                   chunks_bump buffer_bump) (\<lambda>_.
          rbind (close_and_refund_authority rt authority chunks_account) (\<lambda>(authority1, chunks1).
          rbind (close_and_refund_authority rt authority1 buffer_account) (\<lambda>(authority2, buffer1).
          Inr [authority2, chunks1, buffer1]))))
      | _ \<Rightarrow> Inl PE_NotEnoughAccountKeys)"

definition process ::
    "runtime \<Rightarrow> pubkey \<Rightarrow> account_info list \<Rightarrow> bytes \<Rightarrow> (program_error, account_info list) result" where
  "process rt program_id accounts instruction_data =
     rbind (assert_program_id program_id) (\<lambda>_.
     rbind (ok_or (rt_dec_ix rt instruction_data) PE_BorshIoError) (\<lambda>ix.
     case ix of
       CI_Init pubkey chunks_account_size buffer_account_size commit_id chunks_bump buffer_bump chunk_count chunk_size \<Rightarrow>
         process_init rt program_id accounts pubkey chunks_account_size buffer_account_size commit_id
           chunks_bump buffer_bump chunk_count chunk_size
     | CI_ReallocBuffer pubkey buffer_account_size commit_id buffer_bump invocation_count \<Rightarrow>
         process_realloc_buffer rt accounts pubkey buffer_account_size commit_id buffer_bump invocation_count
     | CI_Write pubkey commit_id chunks_bump buffer_bump offset data_chunk \<Rightarrow>
         process_write rt accounts pubkey offset data_chunk commit_id chunks_bump buffer_bump
     | CI_Close pubkey commit_id chunks_bump buffer_bump \<Rightarrow>
         process_close rt accounts pubkey commit_id chunks_bump buffer_bump))"

section \<open>The runtime's documented behaviour\<close>

text \<open>
  A found address is the one its bump creates; a created account has the requested zeroed space
  and owner and takes the lamports from the payer; a resize within the growth limit of one
  instruction truncates or pads with zeros and changes nothing else; the codec inverts, and the
  encoded size of a tracker is the one \<^verbatim>\<open>struct_size\<close> states.
\<close>

definition resized :: "nat \<Rightarrow> account_info \<Rightarrow> account_info" where
  "resized n a = a\<lparr>ai_data := take n (ai_data a) @ replicate (n - length (ai_data a)) 0\<rparr>"

text \<open>The lengths that fit their length prefix.\<close>

fun encodable :: "committor_instruction \<Rightarrow> bool" where
  "encodable (CI_Init _ _ _ _ _ _ chunk_count _) = (chunk_count < 2 ^ 64)"
| "encodable (CI_Write _ _ _ _ _ data_chunk) = (length data_chunk < 2 ^ 32)"
| "encodable _ = True"

definition runtime_ok :: "runtime \<Rightarrow> bool" where
  "runtime_ok rt \<longleftrightarrow>
     (\<forall>seeds p k b. rt_find_program_address rt seeds p = (k, b) \<longrightarrow>
        rt_create_program_address rt (seeds @ [Seed_Bump b]) p = Some k)
   \<and> (\<forall>payer a lamports space owner seeds payer' a'.
        rt_create_account rt payer a lamports space owner seeds = Inr (payer', a') \<longrightarrow>
        payer' = payer\<lparr>ai_lamports := ai_lamports payer - lamports\<rparr>
      \<and> a' = a\<lparr>ai_lamports := ai_lamports a + lamports, ai_data := replicate (unat space) 0, ai_owner := owner\<rparr>)
   \<and> (\<forall>a n. n \<le> length (ai_data a) + 10240 \<longrightarrow> rt_resize rt a n = Inr (resized n a))
   \<and> (\<forall>c. chunks_ok c \<longrightarrow> ck_count c < 2 ^ 32 \<longrightarrow>
        rt_dec_chunks rt (rt_enc_chunks rt c) = Some c \<and> length (rt_enc_chunks rt c) = serialized_size c)
   \<and> (\<forall>ix. encodable ix \<longrightarrow> rt_dec_ix rt (rt_enc_ix rt ix) = Some ix)"

lemma runtime_okD:
  assumes "runtime_ok rt"
  shows "rt_find_program_address rt seeds p = (k, b) \<Longrightarrow>
      rt_create_program_address rt (seeds @ [Seed_Bump b]) p = Some k"
    and "rt_create_account rt payer a lamports space owner seeds = Inr (payer', a') \<Longrightarrow>
      payer' = payer\<lparr>ai_lamports := ai_lamports payer - lamports\<rparr>
      \<and> a' = a\<lparr>ai_lamports := ai_lamports a + lamports, ai_data := replicate (unat space) 0, ai_owner := owner\<rparr>"
    and "n \<le> length (ai_data a) + 10240 \<Longrightarrow> rt_resize rt a n = Inr (resized n a)"
    and "chunks_ok c \<Longrightarrow> ck_count c < 2 ^ 32 \<Longrightarrow> rt_dec_chunks rt (rt_enc_chunks rt c) = Some c"
    and "chunks_ok c \<Longrightarrow> ck_count c < 2 ^ 32 \<Longrightarrow> length (rt_enc_chunks rt c) = serialized_size c"
    and "encodable ix \<Longrightarrow> rt_dec_ix rt (rt_enc_ix rt ix) = Some ix"
  using assms unfolding runtime_ok_def by blast+

lemma seeds_with_bump:
  "chunks_seeds_with_bump v k i b = chunks_seeds v k i @ [Seed_Bump b]"
  "buffer_seeds_with_bump v k i b = buffer_seeds v k i @ [Seed_Bump b]"
  by (simp_all add: chunks_seeds_def chunks_seeds_with_bump_def buffer_seeds_def buffer_seeds_with_bump_def)

lemma verify_pda_iff:
  "verify_pda rt a seeds = Inr u \<longleftrightarrow> rt_create_program_address rt seeds committor_id = Some (ai_key a)"
  by (auto simp: verify_pda_def result_simps)

lemma pda_verified:
  assumes "runtime_ok rt"
  shows "chunks_pda rt v k i = (key, b) \<Longrightarrow> ai_key a = key \<Longrightarrow>
      verify_pda rt a (chunks_seeds_with_bump v k i b) = Inr ()"
    and "buffer_pda rt v k i = (key, b) \<Longrightarrow> ai_key a = key \<Longrightarrow>
      verify_pda rt a (buffer_seeds_with_bump v k i b) = Inr ()"
  using runtime_okD(1) [OF assms]
  by (auto simp: verify_pda_iff seeds_with_bump chunks_pda_def buffer_pda_def)

section \<open>Who may change an account\<close>

definition derived_from :: "runtime \<Rightarrow> pubkey \<Rightarrow> pubkey \<Rightarrow> bool" where
  "derived_from rt authority key \<longleftrightarrow>
     (\<exists>pubkey commit_id bump.
        rt_create_program_address rt (chunks_seeds_with_bump authority pubkey commit_id bump) committor_id = Some key
      \<or> rt_create_program_address rt (buffer_seeds_with_bump authority pubkey commit_id bump) committor_id = Some key)"

lemma process_init_authorized:
  assumes "process_init rt p accounts k cs bs i cb bb n s = Inr accounts'"
  shows "ai_is_signer (hd accounts) \<and> length accounts = 4
    \<and> derived_from rt (ai_key (hd accounts)) (ai_key (accounts ! 1))
    \<and> derived_from rt (ai_key (hd accounts)) (ai_key (accounts ! 2))
    \<and> ai_data (accounts ! 1) = [] \<and> ai_data (accounts ! 2) = []"
  using assms
  by (auto simp: process_init_def result_simps assert_is_signer_def assert_account_unallocated_def verify_pda_iff
      derived_from_def Let_def split: list.splits prod.splits)

lemma verify_seeds_derived:
  assumes "verify_seeds_and_pdas rt a c b k i cb bb = Inr u"
  shows "derived_from rt (ai_key a) (ai_key c)" "derived_from rt (ai_key a) (ai_key b)"
  using assms by (auto simp: verify_seeds_and_pdas_def result_simps verify_pda_iff derived_from_def)

lemma process_write_authorized:
  assumes "process_write rt accounts k off data i cb bb = Inr accounts'"
  shows "ai_is_signer (hd accounts) \<and> length accounts = 3
    \<and> derived_from rt (ai_key (hd accounts)) (ai_key (accounts ! 1))
    \<and> derived_from rt (ai_key (hd accounts)) (ai_key (accounts ! 2))"
  using assms verify_seeds_derived
  by (fastforce simp: process_write_def result_simps assert_is_signer_def Let_def split: list.splits)

lemma process_close_authorized:
  assumes "process_close rt accounts k i cb bb = Inr accounts'"
  shows "ai_is_signer (hd accounts) \<and> length accounts = 3
    \<and> derived_from rt (ai_key (hd accounts)) (ai_key (accounts ! 1))
    \<and> derived_from rt (ai_key (hd accounts)) (ai_key (accounts ! 2))"
  using assms verify_seeds_derived
  by (fastforce simp: process_close_def result_simps assert_is_signer_def Let_def split: list.splits)

lemma process_realloc_authorized:
  assumes "process_realloc_buffer rt accounts k bs i bb n = Inr accounts'" and "accounts' \<noteq> accounts"
  shows "ai_is_signer (hd accounts) \<and> length accounts = 2
    \<and> derived_from rt (ai_key (hd accounts)) (ai_key (accounts ! 1))"
  using assms
  by (auto simp: process_realloc_buffer_def result_simps assert_is_signer_def verify_pda_iff derived_from_def Let_def
      split: list.splits if_splits)


text \<open>
  Claim C32. Closing refunds everything and nothing else: after a successful close the tracker
  and the buffer hold no data and no lamports, and the authority's balance has grown by exactly
  what they held, without wrap-around.
\<close>

theorem close_refunds:
  assumes "runtime_ok rt" and "process_close rt [a, c, b] k i cb bb = Inr accounts'"
  shows "\<exists>a' c' b'. accounts' = [a', c', b']
    \<and> unat (ai_lamports a') = unat (ai_lamports a) + unat (ai_lamports c) + unat (ai_lamports b)
    \<and> ai_lamports c' = 0 \<and> ai_data c' = [] \<and> ai_lamports b' = 0 \<and> ai_data b' = []"
proof -
  have r: "rt_resize rt x 0 = Inr (resized 0 x)" for x using runtime_okD(3) [OF assms(1)] by simp
  obtain t1 t2 where "checked_add (ai_lamports a) (ai_lamports c) = Some t1"
    "checked_add t1 (ai_lamports b) = Some t2"
    "accounts' = [a\<lparr>ai_lamports := t2\<rparr>, (resized 0 c)\<lparr>ai_lamports := 0\<rparr>, (resized 0 b)\<lparr>ai_lamports := 0\<rparr>]"
    using assms(2)
    by (auto simp: process_close_def close_and_refund_authority_def r result_simps resized_def
        assert_is_signer_def)
  then show ?thesis by (auto dest!: unat_checked_add simp: resized_def)
qed

end
