(* ===== verification/Buffer_Delivery.thy ===== *)
theory Buffer_Delivery
  imports Committor_Program Task_Model
begin

text \<open>
  Delivering the data of a large commit through a buffer account: the preparation of a commit
  task and its instructions (\<^verbatim>\<open>committor/src/shared/tasks/buffer_task.rs\<close>) run against the
  committor program. After the init and realloc instructions, the write instructions may land
  in any order and any number of times; the tracker is complete exactly when all of them have
  landed, and then the buffer holds the data.
\<close>

section \<open>Preparing a buffer\<close>

record buffer_preparation =
  bp_commit_id :: u64
  bp_pubkey :: pubkey
  bp_chunks :: chunks
  bp_buffer_data :: bytes

text \<open>
  \<^verbatim>\<open>BufferPreparation::from_commit_finalize\<close>; the outer option is the panic of a tracker that
  would be too large. \<open>diff\<close> is the delegation program's \<^verbatim>\<open>compute_diff\<close>.
\<close>

definition preparation_from_commit_finalize ::
    "(bytes \<Rightarrow> bytes \<Rightarrow> bytes) \<Rightarrow> commit_finalize_task \<Rightarrow> buffer_preparation option option" where
  "preparation_from_commit_finalize diff task =
     (let acc = cft_committed_account task;
          prepare = (\<lambda>data. map_option (\<lambda>tracker. Some
            \<lparr>bp_commit_id = cft_commit_id task, bp_pubkey = ca_pubkey acc, bp_chunks = tracker,
             bp_buffer_data = data\<rparr>) (from_data_length (length data) MAX_WRITE_CHUNK_SIZE))
      in case cft_delivery task of
           StateInArgs \<Rightarrow> Some None
         | DiffInArgs _ \<Rightarrow> Some None
         | StateInBuffer \<Rightarrow> prepare (acc_data (ca_account acc))
         | DiffInBuffer base_account \<Rightarrow> prepare (diff (acc_data base_account) (acc_data (ca_account acc))))"

definition init_instruction :: "runtime \<Rightarrow> buffer_preparation \<Rightarrow> pubkey \<Rightarrow> instruction" where
  "init_instruction rt prep authority =
     fst (create_init_ix rt authority (bp_pubkey prep) (of_nat (serialized_size (bp_chunks prep)))
       (of_nat (length (bp_buffer_data prep))) (bp_commit_id prep) (ck_count (bp_chunks prep))
       (ck_chunk_size (bp_chunks prep)))"

definition realloc_instructions :: "runtime \<Rightarrow> buffer_preparation \<Rightarrow> pubkey \<Rightarrow> instruction list" where
  "realloc_instructions rt prep authority =
     create_realloc_buffer_ixs rt authority (bp_pubkey prep) (of_nat (length (bp_buffer_data prep)))
       (bp_commit_id prep)"

definition write_instructions :: "runtime \<Rightarrow> buffer_preparation \<Rightarrow> pubkey \<Rightarrow> instruction list option" where
  "write_instructions rt prep authority =
     Option.bind (iter_all_chunks (bp_chunks prep) (ck_chunk_size (bp_chunks prep)) (bp_buffer_data prep))
       (\<lambda>it. map_option (map (\<lambda>chunk. create_write_ix rt authority (bp_pubkey prep) (cc_offset chunk)
                (cc_data_chunk chunk) (bp_commit_id prep))) (iter_collect it))"

record buffer_cleanup =
  bc_pubkey :: pubkey
  bc_commit_id :: u64

definition cleanup_task :: "buffer_preparation \<Rightarrow> buffer_cleanup" where
  "cleanup_task prep = \<lparr>bc_pubkey = bp_pubkey prep, bc_commit_id = bp_commit_id prep\<rparr>"

definition cleanup_from_commit_finalize :: "commit_finalize_task \<Rightarrow> buffer_cleanup option" where
  "cleanup_from_commit_finalize task =
     (let cleanup = Some \<lparr>bc_pubkey = ca_pubkey (cft_committed_account task), bc_commit_id = cft_commit_id task\<rparr>
      in case cft_delivery task of
           StateInBuffer \<Rightarrow> cleanup
         | DiffInBuffer _ \<Rightarrow> cleanup
         | _ \<Rightarrow> None)"

definition cleanup_instruction :: "runtime \<Rightarrow> buffer_cleanup \<Rightarrow> pubkey \<Rightarrow> instruction" where
  "cleanup_instruction rt c authority = create_close_ix rt authority (bc_pubkey c) (bc_commit_id c)"

definition cleanup_buffer_pda :: "runtime \<Rightarrow> buffer_cleanup \<Rightarrow> pubkey \<Rightarrow> pubkey" where
  "cleanup_buffer_pda rt c authority = fst (buffer_pda rt authority (bc_pubkey c) (bc_commit_id c))"

section \<open>Running instructions\<close>

text \<open>
  The accounts an instruction names are passed to the program and stored back on success; an
  error leaves them as they were.
\<close>

type_synonym account_store = "pubkey \<Rightarrow> account_info"

definition passed :: "account_store \<Rightarrow> account_meta \<Rightarrow> account_info" where
  "passed st m = (st (am_pubkey m))\<lparr>ai_key := am_pubkey m, ai_is_signer := am_is_signer m\<rparr>"

definition store_back :: "account_store \<Rightarrow> account_info list \<Rightarrow> account_store" where
  "store_back st accounts = foldl (\<lambda>s a. s(ai_key a := a)) st accounts"

definition execute_ix :: "runtime \<Rightarrow> account_store \<Rightarrow> instruction \<Rightarrow> (program_error, account_store) result" where
  "execute_ix rt st ix =
     rbind (process rt (ix_program_id ix) (map (passed st) (ix_accounts ix)) (ix_data ix))
       (\<lambda>accounts. Inr (store_back st accounts))"

definition run_ixs :: "runtime \<Rightarrow> account_store \<Rightarrow> instruction list \<Rightarrow> (program_error, account_store) result" where
  "run_ixs rt st ixs = try_fold (execute_ix rt) st ixs"

section \<open>The state of a delivery\<close>

abbreviation write_ix :: "runtime \<Rightarrow> buffer_preparation \<Rightarrow> pubkey \<Rightarrow> nat \<Rightarrow> instruction" where
  "write_ix rt prep authority i \<equiv>
     create_write_ix rt authority (bp_pubkey prep)
       (cc_offset (chunk_at (bp_buffer_data prep) (ck_chunk_size (bp_chunks prep)) i))
       (cc_data_chunk (chunk_at (bp_buffer_data prep) (ck_chunk_size (bp_chunks prep)) i)) (bp_commit_id prep)"

definition prep_ok :: "buffer_preparation \<Rightarrow> bool" where
  "prep_ok prep \<longleftrightarrow> from_data_length (length (bp_buffer_data prep)) MAX_WRITE_CHUNK_SIZE = Some (bp_chunks prep)"

definition keys_apart :: "runtime \<Rightarrow> buffer_preparation \<Rightarrow> pubkey \<Rightarrow> bool" where
  "keys_apart rt prep authority \<longleftrightarrow>
     distinct [authority, fst (chunks_pda rt authority (bp_pubkey prep) (bp_commit_id prep)),
       fst (buffer_pda rt authority (bp_pubkey prep) (bp_commit_id prep)), rt_system_program rt]"

abbreviation chunks_account :: "runtime \<Rightarrow> buffer_preparation \<Rightarrow> pubkey \<Rightarrow> account_store \<Rightarrow> account_info" where
  "chunks_account rt prep authority st \<equiv> st (fst (chunks_pda rt authority (bp_pubkey prep) (bp_commit_id prep)))"

abbreviation buffer_account :: "runtime \<Rightarrow> buffer_preparation \<Rightarrow> pubkey \<Rightarrow> account_store \<Rightarrow> account_info" where
  "buffer_account rt prep authority st \<equiv> st (fst (buffer_pda rt authority (bp_pubkey prep) (bp_commit_id prep)))"

text \<open>
  \<open>n\<close> bytes of the buffer are allocated, the chunks in \<open>marks\<close> are delivered, and what they hold
  is the data.
\<close>

definition delivering ::
    "runtime \<Rightarrow> buffer_preparation \<Rightarrow> pubkey \<Rightarrow> nat \<Rightarrow> nat set \<Rightarrow> account_store \<Rightarrow> bool" where
  "delivering rt prep authority n marks st \<longleftrightarrow>
     length (ai_data (buffer_account rt prep authority st)) = n
   \<and> (\<exists>c. ai_data (chunks_account rt prep authority st) = rt_enc_chunks rt c \<and> chunks_ok c
        \<and> ck_count c = ck_count (bp_chunks prep) \<and> ck_chunk_size c = 842 \<and> delivered c = marks)
   \<and> (\<forall>i \<in> marks. \<forall>j. i * 842 \<le> j \<and> j < i * 842 + 842 \<and> j < length (bp_buffer_data prep) \<longrightarrow>
        j < n \<and> ai_data (buffer_account rt prep authority st) ! j = bp_buffer_data prep ! j)"

lemma max_write_chunk_size: "MAX_WRITE_CHUNK_SIZE = 842"
  by (simp add: MAX_WRITE_CHUNK_SIZE_def MAX_INSTRUCTION_DATA_SIZE_def IX_WRITE_SIZE_WITHOUT_CHUNKS_def
      BUDGET_SET_COMPUTE_UNIT_PRICE_BYTES_def BUDGET_SET_COMPUTE_UNIT_LIMIT_BYTES_def)

lemma alloc_size: "unat MAX_ACCOUNT_ALLOC_PER_INSTRUCTION_SIZE = 10240"
  "unat (ucast MAX_ACCOUNT_ALLOC_PER_INSTRUCTION_SIZE :: u64) = 10240"
  by (simp_all add: MAX_ACCOUNT_ALLOC_PER_INSTRUCTION_SIZE_def)

lemma prep_ok_from_task:
  "preparation_from_commit_finalize diff task = Some (Some prep) \<Longrightarrow> prep_ok prep"
  by (auto simp: preparation_from_commit_finalize_def prep_ok_def Let_def split: commit_delivery.splits)

lemma prep_bounds:
  assumes "prep_ok prep"
  shows "ck_count (bp_chunks prep) < 81920" "length (bp_buffer_data prep) \<le> ck_count (bp_chunks prep) * 842"
    "i < ck_count (bp_chunks prep) \<Longrightarrow> i * 842 < length (bp_buffer_data prep)"
    "chunks_ok (bp_chunks prep)" "delivered (bp_chunks prep) = {}" "ck_chunk_size (bp_chunks prep) = 842"
    "chunks_new (ck_count (bp_chunks prep)) 842 = Some (bp_chunks prep)"
proof -
  let ?n = "ck_count (bp_chunks prep)"
  have new': "chunks_new (div_ceil (length (bp_buffer_data prep)) 842) 842 = Some (bp_chunks prep)"
    using assms by (simp add: prep_ok_def from_data_length_def max_write_chunk_size)
  then have n: "?n = div_ceil (length (bp_buffer_data prep)) 842" by (rule chunks_new_ok(3))
  with new' show new: "chunks_new ?n 842 = Some (bp_chunks prep)" by simp
  have "div_ceil ?n 8 < 10240"
    using new by (auto simp: chunks_new_def struct_size_def count_to_bitfield_bytes_def BITS_PER_BYTE_def alloc_size
        split: if_splits)
  then have "div_ceil ?n 8 \<le> 10239" by simp
  then show "?n < 81920" by (simp add: div_ceil_le_iff)
  show "length (bp_buffer_data prep) \<le> ?n * 842" using div_ceil_le_iff [of 842 "length (bp_buffer_data prep)" ?n] n by simp
  show "i < ?n \<Longrightarrow> i * 842 < length (bp_buffer_data prep)"
    using div_ceil_le_iff [of 842 "length (bp_buffer_data prep)" i] n by (simp add: not_le [symmetric])
  show "chunks_ok (bp_chunks prep)" "delivered (bp_chunks prep) = {}" "ck_chunk_size (bp_chunks prep) = 842" using chunks_new_ok [OF new] by auto
qed

lemma write_instructions_eq:
  assumes "prep_ok prep"
  shows "write_instructions rt prep authority = Some (map (write_ix rt prep authority) [0..<ck_count (bp_chunks prep)])"
proof -
  note b = prep_bounds [OF assms]
  have s: "unat (ck_chunk_size (bp_chunks prep)) = 842" using b(6) by simp
  have "assert_sizes (bp_chunks prep) (ck_chunk_size (bp_chunks prep)) (bp_buffer_data prep)"
  proof (cases "ck_count (bp_chunks prep)")
    case 0
    then show ?thesis using b(2) by (simp add: assert_sizes_def s)
  next
    case (Suc m)
    then show ?thesis using b(2) b(3) [of m] by (simp add: assert_sizes_def s)
  qed
  then show ?thesis
    using b(1,2,3) s by (simp add: write_instructions_def iter_all_chunks_def iter_collect_eq chunks_iter_new_def comp_def)
qed

section \<open>One instruction at a time\<close>

lemma bytes_eqI:
  "length xs = length ys \<Longrightarrow> (\<And>j. j < length ys \<Longrightarrow> xs ! j = ys ! j) \<Longrightarrow> xs = ys"
  by (rule nth_equalityI) auto

lemma process_init_effect:
  assumes "runtime_ok rt"
    and "process_init rt p [a, c, b, s] k cs bs i cb bb n sz = Inr accounts'"
  obtains a' c' b' tracker where "accounts' = [a', c', b', s]" "ai_key a' = ai_key a" "ai_key c' = ai_key c"
    "ai_key b' = ai_key b" "chunks_new n sz = Some tracker" "ai_data c' = rt_enc_chunks rt tracker"
    "ai_data b' = replicate (min (unat bs) 10240) 0"
proof -
  have m: "unat (min bs (ucast MAX_ACCOUNT_ALLOC_PER_INSTRUCTION_SIZE :: u64)) = min (unat bs) 10240"
    by (simp add: min_def word_le_nat_alt alloc_size)
  show thesis
    using assms(2) that
    by (auto simp: process_init_def result_simps Let_def copy_from_slice_def m dest!: runtime_okD(2) [OF assms(1)])
qed

lemma init_delivers:
  assumes "runtime_ok rt" and "prep_ok prep" and "keys_apart rt prep authority"
    and "execute_ix rt st (init_instruction rt prep authority) = Inr st'"
  shows "delivering rt prep authority (min (length (bp_buffer_data prep)) 10240) {} st'"
proof -
  note b = prep_bounds [OF assms(2)]
  let ?c = "bp_chunks prep" and ?d = "bp_buffer_data prep"
  obtain ck cb where cp: "chunks_pda rt authority (bp_pubkey prep) (bp_commit_id prep) = (ck, cb)" by fastforce
  obtain bk bb where bp: "buffer_pda rt authority (bp_pubkey prep) (bp_commit_id prep) = (bk, bb)" by fastforce
  have d: "distinct [authority, ck, bk, rt_system_program rt]" using assms(3) by (simp add: keys_apart_def cp bp)
  have len: "unat (of_nat (length ?d) :: u64) = length ?d"
    using b(1,2) by (simp add: unat_of_nat)
  have enc: "rt_dec_ix rt (rt_enc_ix rt ix) = Some ix" if "encodable ix" for ix
    using runtime_okD(6) [OF assms(1) that] .
  obtain accounts' where p: "process_init rt committor_id
      [passed st (meta_new authority True), passed st (meta_new ck False), passed st (meta_new bk False),
       passed st (meta_new_readonly (rt_system_program rt) False)]
      (bp_pubkey prep) (of_nat (serialized_size ?c)) (of_nat (length ?d)) (bp_commit_id prep) cb bb
      (ck_count ?c) (ck_chunk_size ?c) = Inr accounts'"
    and st': "st' = store_back st accounts'"
    using assms(4) b(1)
    by (auto simp: execute_ix_def init_instruction_def create_init_ix_def cp bp process_def assert_program_id_def
        enc result_simps)
  obtain a' c' b' tracker where e:
    "accounts' = [a', c', b', passed st (meta_new_readonly (rt_system_program rt) False)]"
    "ai_key a' = ai_key (passed st (meta_new authority True))" "ai_key c' = ai_key (passed st (meta_new ck False))"
    "ai_key b' = ai_key (passed st (meta_new bk False))" "chunks_new (ck_count ?c) (ck_chunk_size ?c) = Some tracker"
    "ai_data c' = rt_enc_chunks rt tracker" "ai_data b' = replicate (min (unat (of_nat (length ?d) :: u64)) 10240) 0"
    by (rule process_init_effect [OF assms(1) p])
  have "tracker = ?c" using e(5) b(6,7) by simp
  then show ?thesis
    using e(1-4,6,7) st' d b(4,5,6) len
    by (auto simp: delivering_def cp bp store_back_def passed_def meta_new_def meta_new_readonly_def)
qed

lemma realloc_delivers:
  assumes "runtime_ok rt" and "prep_ok prep" and "keys_apart rt prep authority"
    and "delivering rt prep authority n {} st"
  shows "\<exists>st'. execute_ix rt st (create_realloc_buffer_ix rt authority (bp_pubkey prep)
      (of_nat (length (bp_buffer_data prep))) (bp_commit_id prep) j) = Inr st'
    \<and> delivering rt prep authority (if n < length (bp_buffer_data prep) then min (length (bp_buffer_data prep)) (n + 10240) else n) {} st'"
proof -
  note b = prep_bounds [OF assms(2)]
  let ?d = "bp_buffer_data prep"
  obtain ck cb where cp: "chunks_pda rt authority (bp_pubkey prep) (bp_commit_id prep) = (ck, cb)" by fastforce
  obtain bk bb where bp: "buffer_pda rt authority (bp_pubkey prep) (bp_commit_id prep) = (bk, bb)" by fastforce
  have d: "distinct [authority, ck, bk]" using assms(3) by (simp add: keys_apart_def cp bp)
  have len: "unat (of_nat (length ?d) :: u64) = length ?d" and small: "length ?d < 2 ^ 32"
    using b(1,2) by (simp_all add: unat_of_nat)
  have n: "length (ai_data (st bk)) = n" using assms(4) by (simp add: delivering_def bp)
  let ?auth = "passed st (meta_new authority True)" and ?buf = "passed st (meta_new bk False)"
  have keys: "ai_key ?auth = authority" "ai_key ?buf = bk" "ai_data ?buf = ai_data (st bk)" "ai_is_signer ?auth"
    by (simp_all add: passed_def meta_new_def)
  let ?m = "if n < length ?d then min (length ?d) (n + 10240) else n"
  have "\<exists>buf'. process_realloc_buffer rt [?auth, ?buf] (bp_pubkey prep) (of_nat (length ?d)) (bp_commit_id prep) bb j
      = Inr [?auth, buf'] \<and> ai_key buf' = bk \<and> length (ai_data buf') = ?m"
  proof (cases "n < length ?d")
    case False
    then show ?thesis using len n keys by (simp add: process_realloc_buffer_def)
  next
    case True
    then have "unat (of_nat n + ucast MAX_ACCOUNT_ALLOC_PER_INSTRUCTION_SIZE :: u64) = n + 10240"
      using small alloc_size by (subst unat_word_ariths) (simp add: unat_of_nat)
    then have "unat (min (of_nat (length ?d)) (of_nat n + ucast MAX_ACCOUNT_ALLOC_PER_INSTRUCTION_SIZE :: u64)) = ?m"
      using True len by (simp add: min_def word_le_nat_alt)
    then have "process_realloc_buffer rt [?auth, ?buf] (bp_pubkey prep) (of_nat (length ?d)) (bp_commit_id prep) bb j
        = Inr [?auth, resized ?m ?buf]"
      using True len n keys pda_verified(2) [OF assms(1) bp keys(2)] runtime_okD(3) [OF assms(1), of ?m ?buf]
      by (simp add: process_realloc_buffer_def assert_is_signer_def Let_def)
    then show ?thesis using keys n True by (auto simp: resized_def)
  qed
  then obtain buf' where p: "process_realloc_buffer rt [?auth, ?buf] (bp_pubkey prep) (of_nat (length ?d))
      (bp_commit_id prep) bb j = Inr [?auth, buf']" "ai_key buf' = bk" "length (ai_data buf') = ?m" by blast
  have "execute_ix rt st (create_realloc_buffer_ix rt authority (bp_pubkey prep)
      (of_nat (length ?d)) (bp_commit_id prep) j) = Inr (store_back st [?auth, buf'])"
    using p(1) runtime_okD(6) [OF assms(1)]
    by (simp add: execute_ix_def create_realloc_buffer_ix_def bp process_def assert_program_id_def)
  moreover have "delivering rt prep authority ?m {} (store_back st [?auth, buf'])"
    using assms(4) p(2,3) keys d by (auto simp: delivering_def cp bp store_back_def)
  ultimately show ?thesis by blast
qed

lemma write_at_nth:
  assumes "a + length ys \<le> length xs"
  shows "length (write_at xs a ys) = length xs"
    and "j < length xs \<Longrightarrow> write_at xs a ys ! j = (if a \<le> j \<and> j < a + length ys then ys ! (j - a) else xs ! j)"
  using assms by (auto simp: write_at_def nth_append min_def)

lemma process_write_effect:
  assumes "runtime_ok rt" and "chunks_pda rt (ai_key a) k i = (ai_key c, cb)"
    and "buffer_pda rt (ai_key a) k i = (ai_key b, bb)" and "ai_is_signer a"
    and "ai_data c = rt_enc_chunks rt t" "chunks_ok t" "ck_count t < 2 ^ 32"
    and "set_offset_delivered t (unat off) = Some (Inr t')"
    and "unat off + length ys \<le> length (ai_data b)" "unat off + length ys < 2 ^ 32"
  shows "process_write rt [a, c, b] k off ys i cb bb =
    Inr [a, c\<lparr>ai_data := rt_enc_chunks rt t'\<rparr>, b\<lparr>ai_data := write_at (ai_data b) (unat off) ys\<rparr>]"
proof -
  obtain j where j: "set_chunk_delivered t j = Some (Inr t')"
    using assms(8) by (auto simp: set_offset_delivered_def split: if_splits)
  note t' = set_chunk_delivered_Inr [OF assms(6) j]
  have enc: "length (rt_enc_chunks rt t) = length (rt_enc_chunks rt t')"
    using runtime_okD(5) [OF assms(1)] assms(6,7) t' by (simp add: serialized_size_def)
  have add: "checked_add off (of_nat (length ys)) = Some (off + of_nat (length ys))"
    "unat (off + of_nat (length ys)) = unat off + length ys"
    using assms(10) by (simp_all add: checked_add_def unat_of_nat unat_word_ariths)
  show ?thesis
    using assms(4,5,8,9) enc add pda_verified(1) [OF assms(1,2) refl] pda_verified(2) [OF assms(1,3) refl]
      runtime_okD(4) [OF assms(1,6,7)]
    by (simp add: process_write_def assert_is_signer_def verify_seeds_and_pdas_def copy_from_slice_def Let_def)
qed

lemma write_delivers:
  assumes "runtime_ok rt" and "prep_ok prep" and "keys_apart rt prep authority"
    and "delivering rt prep authority (length (bp_buffer_data prep)) marks st"
    and "i < ck_count (bp_chunks prep)"
  shows "\<exists>st'. execute_ix rt st (write_ix rt prep authority i) = Inr st'
    \<and> delivering rt prep authority (length (bp_buffer_data prep)) (insert i marks) st'"
proof -
  note b = prep_bounds [OF assms(2)]
  let ?d = "bp_buffer_data prep" and ?n = "length (bp_buffer_data prep)"
  define off ys where "off = (of_nat (i * 842) :: u32)" and "ys = take 842 (drop (i * 842) ?d)"
  obtain ck cb where cp: "chunks_pda rt authority (bp_pubkey prep) (bp_commit_id prep) = (ck, cb)" by fastforce
  obtain bk bb where bp: "buffer_pda rt authority (bp_pubkey prep) (bp_commit_id prep) = (bk, bb)" by fastforce
  have d: "distinct [authority, ck, bk]" using assms(3) by (simp add: keys_apart_def cp bp)
  have small: "?n < 2 ^ 32" using b(1,2) by simp
  have i: "i * 842 < ?n" using b(3) [OF assms(5)] .
  have off: "unat off = i * 842" using i small by (simp add: off_def unat_of_nat del: of_nat_mult)
  have ys: "length ys = min 842 (?n - i * 842)" by (simp add: ys_def min.commute)
  obtain t where t: "ai_data (st ck) = rt_enc_chunks rt t" "chunks_ok t" "ck_count t = ck_count (bp_chunks prep)"
    "ck_chunk_size t = 842" "delivered t = marks" and n: "length (ai_data (st bk)) = ?n"
    and holds: "\<forall>i \<in> marks. \<forall>j. i * 842 \<le> j \<and> j < i * 842 + 842 \<and> j < ?n \<longrightarrow> j < ?n \<and> ai_data (st bk) ! j = ?d ! j"
    using assms(4) by (auto simp: delivering_def cp bp)
  obtain t' where t': "set_chunk_delivered t i = Some (Inr t')" "chunks_ok t'"
    "delivered t' = insert i (delivered t)" "ck_count t' = ck_count t" "ck_chunk_size t' = ck_chunk_size t"
    using set_chunk_delivered_ok [OF t(2), of i] assms(5) t(3) by auto
  have mark: "set_offset_delivered t (unat off) = Some (Inr t')"
    using t'(1) t(4) by (simp add: set_offset_delivered_def off)
  let ?auth = "passed st (meta_new authority True)" and ?ch = "passed st (meta_new ck False)"
    and ?buf = "passed st (meta_new bk False)"
  have keys: "ai_key ?auth = authority" "ai_key ?ch = ck" "ai_key ?buf = bk" "ai_is_signer ?auth"
    "ai_data ?ch = ai_data (st ck)" "ai_data ?buf = ai_data (st bk)"
    by (simp_all add: passed_def meta_new_def)
  let ?after = "[?auth, ?ch\<lparr>ai_data := rt_enc_chunks rt t'\<rparr>, ?buf\<lparr>ai_data := write_at (ai_data ?buf) (unat off) ys\<rparr>]"
  have fit: "unat off + length ys \<le> length (ai_data ?buf)" "unat off + length ys < 2 ^ 32"
    using n ys i small off keys by auto
  have "process_write rt [?auth, ?ch, ?buf] (bp_pubkey prep) off ys (bp_commit_id prep) cb bb = Inr ?after"
    using t(1,2,3) b(1) mark fit keys cp bp
    by (intro process_write_effect [OF assms(1), where t = t]) simp_all
  then have "execute_ix rt st (write_ix rt prep authority i) = Inr (store_back st ?after)"
    using runtime_okD(6) [OF assms(1)] ys
    by (simp add: execute_ix_def create_write_ix_def cp bp process_def assert_program_id_def chunk_at_def b(6)
        flip: off_def ys_def del: of_nat_mult)
  moreover have "delivering rt prep authority ?n (insert i marks) (store_back st ?after)"
  proof -
    note nth = write_at_nth [OF fit(1)]
    have "write_at (ai_data ?buf) (unat off) ys ! j = ?d ! j"
      if "i' \<in> insert i marks" "i' * 842 \<le> j" "j < i' * 842 + 842" "j < ?n" for i' j
    proof (cases "i * 842 \<le> j \<and> j < i * 842 + length ys")
      case True
      then have "j - i * 842 < 842" using ys by auto
      then have "ys ! (j - i * 842) = ?d ! j" using True i by (simp add: ys_def)
      then show ?thesis using nth(2) [of j] n keys that(4) off True by simp
    next
      case False
      then have "i' \<noteq> i" using that ys by auto
      then have "ai_data (st bk) ! j = ?d ! j" using holds that by blast
      then show ?thesis using nth(2) [of j] False n keys that(4) off by simp
    qed
    then show ?thesis
      using d keys t t' n nth(1)
      by (auto simp: delivering_def cp bp store_back_def)
  qed
  ultimately show ?thesis by blast
qed

section \<open>The whole delivery\<close>

lemma run_ixs_simps [simp]:
  "run_ixs rt st [] = Inr st"
  "run_ixs rt st (ix # ixs) = rbind (execute_ix rt st ix) (\<lambda>st'. run_ixs rt st' ixs)"
  by (simp_all add: run_ixs_def)

lemma subset_map_obtain:
  assumes "set ws \<subseteq> f ` A"
  obtains xs where "ws = map f xs" "set xs \<subseteq> A"
proof -
  have "\<exists>xs. ws = map f xs \<and> set xs \<subseteq> A" using assms
  proof (induction ws)
    case (Cons w ws)
    then obtain x xs where "w = f x" "x \<in> A" "ws = map f xs" "set xs \<subseteq> A" by auto
    then show ?case by (intro exI [of _ "x # xs"]) simp
  qed simp
  then show thesis using that by blast
qed

lemma reallocs_deliver:
  assumes "runtime_ok rt" and "prep_ok prep" and "keys_apart rt prep authority"
  shows "delivering rt prep authority n {} st \<Longrightarrow> n \<le> length (bp_buffer_data prep) \<Longrightarrow>
    \<exists>st'. run_ixs rt st (map (\<lambda>j. create_realloc_buffer_ix rt authority (bp_pubkey prep)
        (of_nat (length (bp_buffer_data prep))) (bp_commit_id prep) (of_nat j)) js) = Inr st'
      \<and> delivering rt prep authority (min (length (bp_buffer_data prep)) (n + length js * 10240)) {} st'"
proof (induction js arbitrary: n st)
  case (Cons j js)
  let ?m = "min (length (bp_buffer_data prep)) (n + 10240)"
  have m: "(if n < length (bp_buffer_data prep) then ?m else n) = ?m" using Cons.prems(2) by simp
  obtain st1 where "execute_ix rt st (create_realloc_buffer_ix rt authority (bp_pubkey prep)
      (of_nat (length (bp_buffer_data prep))) (bp_commit_id prep) (of_nat j)) = Inr st1"
    "delivering rt prep authority ?m {} st1"
    using realloc_delivers [OF assms Cons.prems(1)] unfolding m by blast
  moreover have "min (length (bp_buffer_data prep)) (?m + length js * 10240) =
      min (length (bp_buffer_data prep)) (n + length (j # js) * 10240)" by auto
  ultimately show ?case using Cons.IH [of ?m st1] by simp
qed (simp add: min_absorb2)

lemma writes_deliver:
  assumes "runtime_ok rt" and "prep_ok prep" and "keys_apart rt prep authority"
  shows "delivering rt prep authority (length (bp_buffer_data prep)) marks st \<Longrightarrow>
    set is \<subseteq> {..<ck_count (bp_chunks prep)} \<Longrightarrow>
    \<exists>st'. run_ixs rt st (map (write_ix rt prep authority) is) = Inr st'
      \<and> delivering rt prep authority (length (bp_buffer_data prep)) (marks \<union> set is) st'"
proof (induction "is" arbitrary: marks st)
  case (Cons i "is")
  obtain st1 where st1: "execute_ix rt st (write_ix rt prep authority i) = Inr st1"
    "delivering rt prep authority (length (bp_buffer_data prep)) (insert i marks) st1"
    using write_delivers [OF assms Cons.prems(1), of i] Cons.prems(2) by auto
  from Cons.IH [OF st1(2)] st1(1) Cons.prems(2) show ?case by simp
qed simp

lemma realloc_instructions_eq:
  assumes "prep_ok prep"
  shows "\<exists>js. realloc_instructions rt prep authority = map (\<lambda>j. create_realloc_buffer_ix rt authority (bp_pubkey prep)
      (of_nat (length (bp_buffer_data prep))) (bp_commit_id prep) (of_nat j)) js
    \<and> min (length (bp_buffer_data prep)) (min (length (bp_buffer_data prep)) 10240 + length js * 10240) =
      length (bp_buffer_data prep)"
proof -
  let ?n = "length (bp_buffer_data prep)"
  have n: "unat (of_nat ?n :: u64) = ?n" using prep_bounds(1,2) [OF assms] by (simp add: unat_of_nat)
  show ?thesis
  proof (cases "?n \<le> 10240")
    case True
    then have "realloc_instructions rt prep authority = []"
      using n by (simp add: realloc_instructions_def create_realloc_buffer_ixs_def word_le_nat_alt alloc_size)
    then show ?thesis using True by (intro exI [of _ "[]"]) simp
  next
    case False
    have sub: "unat (of_nat ?n - ucast MAX_ACCOUNT_ALLOC_PER_INSTRUCTION_SIZE :: u64) = ?n - 10240"
      using False n by (simp add: unat_sub word_le_nat_alt alloc_size)
    let ?js = "[1..<div_ceil (?n - 10240) 10240 + 1]"
    have "?n - 10240 \<le> div_ceil (?n - 10240) 10240 * 10240"
      using div_ceil_le_iff [of 10240 "?n - 10240" "div_ceil (?n - 10240) 10240"] by simp
    then have "min ?n (min ?n 10240 + length ?js * 10240) = ?n" using False by simp
    moreover have "realloc_instructions rt prep authority = map (\<lambda>j. create_realloc_buffer_ix rt authority
        (bp_pubkey prep) (of_nat ?n) (bp_commit_id prep) (of_nat j)) ?js"
      using False n sub
      by (simp add: realloc_instructions_def create_realloc_buffer_ixs_def word_le_nat_alt alloc_size
          create_realloc_buffer_ixs_to_add_remaining_def Let_def)
    ultimately show ?thesis by (intro exI [of _ ?js]) simp
  qed
qed

lemma write_ix_inj:
  assumes "runtime_ok rt" and "prep_ok prep" and "i < ck_count (bp_chunks prep)" and "j < ck_count (bp_chunks prep)"
    and "write_ix rt prep authority i = write_ix rt prep authority j"
  shows "i = j"
proof -
  note b = prep_bounds [OF assms(2)]
  have off: "unat (of_nat (x * 842) :: u32) = x * 842" if "x < ck_count (bp_chunks prep)" for x
    using b(3) [OF that] b(1,2) by (simp add: unat_of_nat del: of_nat_mult)
  obtain ck cb where cp: "chunks_pda rt authority (bp_pubkey prep) (bp_commit_id prep) = (ck, cb)" by fastforce
  obtain bk bb where bp: "buffer_pda rt authority (bp_pubkey prep) (bp_commit_id prep) = (bk, bb)" by fastforce
  let ?w = "\<lambda>x. CI_Write (bp_pubkey prep) (bp_commit_id prep) cb bb (of_nat (x * 842)) (take 842 (drop (x * 842) (bp_buffer_data prep)))"
  have enc: "encodable (?w x)" for x by (simp add: min.strict_coboundedI2)
  have "rt_enc_ix rt (?w i) = rt_enc_ix rt (?w j)"
    using assms(5) by (simp add: create_write_ix_def cp bp chunk_at_def b(6) del: of_nat_mult)
  then have "?w i = ?w j" using runtime_okD(6) [OF assms(1) enc] by (metis option.inject)
  then have "(of_nat (i * 842) :: u32) = of_nat (j * 842)" by (simp del: of_nat_mult)
  then have "i * 842 = j * 842" using off assms(3,4) by metis
  then show ?thesis by simp
qed

text \<open>
  Claim C17. A prepared commit reaches its buffer: once the init instruction of a preparation
  has succeeded, every realloc instruction succeeds, and then every sequence of its write
  instructions, in any order and with repetitions, succeeds. The tracker read back from the
  chain is complete exactly when every write instruction has been run, and a complete tracker
  means that the buffer account holds precisely the data of the commit.
\<close>

theorem buffer_delivered:
  assumes "runtime_ok rt" and "preparation_from_commit_finalize diff task = Some (Some prep)"
    and "keys_apart rt prep authority"
    and "execute_ix rt st (init_instruction rt prep authority) = Inr st0"
    and "write_instructions rt prep authority = Some writes" and "set ws \<subseteq> set writes"
  shows "\<exists>st1 st2 tracker. run_ixs rt st0 (realloc_instructions rt prep authority) = Inr st1
    \<and> run_ixs rt st1 ws = Inr st2
    \<and> rt_dec_chunks rt (ai_data (chunks_account rt prep authority st2)) = Some tracker
    \<and> (is_complete tracker = Some True \<longleftrightarrow> set ws = set writes)
    \<and> (is_complete tracker = Some True \<longrightarrow> ai_data (buffer_account rt prep authority st2) = bp_buffer_data prep)"
proof -
  have ok: "prep_ok prep" using prep_ok_from_task [OF assms(2)] .
  note b = prep_bounds [OF ok]
  let ?W = "write_ix rt prep authority" and ?n = "ck_count (bp_chunks prep)" and ?len = "length (bp_buffer_data prep)"
  have writes: "writes = map ?W [0..<?n]" using assms(5) write_instructions_eq [OF ok] by simp
  have "set ws \<subseteq> ?W ` {..<?n}" using assms(6) unfolding writes set_map by (simp add: atLeast0LessThan)
  then obtain "is" where ws: "ws = map ?W is" "set is \<subseteq> {..<?n}" by (rule subset_map_obtain)
  obtain st1 where st1: "run_ixs rt st0 (realloc_instructions rt prep authority) = Inr st1"
    "delivering rt prep authority ?len {} st1"
    using reallocs_deliver [OF assms(1) ok assms(3) init_delivers [OF assms(1) ok assms(3,4)]]
      realloc_instructions_eq [OF ok, of rt authority] by (metis min.cobounded1)
  obtain st2 where st2: "run_ixs rt st1 ws = Inr st2" "delivering rt prep authority ?len (set is) st2"
    using writes_deliver [OF assms(1) ok assms(3) st1(2) ws(2)] ws(1) by auto
  obtain t where t: "ai_data (chunks_account rt prep authority st2) = rt_enc_chunks rt t" "chunks_ok t"
    "ck_count t = ?n" "delivered t = set is"
    using st2(2) by (auto simp: delivering_def)
  have dec: "rt_dec_chunks rt (ai_data (chunks_account rt prep authority st2)) = Some t"
    using t b(1) runtime_okD(4) [OF assms(1) t(2)] by simp
  have complete: "is_complete t = Some True \<longleftrightarrow> set is = {..<?n}"
    using is_complete_eq [OF t(2)] t(3,4) ws(2) by auto
  have inj: "inj_on ?W {..<?n}" using write_ix_inj [OF assms(1) ok] by (auto intro!: inj_onI)
  have "set ws = set writes \<longleftrightarrow> ?W ` set is = ?W ` {..<?n}"
    by (simp add: ws(1) writes atLeast0LessThan)
  then have all: "is_complete t = Some True \<longleftrightarrow> set ws = set writes"
    using complete inj_on_image_eq_iff [OF inj ws(2)] by simp
  have "ai_data (buffer_account rt prep authority st2) = bp_buffer_data prep" if "set is = {..<?n}"
  proof (rule bytes_eqI)
    show "length (ai_data (buffer_account rt prep authority st2)) = ?len" using st2(2) by (simp add: delivering_def)
    fix j assume j: "j < ?len"
    have "j div 842 < ?n" using j b(2) by (simp add: div_less_iff_less_mult)
    then have "j div 842 \<in> set is" using that by simp
    moreover have "j div 842 * 842 \<le> j" "j < j div 842 * 842 + 842"
      using dividend_less_div_times [of 842 j] by simp_all
    ultimately show "ai_data (buffer_account rt prep authority st2) ! j = bp_buffer_data prep ! j"
      using st2(2) j unfolding delivering_def by blast
  qed
  then show ?thesis using st1(1) st2(1) dec all complete by blast
qed

end
