(* ===== verification/Committor_Runtime.thy ===== *)
theory Committor_Runtime
  imports Buffer_Delivery
begin

text \<open>
  A concrete runtime for the committor program: the Borsh layout of the tracker and of the
  instructions (little-endian integers, length prefixes, a tag byte), an address derivation, and
  account creation and resizing as the runtime documents them. It satisfies \<open>runtime_ok\<close>, so the
  theorems about the program apply to it; the witnesses run on it.
\<close>

section \<open>The codec\<close>

definition borsh_chunks :: "chunks \<Rightarrow> bytes" where
  "borsh_chunks c = le_bytes 4 (length (ck_bits c)) @ ck_bits c @ le_bytes 8 (ck_count c) @ le_bytes 2 (unat (ck_chunk_size c))"

definition unborsh_chunks :: "bytes \<Rightarrow> chunks option" where
  "unborsh_chunks bs =
     (let n = field 0 4 bs
      in if length bs = 14 + n
         then Some \<lparr>ck_bits = take n (drop 4 bs), ck_count = field (4 + n) 8 bs,
                    ck_chunk_size = of_nat (field (12 + n) 2 bs)\<rparr>
         else None)"

fun borsh_ix :: "committor_instruction \<Rightarrow> bytes" where
  "borsh_ix (CI_Init k cs bs i cb bb n s) =
     0 # le_bytes 32 (unat k) @ le_bytes 8 (unat cs) @ le_bytes 8 (unat bs) @ le_bytes 8 (unat i) @ cb # bb #
       le_bytes 8 n @ le_bytes 2 (unat s)"
| "borsh_ix (CI_ReallocBuffer k bs i bb n) =
     1 # le_bytes 32 (unat k) @ le_bytes 8 (unat bs) @ le_bytes 8 (unat i) @ bb # le_bytes 2 (unat n)"
| "borsh_ix (CI_Write k i cb bb off d) =
     2 # le_bytes 32 (unat k) @ le_bytes 8 (unat i) @ cb # bb # le_bytes 4 (unat off) @ le_bytes 4 (length d) @ d"
| "borsh_ix (CI_Close k i cb bb) = 3 # le_bytes 32 (unat k) @ le_bytes 8 (unat i) @ [cb, bb]"

fun unborsh_ix :: "bytes \<Rightarrow> committor_instruction option" where
  "unborsh_ix [] = None"
| "unborsh_ix (tag # bs) =
     (if tag = 0 \<and> length bs = 68 then
        Some (CI_Init (of_nat (field 0 32 bs)) (of_nat (field 32 8 bs)) (of_nat (field 40 8 bs))
          (of_nat (field 48 8 bs)) (bs ! 56) (bs ! 57) (field 58 8 bs) (of_nat (field 66 2 bs)))
      else if tag = 1 \<and> length bs = 51 then
        Some (CI_ReallocBuffer (of_nat (field 0 32 bs)) (of_nat (field 32 8 bs)) (of_nat (field 40 8 bs))
          (bs ! 48) (of_nat (field 49 2 bs)))
      else if tag = 2 \<and> length bs = 50 + field 46 4 bs then
        Some (CI_Write (of_nat (field 0 32 bs)) (of_nat (field 32 8 bs)) (bs ! 40) (bs ! 41)
          (of_nat (field 42 4 bs)) (drop 50 bs))
      else if tag = 3 \<and> length bs = 42 then
        Some (CI_Close (of_nat (field 0 32 bs)) (of_nat (field 32 8 bs)) (bs ! 40) (bs ! 41))
      else None)"

lemma borsh_chunks_inverse:
  assumes "length (ck_bits c) < 2 ^ 32" and "ck_count c < 2 ^ 64"
  shows "unborsh_chunks (borsh_chunks c) = Some c"
proof -
  have f: "field 0 4 (borsh_chunks c) = length (ck_bits c)"
    "field (4 + length (ck_bits c)) 8 (borsh_chunks c) = ck_count c"
    "field (12 + length (ck_bits c)) 2 (borsh_chunks c) = unat (ck_chunk_size c)"
    using assms unat_bound [of "ck_chunk_size c"] by (auto simp: borsh_chunks_def field_def le_nat_bytes)
  have "length (borsh_chunks c) = 14 + length (ck_bits c)"
    "take (length (ck_bits c)) (drop 4 (borsh_chunks c)) = ck_bits c"
    by (simp_all add: borsh_chunks_def)
  then show ?thesis by (simp add: unborsh_chunks_def f Let_def)
qed

lemma borsh_ix_inverse: "encodable ix \<Longrightarrow> unborsh_ix (borsh_ix ix) = Some ix"
proof (induction ix rule: borsh_ix.induct)
  case (1 k cs bs i cb bb n s)
  then show ?case by (simp add: field_def le_nat_unat le_nat_bytes nth_append)
next
  case (2 k bs i bb n)
  then show ?case by (simp add: field_def le_nat_unat nth_append)
next
  case (3 k i cb bb off d)
  then show ?case by (simp add: field_def le_nat_unat le_nat_bytes nth_append)
next
  case (4 k i cb bb)
  then show ?case by (simp add: field_def le_nat_unat nth_append)
qed

section \<open>The runtime\<close>

definition example_runtime :: runtime where
  "example_runtime =
     \<lparr>rt_create_program_address = \<lambda>seeds p. Some (example_address seeds p),
      rt_find_program_address = \<lambda>seeds p. (example_address (seeds @ [Seed_Bump 255]) p, 255),
      rt_rent = Inr (\<lambda>n. of_nat n + 128),
      rt_create_account = \<lambda>payer a lamports space owner seeds.
        if lamports \<le> ai_lamports payer
        then Inr (payer\<lparr>ai_lamports := ai_lamports payer - lamports\<rparr>,
                  a\<lparr>ai_lamports := ai_lamports a + lamports, ai_data := replicate (unat space) 0, ai_owner := owner\<rparr>)
        else Inl (PE_Runtime 1),
      rt_resize = \<lambda>a n. if n \<le> length (ai_data a) + 10240 then Inr (resized n a) else Inl (PE_Runtime 2),
      rt_enc_chunks = borsh_chunks, rt_dec_chunks = unborsh_chunks,
      rt_enc_ix = borsh_ix, rt_dec_ix = unborsh_ix, rt_system_program = 0\<rparr>"

lemma example_runtime_ok: "runtime_ok example_runtime"
proof -
  have "length (ck_bits c) < 2 ^ 32" if "chunks_ok c" "ck_count c < 2 ^ 32" for c
  proof -
    have "div_ceil (ck_count c) 8 \<le> ck_count c" by (simp add: div_ceil_le_iff)
    then show ?thesis using that by (simp add: chunks_ok_def count_to_bitfield_bytes_def BITS_PER_BYTE_def)
  qed
  then have "unborsh_chunks (borsh_chunks c) = Some c" if "chunks_ok c" "ck_count c < 2 ^ 32" for c
    using that by (intro borsh_chunks_inverse) auto
  moreover have "length (borsh_chunks c) = serialized_size c" if "chunks_ok c" for c
    using serialized_size_eq [OF that] by (simp add: borsh_chunks_def)
  ultimately show ?thesis using borsh_ix_inverse by (auto simp: runtime_ok_def example_runtime_def split: if_splits)
qed

section \<open>Witnesses\<close>

text \<open>A commit of three bytes, delivered through a buffer by the authority 7.\<close>

definition example_buffer_task :: commit_finalize_task where
  "example_buffer_task = \<lparr>cft_commit_id = 5, cft_allow_undelegation = False,
     cft_committed_account = \<lparr>ca_pubkey = 11,
       ca_account = \<lparr>acc_lamports = 1, acc_data = [1, 2, 3], acc_owner = 9, acc_executable = False, acc_rent_epoch = 0\<rparr>,
       ca_remote_slot = 0, ca_commit_id = 5\<rparr>,
     cft_delivery = StateInBuffer\<rparr>"

definition example_preparation :: buffer_preparation where
  "example_preparation = \<lparr>bp_commit_id = 5, bp_pubkey = 11,
     bp_chunks = \<lparr>ck_bits = [0], ck_count = 1, ck_chunk_size = 842\<rparr>, bp_buffer_data = [1, 2, 3]\<rparr>"

definition example_store :: account_store where
  "example_store k = \<lparr>ai_key = k, ai_is_signer = False, ai_lamports = 1000000, ai_data = [], ai_owner = 0\<rparr>"

lemma example_preparation_eq:
  "preparation_from_commit_finalize (\<lambda>_ d. d) example_buffer_task = Some (Some example_preparation)"
  by (simp add: preparation_from_commit_finalize_def example_buffer_task_def example_preparation_def
      from_data_length_def max_write_chunk_size chunks_new_def struct_size_def count_to_bitfield_bytes_def
      BITS_PER_BYTE_def div_ceil_def alloc_size)

lemmas example_pda_simps = chunks_pda_def buffer_pda_def chunks_seeds_def buffer_seeds_def example_runtime_def
  example_address_def committor_id_def

lemma example_keys_apart: "keys_apart example_runtime example_preparation 7"
  by (simp add: keys_apart_def example_preparation_def example_pda_simps)

lemma example_init:
  "\<exists>st0. execute_ix example_runtime example_store (init_instruction example_runtime example_preparation 7) = Inr st0"
proof -
  have size: "serialized_size (bp_chunks example_preparation) = 15"
    "length (borsh_chunks (bp_chunks example_preparation)) = 15"
    by (simp_all add: serialized_size_def struct_size_def count_to_bitfield_bytes_def BITS_PER_BYTE_def div_ceil_def
        example_preparation_def borsh_chunks_def)
  have new: "chunks_new (ck_count (bp_chunks example_preparation)) (ck_chunk_size (bp_chunks example_preparation)) =
      Some (bp_chunks example_preparation)"
    using prep_bounds(6,7) [OF prep_ok_from_task [OF example_preparation_eq]] by simp
  have enc: "rt_dec_ix example_runtime (rt_enc_ix example_runtime ix) = Some ix" if "encodable ix" for ix
    using runtime_okD(6) [OF example_runtime_ok that] .
  have sel: "rt_enc_chunks example_runtime = borsh_chunks" "rt_rent example_runtime = Inr (\<lambda>n. of_nat n + 128)"
    by (simp_all add: example_runtime_def)
  have create: "rt_create_account example_runtime payer a lamports space owner seeds =
      Inr (payer\<lparr>ai_lamports := ai_lamports payer - lamports\<rparr>,
        a\<lparr>ai_lamports := ai_lamports a + lamports, ai_data := replicate (unat space) 0, ai_owner := owner\<rparr>)"
    if "lamports \<le> ai_lamports payer" for payer a lamports space owner seeds
    using that by (simp add: example_runtime_def)
  obtain ck cb where cp: "chunks_pda example_runtime 7 11 5 = (ck, cb)" by fastforce
  obtain bk bb where bp: "buffer_pda example_runtime 7 11 5 = (bk, bb)" by fastforce
  have pda: "verify_pda example_runtime (passed example_store (meta_new ck False)) (chunks_seeds_with_bump 7 11 5 cb) = Inr ()"
    "verify_pda example_runtime (passed example_store (meta_new bk False)) (buffer_seeds_with_bump 7 11 5 bb) = Inr ()"
    by (rule pda_verified(1) [OF example_runtime_ok cp] pda_verified(2) [OF example_runtime_ok bp],
        simp add: passed_def meta_new_def)+
  have accounts: "ai_key (passed example_store (meta_new 7 True)) = 7" "ai_is_signer (passed example_store (meta_new 7 True))"
    "ai_lamports (passed example_store m) = 1000000" "ai_data (passed example_store m) = []" for m
    by (simp_all add: passed_def meta_new_def example_store_def)
  show ?thesis
    using pda new size
    by (simp add: execute_ix_def init_instruction_def create_init_ix_def cp bp process_def
        assert_program_id_def enc process_init_def assert_is_signer_def assert_account_unallocated_def accounts sel create
        copy_from_slice_def word_le_nat_alt unat_sub Let_def example_preparation_def)
qed

theorem buffer_delivered_witness:
  "\<exists>st0 writes st1 st2. execute_ix example_runtime example_store (init_instruction example_runtime example_preparation 7) = Inr st0
     \<and> write_instructions example_runtime example_preparation 7 = Some writes \<and> length writes = 1
     \<and> run_ixs example_runtime st0 (realloc_instructions example_runtime example_preparation 7) = Inr st1
     \<and> run_ixs example_runtime st1 writes = Inr st2
     \<and> ai_data (buffer_account example_runtime example_preparation 7 st2) = [1, 2, 3]"
proof -
  obtain st0 where st0: "execute_ix example_runtime example_store (init_instruction example_runtime example_preparation 7) = Inr st0"
    using example_init by blast
  obtain writes where w: "write_instructions example_runtime example_preparation 7 = Some writes" "length writes = 1"
    using write_instructions_eq [OF prep_ok_from_task [OF example_preparation_eq], of example_runtime 7]
    by (simp add: example_preparation_def)
  from buffer_delivered [OF example_runtime_ok example_preparation_eq example_keys_apart st0 w(1), of writes]
  obtain st1 st2 where "run_ixs example_runtime st0 (realloc_instructions example_runtime example_preparation 7) = Inr st1"
    "run_ixs example_runtime st1 writes = Inr st2"
    "ai_data (buffer_account example_runtime example_preparation 7 st2) = bp_buffer_data example_preparation"
    by blast
  then show ?thesis
    using st0 w by (intro exI [of _ st0] exI [of _ writes] exI [of _ st1] exI [of _ st2]) (simp add: example_preparation_def)
qed

text \<open>A close by the authority of its two accounts, which hold 5 and 6 lamports.\<close>

definition example_account_info :: "pubkey \<Rightarrow> u64 \<Rightarrow> bytes \<Rightarrow> account_info" where
  "example_account_info k lamports data =
     \<lparr>ai_key = k, ai_is_signer = (k = 7), ai_lamports = lamports, ai_data = data, ai_owner = committor_id\<rparr>"

definition example_close_accounts :: "account_info list" where
  "example_close_accounts =
     [example_account_info 7 4 [],
      example_account_info (fst (chunks_pda example_runtime 7 11 5)) 5 [1],
      example_account_info (fst (buffer_pda example_runtime 7 11 5)) 6 [2]]"

lemma example_close:
  "\<exists>a c b. example_close_accounts = [a, c, b] \<and> ai_lamports a = 4 \<and> ai_lamports c = 5 \<and> ai_lamports b = 6
     \<and> (\<exists>accounts'. process_close example_runtime [a, c, b] 11 5 255 255 = Inr accounts' \<and> accounts' \<noteq> [a, c, b])"
  by (simp add: example_close_accounts_def process_close_def example_account_info_def assert_is_signer_def
      verify_seeds_and_pdas_def verify_pda_def close_and_refund_authority_def checked_add_def resized_def
      chunks_seeds_with_bump_def buffer_seeds_with_bump_def example_pda_simps)

theorem close_refunds_witness:
  "\<exists>accounts'. process_close example_runtime example_close_accounts 11 5 255 255 = Inr accounts'
     \<and> unat (ai_lamports (hd accounts')) = 15"
proof -
  obtain a c b accounts' where e: "example_close_accounts = [a, c, b]" "ai_lamports a = 4" "ai_lamports c = 5"
    "ai_lamports b = 6" "process_close example_runtime [a, c, b] 11 5 255 255 = Inr accounts'"
    using example_close by blast
  from close_refunds [OF example_runtime_ok e(5)] show ?thesis using e by auto
qed


end
