(* ===== verification/Changeset.thy ===== *)
theory Changeset
  imports Chunk_Data Intent_Model "HOL-Library.Multiset"
begin

text \<open>
  The set of account changes to commit (\<^verbatim>\<open>programs/committor-interface/src/state/changeset.rs\<close>):
  adding accounts, splitting into bundles and into committable accounts whose data is sent in
  chunks. \<open>None\<close> is the panic on an account diff, which the code does not support yet, or on a
  tracker that would be too large.
\<close>

section \<open>Changed accounts\<close>

datatype changed_account = ChangedFull u64 bytes pubkey u64 | ChangedDiff

record changed_account_meta =
  cam_pubkey :: pubkey
  cam_lamports :: u64
  cam_owner :: pubkey
  cam_bundle_id :: u64

fun changed_account_meta_from :: "pubkey \<times> changed_account \<Rightarrow> changed_account_meta option" where
  "changed_account_meta_from (k, ChangedFull lamports _ owner bundle_id) =
     Some \<lparr>cam_pubkey = k, cam_lamports = lamports, cam_owner = owner, cam_bundle_id = bundle_id\<rparr>"
| "changed_account_meta_from (k, ChangedDiff) = None"

definition changed_account_from :: "account \<Rightarrow> u64 \<Rightarrow> changed_account" where
  "changed_account_from acc bundle_id = ChangedFull (acc_lamports acc) (acc_data acc) (acc_owner acc) bundle_id"

fun into_inner :: "changed_account \<Rightarrow> (u64 \<times> pubkey \<times> bytes \<times> u64) option" where
  "into_inner (ChangedFull lamports data owner bundle_id) = Some (lamports, owner, data, bundle_id)"
| "into_inner ChangedDiff = None"

fun changed_lamports :: "changed_account \<Rightarrow> u64 option" where
  "changed_lamports (ChangedFull lamports _ _ _) = Some lamports"
| "changed_lamports ChangedDiff = None"

fun changed_data :: "changed_account \<Rightarrow> bytes option" where
  "changed_data (ChangedFull _ data _ _) = Some data"
| "changed_data ChangedDiff = None"

fun changed_owner :: "changed_account \<Rightarrow> pubkey option" where
  "changed_owner (ChangedFull _ _ owner _) = Some owner"
| "changed_owner ChangedDiff = None"

fun changed_bundle_id :: "changed_account \<Rightarrow> u64 option" where
  "changed_bundle_id (ChangedFull _ _ _ bundle_id) = Some bundle_id"
| "changed_bundle_id ChangedDiff = None"

section \<open>Committable accounts\<close>

record commitable_account =
  cm_pubkey :: pubkey
  cm_delegated_account_owner :: pubkey
  cm_data :: bytes
  cm_lamports :: u64
  cm_chunks :: chunks
  cm_chunk_size :: u16
  cm_slot :: slot
  cm_undelegate :: bool
  cm_bundle_id :: u64

definition commitable_account_new ::
    "pubkey \<Rightarrow> pubkey \<Rightarrow> bytes \<Rightarrow> u64 \<Rightarrow> u16 \<Rightarrow> slot \<Rightarrow> bool \<Rightarrow> u64 \<Rightarrow> commitable_account option" where
  "commitable_account_new k owner data lamports chunk_size slot undelegate bundle_id =
     (let len = length data;
          chunk_count = (if chunk_size = 0 then 1
            else let count = len div unat chunk_size
                 in if len mod unat chunk_size \<noteq> 0 then count + 1 else count)
      in map_option (\<lambda>tracker. \<lparr>cm_pubkey = k, cm_delegated_account_owner = owner, cm_data = data,
            cm_lamports = lamports, cm_chunks = tracker, cm_chunk_size = chunk_size, cm_slot = slot,
            cm_undelegate = undelegate, cm_bundle_id = bundle_id\<rparr>) (chunks_new chunk_count chunk_size))"

definition cm_iter_all :: "commitable_account \<Rightarrow> chunks_iter option" where
  "cm_iter_all a = iter_all_chunks (cm_chunks a) (cm_chunk_size a) (cm_data a)"

definition cm_iter_missing :: "commitable_account \<Rightarrow> chunks_iter option" where
  "cm_iter_missing a = iter_missing_chunks (cm_chunks a) (cm_chunk_size a) (cm_data a)"

definition set_chunks :: "chunks \<Rightarrow> commitable_account \<Rightarrow> commitable_account" where
  "set_chunks tracker a = a\<lparr>cm_chunks := tracker\<rparr>"

definition cm_size :: "commitable_account \<Rightarrow> nat" where
  "cm_size a = length (cm_data a)"

definition cm_chunk_count :: "commitable_account \<Rightarrow> nat" where
  "cm_chunk_count a = ck_count (cm_chunks a)"

definition has_data :: "commitable_account \<Rightarrow> bool" where
  "has_data a = (cm_data a \<noteq> [])"

section \<open>Change sets\<close>

record changeset =
  cs_accounts :: "(pubkey, changed_account) hashmap"
  cs_slot :: slot
  cs_accounts_to_undelegate :: "pubkey set"

record changeset_meta =
  csm_accounts :: "changed_account_meta list"
  csm_slot :: slot
  csm_accounts_to_undelegate :: "pubkey set"

record changeset_bundles =
  csb_bundles :: "(pubkey \<times> changed_account) list list"
  csb_slot :: slot
  csb_accounts_to_undelegate :: "pubkey set"

definition default_changeset :: changeset where
  "default_changeset = \<lparr>cs_accounts = [], cs_slot = 0, cs_accounts_to_undelegate = {}\<rparr>"

fun option_all :: "'a option list \<Rightarrow> 'a list option" where
  "option_all [] = Some []"
| "option_all (None # xs) = None"
| "option_all (Some x # xs) = map_option (\<lambda>ys. x # ys) (option_all xs)"

definition into_account_infos :: "changeset_meta \<Rightarrow> (changed_account_meta \<times> slot \<times> bool) list" where
  "into_account_infos m =
     map (\<lambda>acc. (acc, csm_slot m, cam_pubkey acc \<in> csm_accounts_to_undelegate m)) (csm_accounts m)"

definition changeset_meta_from :: "changeset \<Rightarrow> changeset_meta option" where
  "changeset_meta_from cs =
     map_option (\<lambda>metas. \<lparr>csm_accounts = metas, csm_slot = cs_slot cs,
       csm_accounts_to_undelegate = cs_accounts_to_undelegate cs\<rparr>)
       (option_all (map changed_account_meta_from (cs_accounts cs)))"

definition changeset_add :: "pubkey \<Rightarrow> changed_account \<Rightarrow> changeset \<Rightarrow> bool \<times> changeset" where
  "changeset_add k acc cs =
     (hm_get (cs_accounts cs) k \<noteq> None, cs\<lparr>cs_accounts := hm_insert k acc (cs_accounts cs)\<rparr>)"

definition request_undelegation :: "pubkey \<Rightarrow> changeset \<Rightarrow> changeset" where
  "request_undelegation k cs = cs\<lparr>cs_accounts_to_undelegate := insert k (cs_accounts_to_undelegate cs)\<rparr>"

definition into_committables :: "u16 \<Rightarrow> changeset \<Rightarrow> commitable_account list option" where
  "into_committables chunk_size cs =
     option_all (map (\<lambda>(k, acc). Option.bind (into_inner acc) (\<lambda>(lamports, owner, data, bundle_id).
       commitable_account_new k owner data lamports chunk_size (cs_slot cs)
         (k \<in> cs_accounts_to_undelegate cs) bundle_id)) (cs_accounts cs))"

definition account_keys :: "changeset \<Rightarrow> pubkey list" where
  "account_keys cs = map fst (cs_accounts cs)"

definition undelegate_keys :: "changeset \<Rightarrow> pubkey set" where
  "undelegate_keys cs = cs_accounts_to_undelegate cs"

definition owners :: "changeset \<Rightarrow> (pubkey, pubkey) hashmap option" where
  "owners cs = option_all (map (\<lambda>(k, acc). map_option (Pair k) (changed_owner acc)) (cs_accounts cs))"

fun group_bundles ::
    "(u64, (pubkey \<times> changed_account) list) hashmap \<Rightarrow> (pubkey \<times> changed_account) list \<Rightarrow>
     (u64, (pubkey \<times> changed_account) list) hashmap option" where
  "group_bundles m [] = Some m"
| "group_bundles m ((k, acc) # rest) =
     (case changed_bundle_id acc of
        None \<Rightarrow> None
      | Some i \<Rightarrow>
          group_bundles (hm_insert i ((case hm_get m i of None \<Rightarrow> [] | Some b \<Rightarrow> b) @ [(k, acc)]) m) rest)"

definition into_small_changeset_bundles :: "changeset \<Rightarrow> changeset_bundles option" where
  "into_small_changeset_bundles cs =
     map_option (\<lambda>m. \<lparr>csb_bundles = map snd m, csb_slot = cs_slot cs,
       csb_accounts_to_undelegate = cs_accounts_to_undelegate cs\<rparr>) (group_bundles [] (cs_accounts cs))"

definition changeset_is_empty :: "changeset \<Rightarrow> bool" where
  "changeset_is_empty cs = (cs_accounts cs = [])"

definition changeset_len :: "changeset \<Rightarrow> nat" where
  "changeset_len cs = length (cs_accounts cs)"

definition changeset_contains :: "changeset \<Rightarrow> pubkey \<Rightarrow> bool" where
  "changeset_contains cs k = hm_contains (cs_accounts cs) k"

text \<open>The derived equality: two hash maps are equal when they hold the same entries.\<close>

definition changeset_eq :: "changeset \<Rightarrow> changeset \<Rightarrow> bool" where
  "changeset_eq a b = (set (cs_accounts a) = set (cs_accounts b) \<and> cs_slot a = cs_slot b
     \<and> cs_accounts_to_undelegate a = cs_accounts_to_undelegate b)"

definition overlaps :: "changeset list \<Rightarrow> pubkey set" where
  "overlaps change_sets =
     foldl (\<lambda>overlapping change_set.
       foldl (\<lambda>overlapping (k, _).
         if k \<in> overlapping then overlapping
         else foldl (\<lambda>overlapping other.
           if changeset_eq other change_set then overlapping
           else if hm_contains (cs_accounts other) k then insert k overlapping
           else overlapping) overlapping change_sets) overlapping (cs_accounts change_set)) {} change_sets"

section \<open>Lemmas\<close>

lemma option_all_Some_iff: "option_all xs = Some ys \<longleftrightarrow> xs = map Some ys"
proof (induction xs arbitrary: ys)
  case (Cons x xs)
  then show ?case by (cases x; cases ys) auto
qed auto

lemma changeset_add_get:
  "changeset_add k acc cs = (present, cs') \<Longrightarrow>
     (present \<longleftrightarrow> changeset_contains cs k) \<and> hm_get (cs_accounts cs') = (hm_get (cs_accounts cs))(k \<mapsto> acc)"
  by (auto simp: changeset_add_def changeset_contains_def)

lemma commitable_new_sizes:
  assumes "commitable_account_new k owner data lamports csz slot und bid = Some a" and "csz \<noteq> 0"
  shows "assert_sizes (cm_chunks a) (cm_chunk_size a) (cm_data a)" "chunks_ok (cm_chunks a)"
    "delivered (cm_chunks a) = {}" "cm_data a = data" "cm_chunk_size a = csz"
proof -
  let ?s = "unat csz" and ?n = "length data"
  have s: "?s > 0" using assms(2) by (simp add: unat_gt_0)
  have new: "chunks_new (div_ceil ?n ?s) csz = Some (cm_chunks a)" and d: "cm_data a = data" "cm_chunk_size a = csz"
    using assms by (auto simp: commitable_account_new_def div_ceil_def Let_def split: if_splits)
  note c = chunks_new_ok [OF new]
  have up: "?n \<le> div_ceil ?n ?s * ?s" using div_ceil_le_iff [OF s, of ?n "div_ceil ?n ?s"] by simp
  have "div_ceil ?n ?s * ?s < ?n + ?s"
  proof (cases "div_ceil ?n ?s")
    case 0
    then show ?thesis using s by simp
  next
    case (Suc m)
    then have "m * ?s < ?n" using div_ceil_le_iff [OF s, of ?n m] by (simp add: not_le [symmetric])
    then show ?thesis using Suc by simp
  qed
  then show "assert_sizes (cm_chunks a) (cm_chunk_size a) (cm_data a)"
    using c up d by (simp add: assert_sizes_def)
  show "chunks_ok (cm_chunks a)" "delivered (cm_chunks a) = {}" "cm_data a = data" "cm_chunk_size a = csz"
    using c d by auto
qed

lemma group_bundles_spec:
  "group_bundles m accs = Some m' \<Longrightarrow> hm_distinct m \<Longrightarrow>
   (\<forall>(i, b) \<in> set m. b \<noteq> [] \<and> (\<forall>p \<in> set b. changed_bundle_id (snd p) = Some i)) \<Longrightarrow>
     mset (concat (map snd m')) = mset (concat (map snd m)) + mset accs \<and> hm_distinct m'
     \<and> (\<forall>(i, b) \<in> set m'. b \<noteq> [] \<and> (\<forall>p \<in> set b. changed_bundle_id (snd p) = Some i))"
proof (induction m accs rule: group_bundles.induct)
  case (2 m k acc rest)
  obtain i where i: "changed_bundle_id acc = Some i" using 2(2) by (auto split: option.splits)
  let ?old = "case hm_get m i of None \<Rightarrow> [] | Some b \<Rightarrow> b"
  let ?m = "hm_insert i (?old @ [(k, acc)]) m"
  have run: "group_bundles ?m rest = Some m'" using 2(2) i by simp
  have old: "\<forall>p \<in> set ?old. changed_bundle_id (snd p) = Some i"
  proof (cases "hm_get m i")
    case (Some b)
    then have "(i, b) \<in> set m" by (rule map_of_SomeD)
    then show ?thesis using 2(4) Some by auto
  qed simp
  have "set ?m \<subseteq> insert (i, ?old @ [(k, acc)]) (set m)"
    by (induction m) (auto split: if_splits)
  then have sub: "set ?m \<subseteq> insert (i, ?old @ [(k, acc)]) (set m)" .
  have ok: "\<forall>(j, b) \<in> set ?m. b \<noteq> [] \<and> (\<forall>p \<in> set b. changed_bundle_id (snd p) = Some j)"
  proof (intro ballI)
    fix p assume "p \<in> set ?m"
    then have "p = (i, ?old @ [(k, acc)]) \<or> p \<in> set m"
      using sub by blast
    then show "case p of (j, b) \<Rightarrow> b \<noteq> [] \<and> (\<forall>p \<in> set b. changed_bundle_id (snd p) = Some j)"
    proof
      assume p: "p = (i, ?old @ [(k, acc)])"
      show ?thesis unfolding p prod.case set_append using old i by auto
    next
      assume "p \<in> set m"
      then show ?thesis using 2(4) by blast
    qed
  qed
  have size: "mset (concat (map snd ?m)) = mset (concat (map snd m)) + {#(k, acc)#}"
    using 2(3)
  proof (induction m)
    case (Cons p m)
    show ?case
    proof (cases "fst p = i")
      case True
      then show ?thesis by (cases p) auto
    next
      case False
      then show ?thesis using Cons by (cases p) auto
    qed
  qed simp
  from 2(1) [OF i run _ ok] show ?case using 2(3) size by simp
qed simp

lemma overlaps_inner:
  "foldl (\<lambda>ov other. if changeset_eq other cs then ov
     else if hm_contains (cs_accounts other) k then insert k ov else ov) ov css =
   ov \<union> {k' . k' = k \<and> (\<exists>other \<in> set css. \<not> changeset_eq other cs \<and> changeset_contains other k)}"
  by (induction css arbitrary: ov) (auto simp: changeset_contains_def)

lemma overlaps_middle:
  "foldl (\<lambda>ov (k, _). if k \<in> ov then ov
     else foldl (\<lambda>ov other. if changeset_eq other cs then ov
       else if hm_contains (cs_accounts other) k then insert k ov else ov) ov css) ov accs =
   ov \<union> {k \<in> fst ` set accs. \<exists>other \<in> set css. \<not> changeset_eq other cs \<and> changeset_contains other k}"
  by (induction accs arbitrary: ov) (auto simp: overlaps_inner simp del: hm_contains_iff split: if_splits)

lemma changeset_contains_iff: "changeset_contains cs k \<longleftrightarrow> k \<in> fst ` set (cs_accounts cs)"
  by (simp add: changeset_contains_def dom_map_of_conv_image_fst)

lemma overlaps_outer:
  "foldl (\<lambda>ov cs. foldl (\<lambda>ov (k, _). if k \<in> ov then ov
     else foldl (\<lambda>ov other. if changeset_eq other cs then ov
       else if hm_contains (cs_accounts other) k then insert k ov else ov) ov all) ov (cs_accounts cs)) ov css =
   ov \<union> {k. \<exists>cs \<in> set css. \<exists>other \<in> set all. \<not> changeset_eq other cs
     \<and> changeset_contains cs k \<and> changeset_contains other k}"
  by (induction css arbitrary: ov) (auto simp: overlaps_middle changeset_contains_iff simp del: hm_contains_iff)

section \<open>Properties\<close>

text \<open>
  Claim C33. Bundles partition the change set: every account is in exactly one bundle, no bundle
  is empty, the accounts of a bundle share one bundle id and two bundles have different ids.
\<close>

theorem bundles_partition:
  assumes "into_small_changeset_bundles cs = Some r"
  shows "mset (concat (csb_bundles r)) = mset (cs_accounts cs)
    \<and> (\<exists>ids. distinct ids \<and> length ids = length (csb_bundles r)
        \<and> (\<forall>n < length ids. csb_bundles r ! n \<noteq> []
             \<and> (\<forall>p \<in> set (csb_bundles r ! n). changed_bundle_id (snd p) = Some (ids ! n))))"
proof -
  obtain m where m: "group_bundles [] (cs_accounts cs) = Some m" "csb_bundles r = map snd m"
    using assms by (auto simp: into_small_changeset_bundles_def)
  have spec: "mset (concat (map snd m)) = mset (cs_accounts cs)" "hm_distinct m"
    "\<forall>(i, b) \<in> set m. b \<noteq> [] \<and> (\<forall>p \<in> set b. changed_bundle_id (snd p) = Some i)"
    using group_bundles_spec [OF m(1)] by auto
  have "map snd m ! n \<noteq> [] \<and> (\<forall>p \<in> set (map snd m ! n). changed_bundle_id (snd p) = Some (map fst m ! n))"
    if "n < length (map fst m)" for n
    using spec(3) that nth_mem [of n m] by (cases "m ! n") auto
  then show ?thesis using spec(1,2) m(2) by (intro conjI exI [of _ "map fst m"]) auto
qed

theorem bundles_partition_witness:
  "\<exists>r. into_small_changeset_bundles
     \<lparr>cs_accounts = [(1, ChangedFull 5 [] 9 7), (2, ChangedFull 6 [] 9 8), (3, ChangedFull 4 [1] 9 7)],
      cs_slot = 3, cs_accounts_to_undelegate = {}\<rparr> = Some r
   \<and> size (mset (concat (csb_bundles r))) = 3 \<and> length (csb_bundles r) = 2"
proof -
  let ?cs = "\<lparr>cs_accounts = [(1, ChangedFull 5 [] 9 7), (2, ChangedFull 6 [] 9 8), (3, ChangedFull 4 [1] 9 7)],
      cs_slot = 3, cs_accounts_to_undelegate = {}\<rparr>"
  obtain r where r: "into_small_changeset_bundles ?cs = Some r" "length (csb_bundles r) = 2"
    by (simp add: into_small_changeset_bundles_def)
  then show ?thesis using bundles_partition [OF r(1)] by (intro exI [of _ r]) simp
qed

text \<open>
  Claim C36. What \<^verbatim>\<open>overlaps\<close> reports: exactly the accounts that two change sets with different
  contents share. Two equal change sets are not compared, so their common accounts are reported
  only when a third, different one has them too.
\<close>

theorem overlaps_exact:
  "overlaps css = {k. \<exists>a \<in> set css. \<exists>b \<in> set css. \<not> changeset_eq b a
     \<and> changeset_contains a k \<and> changeset_contains b k}"
  by (simp add: overlaps_def overlaps_outer del: hm_contains_iff)

text \<open>
  Claim C34. A retry sends what is missing: for a committable account whose chunks were partly
  delivered, the data is the concatenation of all its chunks, and the iteration over the
  missing chunks returns exactly the chunks whose index the tracker does not have, in order.
\<close>

theorem retry_sends_missing:
  assumes "commitable_account_new k owner data lamports chunk_size slot und bid = Some a"
    and "chunk_size \<noteq> 0" and "length data < 2 ^ 31"
    and "chunks_ok tracker" and "ck_count tracker = ck_count (cm_chunks a)"
  shows "\<exists>all. Option.bind (cm_iter_all a) iter_collect = Some all
    \<and> concat (map cc_data_chunk all) = data \<and> length all = ck_count tracker
    \<and> Option.bind (cm_iter_missing (set_chunks tracker a)) iter_collect =
        Some (map (\<lambda>i. all ! i) (filter (\<lambda>i. i \<notin> delivered tracker) [0..<ck_count tracker]))"
proof -
  note n = commitable_new_sizes [OF assms(1,2)]
  have small: "length data + unat chunk_size < 2 ^ 32" using assms(3) unat_bound [of chunk_size] by simp
  have sizes: "assert_sizes tracker chunk_size data" using n(1,4,5) assms(5) by (simp add: assert_sizes_def)
  let ?all = "map (chunk_at data chunk_size) [0..<ck_count tracker]"
  have "Option.bind (cm_iter_all a) iter_collect = Some ?all"
    using iterations_eq(1) [OF n(1) _ n(2)] n(4,5) small assms(5) by (simp add: cm_iter_all_def)
  moreover have "Option.bind (cm_iter_missing (set_chunks tracker a)) iter_collect =
      Some (map (\<lambda>i. ?all ! i) (filter (\<lambda>i. i \<notin> delivered tracker) [0..<ck_count tracker]))"
    using iterations_eq(2) [OF sizes small assms(4)] n(4,5) by (simp add: cm_iter_missing_def set_chunks_def)
  ultimately show ?thesis using chunks_concat [OF sizes] by (intro exI [of _ ?all]) simp
qed

theorem retry_sends_missing_witness:
  "\<exists>a tracker. commitable_account_new 1 2 [7, 8, 9] 5 2 0 False 4 = Some a
     \<and> Option.bind (cm_iter_missing (set_chunks tracker a)) iter_collect =
        Some [\<lparr>cc_offset = 2, cc_data_chunk = [9], cc_chunk_size = 2\<rparr>]"
proof -
  let ?t = "\<lparr>ck_bits = [1], ck_count = 2, ck_chunk_size = 2\<rparr> :: chunks"
  obtain a where a: "commitable_account_new 1 2 [7, 8, 9] 5 2 0 False 4 = Some a" "ck_count (cm_chunks a) = 2"
    by (simp add: commitable_account_new_def chunks_new_def struct_size_def count_to_bitfield_bytes_def
        BITS_PER_BYTE_def div_ceil_def MAX_ACCOUNT_ALLOC_PER_INSTRUCTION_SIZE_def)
  have t: "chunks_ok ?t" "delivered ?t = {0}" "[0..<2] = [0, 1 :: nat]"
    by (auto simp: chunks_ok_def count_to_bitfield_bytes_def BITS_PER_BYTE_def div_ceil_def delivered_def less_Suc_eq
        numeral_2_eq_2)
  from retry_sends_missing [OF a(1) _ _ t(1)] obtain all where all:
    "Option.bind (cm_iter_all a) iter_collect = Some all" "length all = 2"
    "Option.bind (cm_iter_missing (set_chunks ?t a)) iter_collect = Some [all ! 1]"
    using a(2) t by auto
  have "all ! 1 = \<lparr>cc_offset = 2, cc_data_chunk = [9], cc_chunk_size = 2\<rparr>"
  proof -
    note n = commitable_new_sizes [OF a(1)]
    have "all = map (chunk_at [7, 8, 9] 2) [0..<2]"
      using iterations_eq(1) [OF n(1) _ n(2)] n(4,5) all(1) a(2) by (simp add: cm_iter_all_def)
    then show ?thesis by (simp add: t(3) chunk_at_def)
  qed
  then show ?thesis using all(3) a(1) by (intro exI [of _ a] exI [of _ ?t]) simp
qed

end
