(* ===== verification/Async_Run.thy ===== *)
theory Async_Run
  imports Prelude
begin

text \<open>
  Asynchronous code with explicit state. A run maps a state to a result and a new state; it is
  undefined (\<^term>\<open>None\<close>) when it never returns. Every await is a point where the enclosing
  \<^verbatim>\<open>tokio::time::timeout\<close> may drop the future, or where the process may be killed; the state
  reached there is kept, which is what cancellation and crash safety are about. \<open>triple\<close> is the
  Hoare triple of such runs with one postcondition per kind of end.
\<close>

datatype 'a await = Ready 'a | Expired | Killed

type_synonym ('s, 'a) async = "'s \<Rightarrow> ('a await \<times> 's) option"

definition areturn :: "'a \<Rightarrow> ('s, 'a) async" where
  "areturn x s = Some (Ready x, s)"

definition abind :: "('s, 'a) async \<Rightarrow> ('a \<Rightarrow> ('s, 'b) async) \<Rightarrow> ('s, 'b) async" where
  "abind m f s = (case m s of
      None \<Rightarrow> None
    | Some (Ready x, s') \<Rightarrow> f x s'
    | Some (Expired, s') \<Rightarrow> Some (Expired, s')
    | Some (Killed, s') \<Rightarrow> Some (Killed, s'))"

definition aread :: "('s \<Rightarrow> 'a) \<Rightarrow> ('s, 'a) async" where
  "aread f s = Some (Ready (f s), s)"

definition amodify :: "('s \<Rightarrow> 's) \<Rightarrow> ('s, unit) async" where
  "amodify f s = Some (Ready (), f s)"

text \<open>A step that does not await: it runs to its end.\<close>

definition astep :: "('s \<Rightarrow> 'a \<times> 's) \<Rightarrow> ('s, 'a) async" where
  "astep op s = (let (r, s') = op s in Some (Ready r, s'))"

text \<open>An awaited step: \<open>killed\<close> and \<open>stop\<close> are looked at once the step has had its effect.\<close>

definition await :: "('s \<Rightarrow> bool) \<Rightarrow> ('s \<Rightarrow> bool) \<Rightarrow> ('s \<Rightarrow> 'a \<times> 's) \<Rightarrow> ('s, 'a) async" where
  "await killed stop op s =
     (let (r, s') = op s in
      Some (if killed s' then Killed else if stop s' then Expired else Ready r, s'))"

text \<open>\<^verbatim>\<open>tokio::time::timeout\<close>: \<^term>\<open>None\<close> when the future was dropped.\<close>

definition atimeout :: "('s, 'a) async \<Rightarrow> ('s, 'a option) async" where
  "atimeout m s = (case m s of
      None \<Rightarrow> None
    | Some (Ready x, s') \<Rightarrow> Some (Ready (Some x), s')
    | Some (Expired, s') \<Rightarrow> Some (Ready None, s')
    | Some (Killed, s') \<Rightarrow> Some (Killed, s'))"

text \<open>The question mark operator: an error ends the run with that error.\<close>

definition aquestion :: "('s, ('e, 'a) result) async \<Rightarrow> ('a \<Rightarrow> ('s, ('e, 'b) result) async) \<Rightarrow>
     ('s, ('e, 'b) result) async" where
  "aquestion m f = abind m (\<lambda>r. case r of Inl e \<Rightarrow> areturn (Inl e) | Inr x \<Rightarrow> f x)"

definition amap_err :: "('e \<Rightarrow> 'f) \<Rightarrow> ('s, ('e, 'a) result) async \<Rightarrow> ('s, ('f, 'a) result) async" where
  "amap_err f m = abind m (\<lambda>r. areturn (map_err f r))"

text \<open>A run on a part of the state.\<close>

definition on_part :: "('s \<Rightarrow> 'p) \<Rightarrow> ('p \<Rightarrow> 's \<Rightarrow> 's) \<Rightarrow> ('p, 'a) async \<Rightarrow> ('s, 'a) async" where
  "on_part get put m s = map_option (\<lambda>(r, p). (r, put p s)) (m (get s))"

definition part_step :: "('s \<Rightarrow> 'p) \<Rightarrow> ('p \<Rightarrow> 's \<Rightarrow> 's) \<Rightarrow> ('p \<Rightarrow> 'a \<times> 'p) \<Rightarrow> 's \<Rightarrow> 'a \<times> 's" where
  "part_step get put op s = (let (r, p) = op (get s) in (r, put p s))"

text \<open>Loops over runs are partial functions.\<close>

lemma abind_mono [partial_function_mono]:
  assumes "\<And>x s'. mono_option (\<lambda>g. C g x s')"
  shows "mono_option (\<lambda>g. abind m (C g) s)"
  unfolding abind_def
  apply (cases "m s")
   apply (simp add: partial_function_mono)
  subgoal for p
    by (cases p; cases "fst p") (simp_all add: partial_function_mono assms)
  done

section \<open>Triples\<close>

definition triple ::
    "('s \<Rightarrow> bool) \<Rightarrow> ('s, 'a) async \<Rightarrow> ('a \<Rightarrow> 's \<Rightarrow> bool) \<Rightarrow> ('s \<Rightarrow> bool) \<Rightarrow> ('s \<Rightarrow> bool) \<Rightarrow> bool" where
  "triple P m Q X K \<longleftrightarrow> (\<forall>s. P s \<longrightarrow>
     (case m s of
        None \<Rightarrow> True
      | Some (Ready x, s') \<Rightarrow> Q x s'
      | Some (Expired, s') \<Rightarrow> X s'
      | Some (Killed, s') \<Rightarrow> K s'))"

lemma tripleI:
  assumes "\<And>s x s'. P s \<Longrightarrow> m s = Some (Ready x, s') \<Longrightarrow> Q x s'"
    and "\<And>s s'. P s \<Longrightarrow> m s = Some (Expired, s') \<Longrightarrow> X s'"
    and "\<And>s s'. P s \<Longrightarrow> m s = Some (Killed, s') \<Longrightarrow> K s'"
  shows "triple P m Q X K"
  using assms by (auto simp: triple_def split: option.splits await.splits)

lemma triple_weaken:
  assumes "triple P m Q X K" "\<And>s. P' s \<Longrightarrow> P s" "\<And>x s. Q x s \<Longrightarrow> Q' x s"
    "\<And>s. X s \<Longrightarrow> X' s" "\<And>s. K s \<Longrightarrow> K' s"
  shows "triple P' m Q' X' K'"
  using assms by (fastforce simp: triple_def split: option.splits await.splits)

lemma triple_pre: "triple P m Q X K \<Longrightarrow> (\<And>s. P' s \<Longrightarrow> P s) \<Longrightarrow> triple P' m Q X K"
  by (rule triple_weaken)

lemma triple_return: "(\<And>s. P s \<Longrightarrow> Q x s) \<Longrightarrow> triple P (areturn x) Q X K"
  by (simp add: triple_def areturn_def)

lemma triple_bind:
  assumes "triple P m R X K" "\<And>x. triple (R x) (f x) Q X K"
  shows "triple P (abind m f) Q X K"
  unfolding triple_def
proof (intro allI impI)
  fix s assume "P s"
  with assms(1) have m: "case m s of None \<Rightarrow> True | Some (Ready x, s') \<Rightarrow> R x s'
      | Some (Expired, s') \<Rightarrow> X s' | Some (Killed, s') \<Rightarrow> K s'"
    by (simp add: triple_def)
  show "case abind m f s of None \<Rightarrow> True | Some (Ready x, s') \<Rightarrow> Q x s'
      | Some (Expired, s') \<Rightarrow> X s' | Some (Killed, s') \<Rightarrow> K s'"
  proof (cases "m s")
    case None
    then show ?thesis using m by (simp add: abind_def)
  next
    case (Some p)
    obtain r s' where p: "p = (r, s')" by (cases p)
    show ?thesis
    proof (cases r)
      case (Ready x)
      then have "R x s'" using m Some p by simp
      then show ?thesis using assms(2) [of x] Some p Ready by (simp add: abind_def triple_def)
    qed (use m Some p in \<open>simp_all add: abind_def\<close>)
  qed
qed

lemma triple_read: "(\<And>s. P s \<Longrightarrow> Q (f s) s) \<Longrightarrow> triple P (aread f) Q X K"
  by (simp add: triple_def aread_def)

lemma triple_modify: "(\<And>s. P s \<Longrightarrow> Q () (f s)) \<Longrightarrow> triple P (amodify f) Q X K"
  by (simp add: triple_def amodify_def)

lemma triple_simple_iff [simp]:
  "triple P (areturn x) Q X K \<longleftrightarrow> (\<forall>s. P s \<longrightarrow> Q x s)"
  "triple P (aread f) Q' X K \<longleftrightarrow> (\<forall>s. P s \<longrightarrow> Q' (f s) s)"
  "triple P (amodify g) Q'' X K \<longleftrightarrow> (\<forall>s. P s \<longrightarrow> Q'' () (g s))"
  by (simp_all add: triple_def areturn_def aread_def amodify_def)

text \<open>Reading the state first: the value read and the state agree in what follows.\<close>

lemma triple_read_then:
  assumes "\<And>s0. P s0 \<Longrightarrow> triple (\<lambda>s. s = s0) (f (g s0)) Q X K"
  shows "triple P (abind (aread g) f) Q X K"
  using assms by (simp add: triple_def abind_def aread_def)

lemma triple_modify_then:
  assumes "triple P' m Q X K" "\<And>s. P s \<Longrightarrow> P' (g s)"
  shows "triple P (abind (amodify g) (\<lambda>_. m)) Q X K"
  using assms by (simp add: triple_def abind_def amodify_def)

definition ends :: "('a \<Rightarrow> 's \<Rightarrow> bool) \<Rightarrow> ('s \<Rightarrow> bool) \<Rightarrow> ('s \<Rightarrow> bool) \<Rightarrow> 'a await \<times> 's \<Rightarrow> bool" where
  "ends Q X K y = (case y of (Ready x, s) \<Rightarrow> Q x s | (Expired, s) \<Rightarrow> X s | (Killed, s) \<Rightarrow> K s)"

lemma triple_ends: "triple P m Q X K \<longleftrightarrow> (\<forall>s y. P s \<longrightarrow> m s = Some y \<longrightarrow> ends Q X K y)"
  by (fastforce simp: triple_def ends_def split: option.splits await.splits)

lemma triple_step:
  assumes "\<And>s r s'. P s \<Longrightarrow> op s = (r, s') \<Longrightarrow> Q r s'"
  shows "triple P (astep op) Q X K"
  using assms by (simp add: triple_def astep_def split: prod.splits)

lemma triple_await:
  assumes "\<And>s r s'. P s \<Longrightarrow> op s = (r, s') \<Longrightarrow> Q r s' \<and> X s' \<and> K s'"
  shows "triple P (await killed stop op) Q X K"
  using assms by (auto simp: triple_def await_def Let_def split: prod.splits)

lemma triple_call:
  assumes "\<And>s r s'. P s \<Longrightarrow> op s = (r, s') \<Longrightarrow> Q (map_err f r) s' \<and> X s' \<and> K s'"
  shows "triple P (amap_err f (await killed stop op)) Q X K"
  unfolding amap_err_def
  by (rule triple_bind [OF triple_await [where Q = "\<lambda>r. Q (map_err f r)"]])
     (auto intro: triple_return dest: assms)

lemma triple_map_err:
  assumes "triple P m (\<lambda>r. Q (map_err f r)) X K"
  shows "triple P (amap_err f m) Q X K"
  unfolding amap_err_def by (rule triple_bind [OF assms]) (rule triple_return)

lemma triple_timeout:
  assumes "triple P m (\<lambda>x. Q (Some x)) (Q None) K"
  shows "triple P (atimeout m) Q X K"
  using assms by (fastforce simp: triple_def atimeout_def split: option.splits await.splits)

lemma triple_question:
  assumes "triple P m R X K" "\<And>x. triple (R (Inr x)) (f x) Q X K"
    "\<And>e s. R (Inl e) s \<Longrightarrow> Q (Inl e) s"
  shows "triple P (aquestion m f) Q X K"
  unfolding aquestion_def
  by (rule triple_bind [OF assms(1)]) (auto split: sum.splits intro: assms(2,3) triple_return)

lemma triple_part:
  assumes "\<And>s. P s \<Longrightarrow> triple (\<lambda>p. p = get s) m (\<lambda>x p. Q x (put p s)) (\<lambda>p. X (put p s)) (\<lambda>p. K (put p s))"
  shows "triple P (on_part get put m) Q X K"
  using assms by (fastforce simp: triple_def on_part_def split: option.splits await.splits)

lemma triple_if:
  assumes "b \<Longrightarrow> triple P m Q X K" "\<not> b \<Longrightarrow> triple P n Q X K"
  shows "triple P (if b then m else n) Q X K"
  using assms by simp

lemma triple_fix:
  "(\<And>s0. P s0 \<Longrightarrow> triple (\<lambda>s. s = s0) m Q X K) \<Longrightarrow> triple P m Q X K"
  by (simp add: triple_def)

lemma tripleD:
  assumes "triple P m Q X K" "P s" "m s = Some (r, s')"
  shows "(\<forall>x. r = Ready x \<longrightarrow> Q x s') \<and> (r = Expired \<longrightarrow> X s') \<and> (r = Killed \<longrightarrow> K s')"
  using assms by (cases r) (auto simp: triple_def dest!: spec [of _ s])

lemma triple_pure: "(p \<Longrightarrow> triple P m Q X K) \<Longrightarrow> triple (\<lambda>s. p \<and> P s) m Q X K"
  by (simp add: triple_def)

section \<open>Runs that return\<close>

definition returns :: "('s, 'a) async \<Rightarrow> bool" where
  "returns m \<longleftrightarrow> (\<forall>s. m s \<noteq> None)"

named_theorems returns_rules

lemma returns_basic [returns_rules]:
  "returns (areturn x)" "returns (aread f)" "returns (amodify g)" "returns (astep op)"
  "returns (await killed stop op)"
  by (simp_all add: returns_def areturn_def aread_def amodify_def astep_def await_def split: prod.splits)

lemma returns_bind [returns_rules]: "returns m \<Longrightarrow> (\<And>x. returns (f x)) \<Longrightarrow> returns (abind m f)"
  by (auto simp: returns_def abind_def split: option.splits await.splits)

lemma returns_question [returns_rules]:
  "returns m \<Longrightarrow> (\<And>x. returns (f x)) \<Longrightarrow> returns (aquestion m f)"
  by (auto simp: aquestion_def intro!: returns_rules split: sum.splits)

lemma returns_map_err [returns_rules]: "returns m \<Longrightarrow> returns (amap_err f m)"
  by (auto simp: amap_err_def intro!: returns_rules)

lemma returns_timeout [returns_rules]: "returns m \<Longrightarrow> returns (atimeout m)"
  by (auto simp: returns_def atimeout_def split: option.splits await.splits)

lemma returns_part [returns_rules]: "returns m \<Longrightarrow> returns (on_part get put m)"
  by (auto simp: returns_def on_part_def)

lemma returnsE:
  assumes "returns m" "\<And>r s'. m s = Some (r, s') \<Longrightarrow> thesis"
  shows thesis
  using assms(2) spec [OF assms(1) [unfolded returns_def], of s] by (cases "m s") auto

text \<open>Returning from the states of a precondition.\<close>

definition returns_from :: "('s \<Rightarrow> bool) \<Rightarrow> ('s, 'a) async \<Rightarrow> bool" where
  "returns_from P m \<longleftrightarrow> (\<forall>s. P s \<longrightarrow> m s \<noteq> None)"

lemma returns_from_all: "returns m \<Longrightarrow> returns_from P m"
  by (simp add: returns_def returns_from_def)

lemma returns_from_pre: "returns_from P m \<Longrightarrow> (\<And>s. P' s \<Longrightarrow> P s) \<Longrightarrow> returns_from P' m"
  by (auto simp: returns_from_def)

lemma returns_from_bind:
  assumes "returns_from P m" "triple P m R X K" "\<And>x. returns_from (R x) (f x)"
  shows "returns_from P (abind m f)"
  unfolding returns_from_def
proof (intro allI impI)
  fix s assume P: "P s"
  then obtain r s' where m: "m s = Some (r, s')" using assms(1) by (auto simp: returns_from_def)
  show "abind m f s \<noteq> None"
    using tripleD [OF assms(2) P m] assms(3) by (cases r) (auto simp: abind_def m returns_from_def)
qed

lemma returns_from_question:
  assumes "returns_from P m" "triple P m R X K" "\<And>x. returns_from (R (Inr x)) (f x)"
  shows "returns_from P (aquestion m f)"
  unfolding aquestion_def
proof (rule returns_from_bind [OF assms(1,2)])
  fix r show "returns_from (R r) (case r of Inl e \<Rightarrow> areturn (Inl e) | Inr x \<Rightarrow> f x)"
    using assms(3) by (cases r) (auto intro: returns_from_all returns_rules)
qed

end
