(* ===== verification/Transaction_Runner.thy ===== *)
theory Transaction_Runner
  imports Async_Run Execution_Errors Buffer_Delivery
begin

text \<open>
  The execution of one intent's transactions: \<^verbatim>\<open>TransactionExecutor\<close> of
  \<^verbatim>\<open>committor/src/execution/transaction/runner.rs\<close>, its repairs in \<^verbatim>\<open>recovery.rs\<close>, the helpers of
  \<^verbatim>\<open>utils.rs\<close> and the stored progress of \<^verbatim>\<open>committor/src/shared/outbox/progress.rs\<close>.
  The base-layer RPC, the transaction preparator, the outbox client, the callback scheduler and
  the clock are the record \<open>effects\<close>, over an arbitrary world.
\<close>

section \<open>Stored progress\<close>

record pending_execution =
  pe_transaction :: pending_transaction
  pe_confirmed_commit :: "signature option"
  pe_has_follow_up :: bool

fun from_status :: "outbox_status \<Rightarrow> pending_execution option" where
  "from_status Accepted = None"
| "from_status (Executing (SingleStage tx)) =
     Some \<lparr>pe_transaction = tx, pe_confirmed_commit = None, pe_has_follow_up = False\<rparr>"
| "from_status (Executing (TwoStage (Committing tx))) =
     Some \<lparr>pe_transaction = tx, pe_confirmed_commit = None, pe_has_follow_up = True\<rparr>"
| "from_status (Executing (TwoStage (Finalizing commit finalize))) =
     Some \<lparr>pe_transaction = finalize, pe_confirmed_commit = Some commit, pe_has_follow_up = False\<rparr>"

definition into_stage :: "pending_execution \<Rightarrow> execution_stage" where
  "into_stage p =
     (case pe_confirmed_commit p of
        Some commit \<Rightarrow> TwoStage (Finalizing commit (pe_transaction p))
      | None \<Rightarrow> if pe_has_follow_up p then TwoStage (Committing (pe_transaction p))
                else SingleStage (pe_transaction p))"

section \<open>Reports and effects\<close>

datatype action_error =
    TimeoutError
  | Action_ActionsError transaction_error "signature option"
  | IntentFailedError

text \<open>The display string carried by \<^verbatim>\<open>IntentFailedError\<close> is left out.\<close>

datatype callback_schedule_error = SerializationError | SigningError

type_synonym action_result = "(action_error, unit) result"

fun action_error_of_transaction :: "transaction_execution_error \<Rightarrow> action_error" where
  "action_error_of_transaction (ActionsError err sig) = Action_ActionsError err sig"
| "action_error_of_transaction _ = IntentFailedError"

fun action_error_of_executor :: "'s intent_executor_error \<Rightarrow> action_error" where
  "action_error_of_executor (FailedExecution err) = action_error_of_transaction err"
| "action_error_of_executor _ = IntentFailedError"

record cleanup_resources =
  cr_buffers :: "buffer_cleanup list"
  cr_alt_reservation :: "pubkey list"
  cr_uniqueness_nonce :: "u64 option"

record execution_report =
  rep_progress :: execution_progress
  rep_cleanup :: "cleanup_resources list"
  rep_patched_errors :: "transaction_execution_error list"
  rep_callbacks_report :: "(callback_schedule_error, signature) result list"

definition default_report :: execution_report where
  "default_report = \<lparr>rep_progress = default_progress, rep_cleanup = [], rep_patched_errors = [],
     rep_callbacks_report = []\<rparr>"

definition add_patched_error :: "transaction_execution_error \<Rightarrow> execution_report \<Rightarrow> execution_report" where
  "add_patched_error e r = r\<lparr>rep_patched_errors := rep_patched_errors r @ [e]\<rparr>"

definition add_callback_report ::
    "(callback_schedule_error, signature) result list \<Rightarrow> execution_report \<Rightarrow> execution_report" where
  "add_callback_report vs r = r\<lparr>rep_callbacks_report := rep_callbacks_report r @ vs\<rparr>"

text \<open>
  Each operation takes the world before the call and gives its answer with the world after it.
  \<open>fx_sign\<close> signs a prepared message over a blockhash. \<open>fx_timer\<close> says that a timer of the given
  length, started in the first world, has fired in the second. \<open>fx_task_info\<close> is a reading of the
  chain by the task builder and \<open>fx_commit_record_owners\<close> the owners of the commit record accounts.
\<close>

record ('w, 'm) effects =
  fx_is_blockhash_valid :: "hash \<Rightarrow> 'w \<Rightarrow> (rpc_client_error, bool) result \<times> 'w"
  fx_signature_statuses ::
    "signature \<Rightarrow> 'w \<Rightarrow> (rpc_client_error, (transaction_error, unit) result option list) result \<times> 'w"
  fx_sleep :: "'w \<Rightarrow> unit \<times> 'w"
  fx_prepare_for_strategy ::
    "transaction_strategy \<Rightarrow> 'w \<Rightarrow>
     ((transaction_preparator_error, 'm) result \<times> cleanup_resources) \<times> 'w"
  fx_get_latest_blockhash :: "'w \<Rightarrow> (rpc_client_error, hash) result \<times> 'w"
  fx_sign :: "'m \<Rightarrow> hash \<Rightarrow> signature option"
  fx_set_intent_execution_stage ::
    "u64 \<Rightarrow> execution_stage \<Rightarrow> (pubkey \<times> u64) list \<Rightarrow> 'w \<Rightarrow> (unit, unit) result \<times> 'w"
  fx_send_signed_tx ::
    "pending_transaction \<Rightarrow> task list \<Rightarrow> 'w \<Rightarrow> (transaction_execution_error, unit) result \<times> 'w"
  fx_finalize_legacy_commit ::
    "pubkey \<Rightarrow> 'w \<Rightarrow>
     (transaction_preparator_error, (transaction_execution_error, signature) result) result \<times> 'w"
  fx_invalidate_cached_blockhash :: "'w \<Rightarrow> unit \<times> 'w"
  fx_fetch_outbox_intent :: "u64 \<Rightarrow> 'w \<Rightarrow> (unit, outbox_intent_bundle option) result \<times> 'w"
  fx_schedule_callbacks ::
    "base_action_callback list \<Rightarrow> signature option \<Rightarrow> action_result \<Rightarrow> 'w \<Rightarrow>
     (callback_schedule_error, signature) result list \<times> 'w"
  fx_task_info :: "'w \<Rightarrow> task_info_provider_error task_info_provider \<times> 'w"
  fx_commit_record_owners :: "pubkey list \<Rightarrow> 'w \<Rightarrow> (rpc_client_error, pubkey option list) result \<times> 'w"
  fx_notify_commit_sent :: "sent_commit \<Rightarrow> 'w \<Rightarrow> (unit, unit) result \<times> 'w"
  fx_time_left :: "'w \<Rightarrow> nat option"
  fx_timer :: "nat \<Rightarrow> 'w \<Rightarrow> 'w \<Rightarrow> bool"
  fx_killed :: "'w \<Rightarrow> bool"
  fx_authority :: pubkey
  fx_delegation_program_id :: pubkey
  fx_wire :: wire

definition never :: "'w \<Rightarrow> bool" where
  "never w = False"

section \<open>Pending signatures\<close>

definition recovery_commit_nonces :: "task list \<Rightarrow> (pubkey \<times> u64) list" where
  "recovery_commit_nonces tasks =
     concat (map (\<lambda>task. case task of
       Task_CommitFinalize t \<Rightarrow> [(ca_pubkey (cft_committed_account t), cft_commit_id t)]
     | _ \<Rightarrow> []) tasks)"

datatype pending_signature_status = Status_Succeeded | Status_Pending | Status_Rejected | Status_Anomalous

definition classify_status ::
    "bool \<Rightarrow> (transaction_error, unit) result option list \<Rightarrow> pending_signature_status" where
  "classify_status blockhash_still_valid statuses =
     (case statuses of
        Some (Inr _) # _ \<Rightarrow> Status_Succeeded
      | Some (Inl _) # _ \<Rightarrow> Status_Rejected
      | None # _ \<Rightarrow> if blockhash_still_valid then Status_Pending else Status_Rejected
      | [] \<Rightarrow> Status_Anomalous)"

definition check_pending_signature ::
    "('w, 'm) effects \<Rightarrow> ('w \<Rightarrow> bool) \<Rightarrow> pending_transaction \<Rightarrow>
     ('w, ('s intent_executor_error, pending_signature_status) result) async" where
  "check_pending_signature E stop pending =
     aquestion (amap_err GetPendingSignatureStatusError
       (await (fx_killed E) stop (fx_is_blockhash_valid E (pt_blockhash pending)))) (\<lambda>valid.
     aquestion (amap_err GetPendingSignatureStatusError
       (await (fx_killed E) stop (fx_signature_statuses E (pt_signature pending)))) (\<lambda>statuses.
     areturn (Inr (classify_status valid statuses))))"

definition MAX_CONSECUTIVE_ANOMALIES :: u8 where
  "MAX_CONSECUTIVE_ANOMALIES = 5"

text \<open>The verdict of one round of the resolving loop: an answer, or the new count of anomalies.\<close>

fun resolve_round :: "u8 \<Rightarrow> pending_signature_status \<Rightarrow> bool + u8" where
  "resolve_round anomalies Status_Succeeded = Inl True"
| "resolve_round anomalies Status_Rejected = Inl False"
| "resolve_round anomalies Status_Pending = Inr 0"
| "resolve_round anomalies Status_Anomalous = Inr (anomalies + 1)"

partial_function (option) resolve_loop ::
    "('w, 'm) effects \<Rightarrow> ('w \<Rightarrow> bool) \<Rightarrow> pending_transaction \<Rightarrow> u8 \<Rightarrow> 'w \<Rightarrow>
     (('s intent_executor_error, bool) result await \<times> 'w) option" where
  "resolve_loop E stop pending anomalies w =
     abind (check_pending_signature E stop pending) (\<lambda>r w.
       case r of
         Inl e \<Rightarrow> areturn (Inl e) w
       | Inr status \<Rightarrow>
           (case resolve_round anomalies status of
              Inl landed \<Rightarrow> areturn (Inr landed) w
            | Inr anomalies' \<Rightarrow>
                if anomalies' \<ge> MAX_CONSECUTIVE_ANOMALIES
                then areturn (Inl (PendingSignatureResolutionError (pt_signature pending))) w
                else abind (await (fx_killed E) stop (fx_sleep E))
                       (\<lambda>_ w. resolve_loop E stop pending anomalies' w) w)) w"

definition resolve_pending_signature ::
    "('w, 'm) effects \<Rightarrow> ('w \<Rightarrow> bool) \<Rightarrow> pending_transaction \<Rightarrow>
     ('w, ('s intent_executor_error, bool) result) async" where
  "resolve_pending_signature E stop pending = resolve_loop E stop pending 0"

section \<open>Changing a strategy\<close>

definition requires_uniqueness_nonce :: "task list \<Rightarrow> bool" where
  "requires_uniqueness_nonce tasks =
     list_ex (\<lambda>t. case t of Task_CommitFinalize c \<Rightarrow> cft_commit_id c \<le> 1 | _ \<Rightarrow> False) tasks"

text \<open>\<open>rposition\<close> is the iterator's: the last index with the property.\<close>

fun rposition :: "('a \<Rightarrow> bool) \<Rightarrow> 'a list \<Rightarrow> nat option" where
  "rposition p [] = None"
| "rposition p (x # xs) =
     (case rposition p xs of Some i \<Rightarrow> Some (Suc i) | None \<Rightarrow> if p x then Some 0 else None)"

definition split_for_follow_up ::
    "wire \<Rightarrow> pubkey \<Rightarrow> transaction_strategy \<Rightarrow> transaction_strategy \<times> transaction_strategy" where
  "split_for_follow_up W authority s =
     (let last_commit_ind = rposition is_commit_finalize_task (ts_tasks s);
          indexed = zip [0..<length (ts_tasks s)] (ts_tasks s);
          early = (\<lambda>(i, _). case last_commit_ind of None \<Rightarrow> False | Some l \<Rightarrow> i \<le> l);
          commits = map snd (filter early indexed);
          follow_ups = map snd (filter (\<lambda>x. \<not> early x) indexed);
          keys = (\<lambda>ts. if ts_lookup_tables_keys s = [] then [] else collect_lookup_table_keys W authority ts)
      in (\<lparr>ts_tasks = commits, ts_lookup_tables_keys = keys commits,
           ts_uniqueness_nonce = ts_uniqueness_nonce s\<rparr>,
          \<lparr>ts_tasks = follow_ups, ts_lookup_tables_keys = keys follow_ups,
           ts_uniqueness_nonce = ts_uniqueness_nonce s\<rparr>))"

fun is_undelegate_task :: "task \<Rightarrow> bool" where
  "is_undelegate_task (Task_Undelegate _) = True"
| "is_undelegate_task _ = False"

definition handle_undelegation_error ::
    "wire \<Rightarrow> pubkey \<Rightarrow> transaction_strategy \<Rightarrow> base_action_callback list \<times> transaction_strategy" where
  "handle_undelegation_error W authority s =
     (if list_ex is_undelegate_task (ts_tasks s)
      then let kept = takeWhile (\<lambda>t. \<not> is_undelegate_task t) (ts_tasks s);
               drained = dropWhile (\<lambda>t. \<not> is_undelegate_task t) (ts_tasks s)
           in (fst (extract_callbacks drained), refresh_lookup_table_keys W authority (s\<lparr>ts_tasks := kept\<rparr>))
      else ([], s))"

definition handle_actions_result ::
    "('w, 'm) effects \<Rightarrow> execution_report \<Rightarrow> transaction_strategy \<Rightarrow> signature option \<Rightarrow> action_result \<Rightarrow> 'w \<Rightarrow>
     execution_report \<times> transaction_strategy \<times> 'w" where
  "handle_actions_result E report strategy sig r w =
     (let (callbacks, strategy') =
        (if r = Inr () \<or> r = Inl TimeoutError then extract_action_callbacks strategy
         else remove_actions (fx_wire E) (fx_authority E) strategy)
      in if callbacks \<noteq> []
         then let (rs, w') = fx_schedule_callbacks E callbacks sig r w
              in (add_callback_report rs report, strategy', w')
         else (report, strategy', w))"

section \<open>The transaction executor\<close>

record 'w tx_executor =
  te_report :: execution_report
  te_intent_id :: u64
  te_committed_pubkeys :: "pubkey list"
  te_current :: transaction_strategy
  te_follow_up :: "transaction_strategy option"
  te_pending :: "pending_transaction option"
  te_attempt :: u8
  te_world :: 'w

definition executor_new ::
    "execution_report \<Rightarrow> u64 \<Rightarrow> pubkey list \<Rightarrow> transaction_plan \<Rightarrow> 'w \<Rightarrow> 'w tx_executor" where
  "executor_new report i committed plan w =
     \<lparr>te_report = report, te_intent_id = i, te_committed_pubkeys = committed, te_current = tp_current plan,
      te_follow_up = tp_follow_up plan, te_pending = None, te_attempt = 0, te_world = w\<rparr>"

abbreviation "te_progress s \<equiv> rep_progress (te_report s)"
abbreviation "te_confirmed s \<equiv> ep_confirmed_commit (te_progress s)"

definition set_progress :: "execution_progress \<Rightarrow> 'w tx_executor \<Rightarrow> 'w tx_executor" where
  "set_progress p s = s\<lparr>te_report := (te_report s)\<lparr>rep_progress := p\<rparr>\<rparr>"

definition set_transaction :: "transaction_progress \<Rightarrow> 'w tx_executor \<Rightarrow> 'w tx_executor" where
  "set_transaction t s = set_progress ((te_progress s)\<lparr>ep_transaction := t\<rparr>) s"

definition resume_follow_up ::
    "execution_report \<Rightarrow> u64 \<Rightarrow> signature \<Rightarrow> transaction_strategy \<Rightarrow> 'w \<Rightarrow> 'w tx_executor" where
  "resume_follow_up report i commit_signature strategy w =
     (let s = executor_new report i [] (plan_of_strategy strategy) w
      in set_progress ((te_progress s)\<lparr>ep_confirmed_commit := Some commit_signature\<rparr>) s)"

definition is_combined :: "'w tx_executor \<Rightarrow> bool" where
  "is_combined s = (te_follow_up s = None \<and> te_confirmed s = None)"

definition has_tasks_after_commit :: "'w tx_executor \<Rightarrow> bool" where
  "has_tasks_after_commit s =
     (case rposition is_commit_finalize_task (ts_tasks (te_current s)) of
        None \<Rightarrow> False
      | Some i \<Rightarrow> i + 1 < length (ts_tasks (te_current s)))"

text \<open>An external call, awaited by the executor.\<close>

definition ext_step :: "('w \<Rightarrow> 'a \<times> 'w) \<Rightarrow> 'w tx_executor \<Rightarrow> 'a \<times> 'w tx_executor" where
  "ext_step op s = (let (r, w) = op (te_world s) in (r, s\<lparr>te_world := w\<rparr>))"

definition aext ::
    "('w, 'm) effects \<Rightarrow> ('w \<Rightarrow> bool) \<Rightarrow> ('w tx_executor \<Rightarrow> 'a \<times> 'w tx_executor) \<Rightarrow> ('w tx_executor, 'a) async" where
  "aext E stop op = await (\<lambda>s. fx_killed E (te_world s)) (\<lambda>s. stop (te_world s)) op"

definition execute_callbacks ::
    "('w, 'm) effects \<Rightarrow> signature option \<Rightarrow> action_result \<Rightarrow> 'w tx_executor \<Rightarrow> 'w tx_executor" where
  "execute_callbacks E sig r s =
     (let (report, current, w) = handle_actions_result E (te_report s) (te_current s) sig r (te_world s);
          s = s\<lparr>te_report := report, te_current := current, te_world := w\<rparr>
      in case (r, te_follow_up s) of
           (Inl _, Some follow_up) \<Rightarrow>
             let (report, follow_up, w) = handle_actions_result E (te_report s) follow_up sig r (te_world s)
             in s\<lparr>te_report := report, te_follow_up := Some follow_up, te_world := w\<rparr>
         | _ \<Rightarrow> s)"

definition recover_pending_from_outbox ::
    "('w, 'm) effects \<Rightarrow> 'w tx_executor \<Rightarrow> pending_transaction option \<times> 'w tx_executor" where
  "recover_pending_from_outbox E s =
     (let (r, s) = ext_step (fx_fetch_outbox_intent E (te_intent_id s)) s
      in (case r of
            Inr (Some bundle) \<Rightarrow>
              map_option pe_transaction
                (filter_option (\<lambda>p. pe_has_follow_up p = (te_follow_up s \<noteq> None) \<and>
                     (pe_confirmed_commit p \<noteq> None) = (te_confirmed s \<noteq> None))
                   (from_status (oib_status bundle)))
          | _ \<Rightarrow> None, s))"

text \<open>The cleanup record of the attempt stays with the report even when preparation is dropped.\<close>

definition prepare_for_strategy_step ::
    "('w, 'm) effects \<Rightarrow> 'w tx_executor \<Rightarrow> (transaction_preparator_error, 'm) result \<times> 'w tx_executor" where
  "prepare_for_strategy_step E s =
     (let ((r, cleanup), s) = ext_step (fx_prepare_for_strategy E (te_current s)) s
      in (r, s\<lparr>te_report := (te_report s)\<lparr>rep_cleanup := rep_cleanup (te_report s) @ [cleanup]\<rparr>\<rparr>))"

definition prepare_transaction ::
    "('w, 'm) effects \<Rightarrow> ('w \<Rightarrow> bool) \<Rightarrow>
     ('w tx_executor, (transaction_preparator_error, pending_transaction) result) async" where
  "prepare_transaction E stop =
     aquestion (aext E stop (prepare_for_strategy_step E)) (\<lambda>message.
     aquestion (amap_err Prep_GetLatestBlockhash (aext E stop (ext_step (fx_get_latest_blockhash E)))) (\<lambda>blockhash.
     areturn (case fx_sign E message blockhash of
                None \<Rightarrow> Inl Prep_Signer
              | Some sig \<Rightarrow> Inr \<lparr>pt_signature = sig, pt_blockhash = blockhash\<rparr>)))"

definition can_repair_commits :: "'w tx_executor \<Rightarrow> bool" where
  "can_repair_commits s = (te_confirmed s = None \<and> te_committed_pubkeys s \<noteq> [] \<and>
     list_ex is_commit_finalize_task (ts_tasks (te_current s)))"

definition nth_commit :: "task list \<Rightarrow> u8 option \<Rightarrow> commit_finalize_task option" where
  "nth_commit tasks index =
     (case index of
        None \<Rightarrow> None
      | Some i \<Rightarrow> if unat i < length tasks
          then (case tasks ! unat i of Task_CommitFinalize t \<Rightarrow> Some t | _ \<Rightarrow> None) else None)"

text \<open>\<^term>\<open>Inr True\<close> is \<^verbatim>\<open>ControlFlow::Continue\<close>.\<close>

definition finalize_legacy ::
    "('w, 'm) effects \<Rightarrow> ('w \<Rightarrow> bool) \<Rightarrow> pubkey \<Rightarrow> ('w tx_executor, ('s intent_executor_error, unit) result) async" where
  "finalize_legacy E stop k =
     aquestion (amap_err FailedPreparation (aext E stop (ext_step (fx_finalize_legacy_commit E k)))) (\<lambda>r.
     areturn (case r of Inl e \<Rightarrow> Inl (FailedExecution e) | Inr _ \<Rightarrow> Inr ()))"

definition recover_actions ::
    "('w, 'm) effects \<Rightarrow> transaction_error \<Rightarrow> signature option \<Rightarrow> 'w tx_executor \<Rightarrow> 'w tx_executor" where
  "recover_actions E te sig s =
     (let (report, current, w) = handle_actions_result E (te_report s) (te_current s) sig
            (Inl (Action_ActionsError te sig)) (te_world s)
      in s\<lparr>te_report := report, te_current := current, te_world := w\<rparr>)"

definition recover_undelegation ::
    "('w, 'm) effects \<Rightarrow> transaction_execution_error \<Rightarrow> 'w tx_executor \<Rightarrow> 'w tx_executor" where
  "recover_undelegation E err s =
     (let (callbacks, current) = handle_undelegation_error (fx_wire E) (fx_authority E) (te_current s);
          s = s\<lparr>te_current := current\<rparr>
      in if callbacks \<noteq> []
         then let (rs, w) = fx_schedule_callbacks E callbacks (tee_signature err)
                    (Inl (action_error_of_transaction err)) (te_world s)
              in s\<lparr>te_report := add_callback_report rs (te_report s), te_world := w\<rparr>
         else s)"

text \<open>\<open>repair\<close> is the match on the error, in the state \<open>s\<close> it finds.\<close>

definition repair ::
    "('w, 'm) effects \<Rightarrow> ('w \<Rightarrow> bool) \<Rightarrow> transaction_execution_error \<Rightarrow> 'w tx_executor \<Rightarrow>
     ('w tx_executor, ('s intent_executor_error, bool) result) async" where
  "repair E stop err s =
     (case err of
         ActionsError te sig \<Rightarrow> abind (amodify (recover_actions E te sig)) (\<lambda>_. areturn (Inr True))
       | UnfinalizedAccountError _ _ \<Rightarrow>
           if can_repair_commits s then
             (case nth_commit (ts_tasks (te_current s))
                     (task_index err (task_instruction_offset (te_current s))) of
                None \<Rightarrow> areturn (Inr False)
              | Some t \<Rightarrow>
                  aquestion (finalize_legacy E stop (ca_pubkey (cft_committed_account t)))
                    (\<lambda>_. areturn (Inr True)))
           else areturn (Inr False)
       | UndelegationError _ _ \<Rightarrow>
           if list_ex is_undelegate_task (ts_tasks (te_current s))
           then abind (amodify (recover_undelegation E err)) (\<lambda>_. areturn (Inr True))
           else areturn (Inr False)
       | _ \<Rightarrow> areturn (Inr False))"

definition recover ::
    "('w, 'm) effects \<Rightarrow> ('w \<Rightarrow> bool) \<Rightarrow> transaction_execution_error \<Rightarrow>
     ('w tx_executor, ('s intent_executor_error, bool) result) async" where
  "recover E stop err =
     abind (aread id) (\<lambda>s.
       if \<not> can_repair_commits s \<and> te_confirmed s = None then areturn (Inr False)
       else repair E stop err s)"

section \<open>One round of the transaction loop\<close>

definition TRANSACTION_LOOP_CEILING :: u8 where
  "TRANSACTION_LOOP_CEILING = 10"

datatype 'a loop_flow = Loop_Break 'a | Loop_Again bool

type_synonym tx_result = "(transaction_execution_error, signature) result"

text \<open>A pending transaction is resolved first; \<^term>\<open>Some\<close> signature when it landed.\<close>

definition resolve_recorded ::
    "('w, 'm) effects \<Rightarrow> ('w \<Rightarrow> bool) \<Rightarrow>
     ('w tx_executor, ('s intent_executor_error, signature option) result) async" where
  "resolve_recorded E stop =
     abind (aread te_pending) (\<lambda>p.
       case p of
         None \<Rightarrow> areturn (Inr None)
       | Some pending \<Rightarrow>
           abind (amodify (set_transaction (Submitted (pt_signature pending)))) (\<lambda>_.
           aquestion (on_part te_world (\<lambda>w s. s\<lparr>te_world := w\<rparr>) (resolve_pending_signature E stop pending)) (\<lambda>landed.
           if landed
           then abind (amodify (set_transaction (Confirmed (pt_signature pending)))) (\<lambda>_.
                areturn (Inr (Some (pt_signature pending))))
           else abind (amodify (\<lambda>s. (set_transaction (Rejected (pt_signature pending)) s)\<lparr>te_pending := None\<rparr>)) (\<lambda>_.
                areturn (Inr None)))))"

text \<open>Prepare, record in the outbox, then send.\<close>

definition submit_current ::
    "('w, 'm) effects \<Rightarrow> ('w \<Rightarrow> bool) \<Rightarrow> signature option \<Rightarrow> bool \<Rightarrow>
     ('w tx_executor, ('s intent_executor_error, (transaction_execution_error, signature) result) result) async" where
  "submit_current E stop confirmed_commit has_follow_up =
     abind (amodify (\<lambda>s. s\<lparr>te_attempt := te_attempt s + 1\<rparr>)) (\<lambda>_.
     aquestion (amap_err FailedPreparation (prepare_transaction E stop)) (\<lambda>pending.
     abind (amodify (set_transaction (Prepared (pt_signature pending)))) (\<lambda>_.
     aquestion (amap_err (\<lambda>_. OutboxClientError) (aext E stop (\<lambda>s.
       ext_step (fx_set_intent_execution_stage E (te_intent_id s)
         (into_stage \<lparr>pe_transaction = pending, pe_confirmed_commit = confirmed_commit,
                      pe_has_follow_up = has_follow_up\<rparr>)
         (recovery_commit_nonces (ts_tasks (te_current s)))) s))) (\<lambda>_.
     abind (amodify (\<lambda>s. set_transaction (Submitted (pt_signature pending)) (s\<lparr>te_pending := Some pending\<rparr>))) (\<lambda>_.
     abind (aext E stop (\<lambda>s. ext_step (fx_send_signed_tx E pending (ts_tasks (te_current s))) s)) (\<lambda>r.
     abind (amodify (\<lambda>s. s\<lparr>te_pending := None\<rparr>)) (\<lambda>_.
     case r of
       Inr _ \<Rightarrow> abind (amodify (set_transaction (Confirmed (pt_signature pending)))) (\<lambda>_.
                areturn (Inr (Inr (pt_signature pending))))
     | Inl err \<Rightarrow> abind (amodify (if is_rejected err then set_transaction (Rejected (pt_signature pending)) else id)) (\<lambda>_.
                areturn (Inr (Inl err))))))))))"

fun is_actions_error :: "transaction_execution_error \<Rightarrow> bool" where
  "is_actions_error (ActionsError _ _) = True"
| "is_actions_error _ = False"

text \<open>What follows a failed send; \<open>Loop_Again\<close> carries the flag \<^verbatim>\<open>reconciled_outbox\<close>.\<close>

definition after_failure ::
    "('w, 'm) effects \<Rightarrow> ('w \<Rightarrow> bool) \<Rightarrow> signature option \<Rightarrow> bool \<Rightarrow> transaction_execution_error \<Rightarrow>
     ('w tx_executor, ('s intent_executor_error, tx_result loop_flow) result) async" where
  "after_failure E stop confirmed_commit reconciled err =
     aquestion (recover E stop err) (\<lambda>continue.
     if \<not> continue then areturn (Inr (Loop_Break (Inl err)))
     else abind (aext E stop (ext_step (fx_invalidate_cached_blockhash E))) (\<lambda>_.
     abind (aread id) (\<lambda>s.
     case (confirmed_commit, ts_tasks (te_current s)) of
       (Some commit_signature, []) \<Rightarrow>
         if is_actions_error err
         then abind (amodify (\<lambda>s. s\<lparr>te_report := add_patched_error err (te_report s)\<rparr>)) (\<lambda>_.
              areturn (Inr (Loop_Break (Inr commit_signature))))
         else areturn (Inr (Loop_Break (Inl err)))
     | _ \<Rightarrow>
         if te_attempt s \<ge> TRANSACTION_LOOP_CEILING then areturn (Inr (Loop_Break (Inl err)))
         else abind (amodify (\<lambda>s. s\<lparr>te_report := add_patched_error err (te_report s)\<rparr>)) (\<lambda>_.
              areturn (Inr (Loop_Again reconciled))))))"

definition reconcile_outbox ::
    "('w, 'm) effects \<Rightarrow> ('w \<Rightarrow> bool) \<Rightarrow> bool \<Rightarrow> ('w tx_executor, bool) async" where
  "reconcile_outbox E stop reconciled =
     abind (aread te_pending) (\<lambda>p.
       if p = None \<and> \<not> reconciled
       then abind (aext E stop (recover_pending_from_outbox E)) (\<lambda>p.
            abind (amodify (\<lambda>s. s\<lparr>te_pending := p\<rparr>)) (\<lambda>_. areturn True))
       else areturn reconciled)"

definition execute_round ::
    "('w, 'm) effects \<Rightarrow> ('w \<Rightarrow> bool) \<Rightarrow> signature option \<Rightarrow> bool \<Rightarrow> bool \<Rightarrow>
     ('w tx_executor, ('s intent_executor_error, tx_result loop_flow) result) async" where
  "execute_round E stop confirmed_commit has_follow_up reconciled =
     abind (reconcile_outbox E stop reconciled) (\<lambda>reconciled.
     aquestion (resolve_recorded E stop) (\<lambda>landed.
     case landed of
       Some sig \<Rightarrow> areturn (Inr (Loop_Break (Inr sig)))
     | None \<Rightarrow>
         abind (aread te_current) (\<lambda>current.
         case (confirmed_commit, ts_tasks current) of
           (Some commit_signature, []) \<Rightarrow> areturn (Inr (Loop_Break (Inr commit_signature)))
         | _ \<Rightarrow>
             aquestion (submit_current E stop confirmed_commit has_follow_up) (\<lambda>r.
             case r of
               Inr sig \<Rightarrow> areturn (Inr (Loop_Break (Inr sig)))
             | Inl err \<Rightarrow> after_failure E stop confirmed_commit reconciled err))))"

partial_function (option) execute_loop ::
    "('w, 'm) effects \<Rightarrow> ('w \<Rightarrow> bool) \<Rightarrow> signature option \<Rightarrow> bool \<Rightarrow> bool \<Rightarrow> 'w tx_executor \<Rightarrow>
     (('s intent_executor_error, tx_result) result await \<times> 'w tx_executor) option" where
  "execute_loop E stop confirmed_commit has_follow_up reconciled s =
     abind (execute_round E stop confirmed_commit has_follow_up reconciled) (\<lambda>r s.
       case r of
         Inl e \<Rightarrow> areturn (Inl e) s
       | Inr (Loop_Break v) \<Rightarrow> areturn (Inr v) s
       | Inr (Loop_Again reconciled') \<Rightarrow>
           execute_loop E stop confirmed_commit has_follow_up reconciled' s) s"

definition execute_current ::
    "('w, 'm) effects \<Rightarrow> ('w \<Rightarrow> bool) \<Rightarrow> ('w tx_executor, ('s intent_executor_error, tx_result) result) async" where
  "execute_current E stop =
     abind (aread id) (\<lambda>s. execute_loop E stop (te_confirmed s) (te_follow_up s \<noteq> None) False)"

definition execute_with_timeout ::
    "('w, 'm) effects \<Rightarrow> ('w tx_executor, ('s intent_executor_error, tx_result) result) async" where
  "execute_with_timeout E =
     (let late = abind (amodify (execute_callbacks E None (Inl TimeoutError))) (\<lambda>_. execute_current E never) in
      abind (aread id) (\<lambda>s.
        if has_actions_callbacks (te_current s) \<or>
           (case te_follow_up s of None \<Rightarrow> False | Some f \<Rightarrow> has_actions_callbacks f)
        then (case fx_time_left E (te_world s) of
                None \<Rightarrow> late
              | Some d \<Rightarrow> abind (atimeout (execute_current E (fx_timer E d (te_world s)))) (\<lambda>r.
                  case r of Some result \<Rightarrow> areturn result | None \<Rightarrow> late))
        else execute_current E never))"

text \<open>One pass of the outer loop: \<^term>\<open>None\<close> means another pass.\<close>

definition split_current ::
    "('w, 'm) effects \<Rightarrow> transaction_execution_error \<Rightarrow> 'w tx_executor \<Rightarrow> 'w tx_executor" where
  "split_current E err s =
     (let (current, follow_up) = split_for_follow_up (fx_wire E) (fx_authority E) (te_current s)
      in s\<lparr>te_current := current, te_follow_up := Some follow_up, te_attempt := 0,
           te_report := add_patched_error err (te_report s)\<rparr>)"

definition flatten_result ::
    "('s intent_executor_error, tx_result) result \<Rightarrow> ('s intent_executor_error, signature) result" where
  "flatten_result r = rbind r (map_err FailedExecution)"

definition result_ok :: "('e, 'a) result \<Rightarrow> 'a option" where
  "result_ok r = (case r of Inl _ \<Rightarrow> None | Inr x \<Rightarrow> Some x)"

definition report_outcome ::
    "('w, 'm) effects \<Rightarrow> ('s intent_executor_error, tx_result) result \<Rightarrow> 'w tx_executor \<Rightarrow> 'w tx_executor" where
  "report_outcome E r s =
     (let unsettled = (te_confirmed s = None \<and> te_committed_pubkeys s \<noteq> []);
          report_callbacks = ((is_combined s \<or> result_ok r \<noteq> None) \<and>
             (\<not> unsettled \<or> (case r of Inr (Inr _) \<Rightarrow> True | _ \<Rightarrow> False)));
          res = flatten_result r
      in if report_callbacks
         then execute_callbacks E (result_ok res)
                (case res of Inl e \<Rightarrow> Inl (action_error_of_executor e) | Inr _ \<Rightarrow> Inr ()) s
         else s)"

definition start_follow_up :: "signature \<Rightarrow> transaction_strategy \<Rightarrow> 'w tx_executor \<Rightarrow> 'w tx_executor" where
  "start_follow_up sig follow_up s =
     (set_progress (default_progress\<lparr>ep_confirmed_commit := Some sig\<rparr>) s)\<lparr>te_current := follow_up,
        te_follow_up := None, te_pending := None, te_attempt := 0\<rparr>"

definition splittable :: "transaction_execution_error \<Rightarrow> 'w tx_executor \<Rightarrow> bool" where
  "splittable err s = (is_combined s \<and> te_committed_pubkeys s \<noteq> [] \<and> has_tasks_after_commit s \<and>
     is_recoverable_by_splitting err)"

definition settle_round ::
    "('w, 'm) effects \<Rightarrow> ('s intent_executor_error, tx_result) result \<Rightarrow> 'w tx_executor \<Rightarrow>
     ('s intent_executor_error, execution_output) result option \<times> 'w tx_executor" where
  "settle_round E r s =
     (let s = report_outcome E r s in
      case flatten_result r of
        Inl e \<Rightarrow> (Some (Inl e), s)
      | Inr sig \<Rightarrow>
          (case te_follow_up s of
             Some follow_up \<Rightarrow> (None, start_follow_up sig follow_up s)
           | None \<Rightarrow>
               let out = \<lparr>eo_confirmed_commit = te_confirmed s, eo_signature = sig\<rparr>
               in (Some (Inr out), set_progress (output_progress out) s)))"

definition execute_pass ::
    "('w, 'm) effects \<Rightarrow>
     ('w tx_executor, ('s intent_executor_error, execution_output) result option) async" where
  "execute_pass E =
     abind (execute_with_timeout E) (\<lambda>r.
     abind (aread id) (\<lambda>s.
     case r of
       Inr (Inl err) \<Rightarrow>
         if splittable err s then abind (amodify (split_current E err)) (\<lambda>_. areturn None)
         else astep (settle_round E r)
     | _ \<Rightarrow> astep (settle_round E r)))"

partial_function (option) execute ::
    "('w, 'm) effects \<Rightarrow> 'w tx_executor \<Rightarrow>
     (('s intent_executor_error, execution_output) result await \<times> 'w tx_executor) option" where
  "execute E s =
     abind (execute_pass E) (\<lambda>r s. case r of Some result \<Rightarrow> areturn result s | None \<Rightarrow> execute E s) s"

end
