(* ===== verification/Runner_Safety.thy ===== *)
theory Runner_Safety
  imports Transaction_Runner
begin

text \<open>
  What the transaction executor guarantees on the base layer. A \<open>chain_view\<close> observes the world:
  the transactions sent for the intent, which of them landed, which are dead (can no longer land
  successfully), which blockhashes have expired, and the status stored in the intent's outbox
  record. \<open>chain_laws\<close> states the documented behaviour of the RPC node and of the outbox that the
  executor relies on. The invariant is kept at every await, so it also holds where a timeout
  drops the future and where the process is killed.
\<close>

section \<open>Observing the base layer\<close>

record 'w chain_view =
  cv_sent :: "'w \<Rightarrow> (pending_transaction \<times> task list) list"
  cv_dead :: "'w \<Rightarrow> signature \<Rightarrow> bool"
  cv_landed :: "'w \<Rightarrow> signature \<Rightarrow> bool"
  cv_expired :: "'w \<Rightarrow> hash \<Rightarrow> bool"
  cv_status :: "'w \<Rightarrow> outbox_status option"

definition genuine :: "('w, 'm) effects \<Rightarrow> pending_transaction \<Rightarrow> bool" where
  "genuine E p \<longleftrightarrow> (\<exists>m. fx_sign E m (pt_blockhash p) = Some (pt_signature p))"

definition facts_stay :: "'w chain_view \<Rightarrow> 'w \<Rightarrow> 'w \<Rightarrow> bool" where
  "facts_stay V w w' \<longleftrightarrow>
     (\<forall>sig. cv_dead V w sig \<longrightarrow> cv_dead V w' sig) \<and> (\<forall>sig. cv_landed V w sig \<longrightarrow> cv_landed V w' sig) \<and>
     (\<forall>h. cv_expired V w h \<longrightarrow> cv_expired V w' h)"

definition quiet :: "'w chain_view \<Rightarrow> 'w \<Rightarrow> 'w \<Rightarrow> bool" where
  "quiet V w w' \<longleftrightarrow> facts_stay V w w' \<and> cv_sent V w' = cv_sent V w \<and> cv_status V w' = cv_status V w"

text \<open>
  The laws: a dead transaction has not landed; an invalid blockhash has expired for good; a
  status found on chain is final; a signature that is not found after its blockhash expired is
  dead; a send reports success only for a landed transaction and a rejection only for a dead
  one; the outbox stores the requested stage or leaves the record as it was; reporting may close
  the record.
\<close>

definition blockhash_law :: "('w, 'm) effects \<Rightarrow> 'w chain_view \<Rightarrow> bool" where
  "blockhash_law E V \<longleftrightarrow> (\<forall>h w r w'. fx_is_blockhash_valid E h w = (r, w') \<longrightarrow>
     quiet V w w' \<and> (r = Inr False \<longrightarrow> cv_expired V w' h))"

definition status_law :: "('w, 'm) effects \<Rightarrow> 'w chain_view \<Rightarrow> bool" where
  "status_law E V \<longleftrightarrow> (\<forall>sig w r w'. fx_signature_statuses E sig w = (r, w') \<longrightarrow> quiet V w w' \<and>
     (\<forall>rest. r = Inr (Some (Inr ()) # rest) \<longrightarrow> cv_landed V w' sig) \<and>
     (\<forall>e rest. r = Inr (Some (Inl e) # rest) \<longrightarrow> cv_dead V w' sig) \<and>
     (\<forall>rest m h. r = Inr (None # rest) \<longrightarrow> cv_expired V w h \<longrightarrow> fx_sign E m h = Some sig \<longrightarrow> cv_dead V w' sig))"

definition quiet_law :: "('w, 'm) effects \<Rightarrow> 'w chain_view \<Rightarrow> u64 \<Rightarrow> bool" where
  "quiet_law E V i \<longleftrightarrow> (\<forall>w. quiet V w (snd (fx_sleep E w)) \<and>
     (\<forall>st. quiet V w (snd (fx_prepare_for_strategy E st w))) \<and>
     quiet V w (snd (fx_get_latest_blockhash E w)) \<and>
     (\<forall>k. quiet V w (snd (fx_finalize_legacy_commit E k w))) \<and>
     quiet V w (snd (fx_invalidate_cached_blockhash E w)) \<and>
     quiet V w (snd (fx_fetch_outbox_intent E i w)) \<and>
     quiet V w (snd (fx_task_info E w)) \<and>
     (\<forall>ks. quiet V w (snd (fx_commit_record_owners E ks w))) \<and>
     (\<forall>cs sig a. quiet V w (snd (fx_schedule_callbacks E cs sig a w))))"

definition stage_law :: "('w, 'm) effects \<Rightarrow> 'w chain_view \<Rightarrow> u64 \<Rightarrow> bool" where
  "stage_law E V i \<longleftrightarrow> (\<forall>stage ns w r w'. fx_set_intent_execution_stage E i stage ns w = (r, w') \<longrightarrow>
     facts_stay V w w' \<and> cv_sent V w' = cv_sent V w \<and>
     (r = Inr () \<longrightarrow> cv_status V w' = Some (Executing stage)) \<and>
     (cv_status V w' = cv_status V w \<or> cv_status V w' = Some (Executing stage)))"

definition send_law :: "('w, 'm) effects \<Rightarrow> 'w chain_view \<Rightarrow> bool" where
  "send_law E V \<longleftrightarrow> (\<forall>p ts w r w'. fx_send_signed_tx E p ts w = (r, w') \<longrightarrow>
     facts_stay V w w' \<and> cv_sent V w' = cv_sent V w @ [(p, ts)] \<and> cv_status V w' = cv_status V w \<and>
     (r = Inr () \<longrightarrow> cv_landed V w' (pt_signature p)) \<and>
     (\<forall>e. r = Inl e \<longrightarrow> is_rejected e \<longrightarrow> cv_dead V w' (pt_signature p)))"

definition notify_law :: "('w, 'm) effects \<Rightarrow> 'w chain_view \<Rightarrow> bool" where
  "notify_law E V \<longleftrightarrow> (\<forall>p w. let w' = snd (fx_notify_commit_sent E p w) in
     facts_stay V w w' \<and> cv_sent V w' = cv_sent V w \<and> (cv_status V w' = cv_status V w \<or> cv_status V w' = None))"

definition chain_laws :: "('w, 'm) effects \<Rightarrow> 'w chain_view \<Rightarrow> u64 \<Rightarrow> bool" where
  "chain_laws E V i \<longleftrightarrow> (\<forall>w sig. cv_dead V w sig \<longrightarrow> \<not> cv_landed V w sig) \<and>
     blockhash_law E V \<and> status_law E V \<and> quiet_law E V i \<and> stage_law E V i \<and> send_law E V \<and> notify_law E V"

abbreviation "no_commits ts \<equiv> \<not> list_ex is_commit_finalize_task ts"

text \<open>
  \<open>once\<close>: a transaction is followed by another one only if it is dead, or if it landed and the
  later one commits nothing. \<open>consistent\<close>: a restart that reads the stored status finds every
  transaction that may still land.
\<close>

definition once :: "'w chain_view \<Rightarrow> 'w \<Rightarrow> bool" where
  "once V w \<longleftrightarrow> sorted_wrt (\<lambda>(p, _) (_, ts).
     cv_dead V w (pt_signature p) \<or> (cv_landed V w (pt_signature p) \<and> no_commits ts)) (cv_sent V w)"

definition recorded :: "('w, 'm) effects \<Rightarrow> 'w chain_view \<Rightarrow> 'w \<Rightarrow> pending_execution option \<Rightarrow> pending_transaction \<Rightarrow> bool" where
  "recorded E V w pe q \<longleftrightarrow> cv_dead V w (pt_signature q) \<or>
     (case pe of
        None \<Rightarrow> False
      | Some e \<Rightarrow> (pe_transaction e = q \<and> genuine E q) \<or> (pe_confirmed_commit e \<noteq> None \<and> cv_landed V w (pt_signature q)))"

definition consistent :: "('w, 'm) effects \<Rightarrow> 'w chain_view \<Rightarrow> 'w \<Rightarrow> bool" where
  "consistent E V w \<longleftrightarrow> (case cv_status V w of
      None \<Rightarrow> True
    | Some st \<Rightarrow> list_all (\<lambda>(q, _). recorded E V w (from_status st) q) (cv_sent V w))"

definition safe :: "('w, 'm) effects \<Rightarrow> 'w chain_view \<Rightarrow> 'w \<Rightarrow> bool" where
  "safe E V w \<longleftrightarrow> once V w \<and> consistent E V w"

text \<open>
  The executor's invariant: nothing but the pending transaction may still land; after a
  confirmed commit no task commits again.
\<close>

definition shape :: "u64 \<Rightarrow> signature option \<Rightarrow> bool \<Rightarrow> 'w tx_executor \<Rightarrow> bool" where
  "shape i c b s \<longleftrightarrow> te_intent_id s = i \<and> te_confirmed s = c \<and> (te_follow_up s \<noteq> None) = b \<and>
     (c \<noteq> None \<longrightarrow> no_commits (ts_tasks (te_current s))) \<and>
     (\<forall>f. te_follow_up s = Some f \<longrightarrow> no_commits (ts_tasks f))"

definition known ::
    "('w, 'm) effects \<Rightarrow> 'w chain_view \<Rightarrow> bool \<Rightarrow> pending_transaction option \<Rightarrow> 'w \<Rightarrow> bool" where
  "known E V settled p w \<longleftrightarrow> list_all (\<lambda>(q, _). cv_dead V w (pt_signature q) \<or>
     (settled \<and> cv_landed V w (pt_signature q)) \<or> (p = Some q \<and> genuine E q)) (cv_sent V w)"

definition ready ::
    "('w, 'm) effects \<Rightarrow> 'w chain_view \<Rightarrow> u64 \<Rightarrow> signature option \<Rightarrow> bool \<Rightarrow> 'w tx_executor \<Rightarrow> bool" where
  "ready E V i c b s \<longleftrightarrow> shape i c b s \<and> safe E V (te_world s) \<and> known E V (c \<noteq> None) (te_pending s) (te_world s)"

section \<open>What single steps keep\<close>

lemma quiet_facts: "quiet V w w' \<Longrightarrow> facts_stay V w w'" by (simp add: quiet_def)

lemma quiet_trans: "quiet V w w' \<Longrightarrow> quiet V w' w'' \<Longrightarrow> quiet V w w''"
  by (auto simp: quiet_def facts_stay_def)

lemma quiet_refl [simp]: "quiet V w w" by (simp add: quiet_def facts_stay_def)

lemma recorded_stay: "facts_stay V w w' \<Longrightarrow> recorded E V w pe q \<Longrightarrow> recorded E V w' pe q"
  by (auto simp: recorded_def facts_stay_def split: option.splits)

lemma once_stay: "facts_stay V w w' \<Longrightarrow> cv_sent V w' = cv_sent V w \<Longrightarrow> once V w \<Longrightarrow> once V w'"
  unfolding once_def by (erule ssubst, erule sorted_wrt_mono_rel [rotated]) (auto simp: facts_stay_def)

lemma known_stay: "facts_stay V w w' \<Longrightarrow> cv_sent V w' = cv_sent V w \<Longrightarrow> known E V d p w \<Longrightarrow> known E V d p w'"
  by (auto simp: known_def facts_stay_def list_all_iff)

lemma safe_quiet: "quiet V w w' \<Longrightarrow> safe E V w \<Longrightarrow> safe E V w'"
  by (auto simp: safe_def quiet_def consistent_def list_all_iff split: option.splits
      intro: once_stay recorded_stay)

lemma known_quiet: "quiet V w w' \<Longrightarrow> known E V d p w \<Longrightarrow> known E V d p w'"
  by (rule known_stay) (simp_all add: quiet_def)

lemma ready_known: "ready E V i c b s \<Longrightarrow> known E V (c \<noteq> None) (te_pending s) (te_world s)"
  by (simp add: ready_def)

lemma ready_quiet:
  "ready E V i c b s \<Longrightarrow> quiet V (te_world s) w \<Longrightarrow> ready E V i c b (s\<lparr>te_world := w\<rparr>)"
  by (auto simp: ready_def shape_def quiet_def intro: safe_quiet [unfolded quiet_def] known_stay)

lemma ready_safe: "ready E V i c b s \<Longrightarrow> safe E V (te_world s)" by (simp add: ready_def)

lemma ready_irrelevant [simp]:
  "ready E V i c b (set_transaction t s) = ready E V i c b s"
  "ready E V i c b (s\<lparr>te_attempt := a\<rparr>) = ready E V i c b s"
  "ready E V i c b (s\<lparr>te_report := add_patched_error e (te_report s)\<rparr>) = ready E V i c b s"
  "ready E V i c b (s\<lparr>te_report := (te_report s)\<lparr>rep_cleanup := cl\<rparr>\<rparr>) = ready E V i c b s"
  by (simp_all add: ready_def shape_def set_transaction_def set_progress_def add_patched_error_def)

lemma world_irrelevant [simp]:
  "te_world (set_transaction t s) = te_world s" "te_pending (set_transaction t s) = te_pending s"
  "te_current (set_transaction t s) = te_current s" "te_intent_id (set_transaction t s) = te_intent_id s"
  by (simp_all add: set_transaction_def set_progress_def)

lemma laws_dead: "chain_laws E V i \<Longrightarrow> cv_dead V w sig \<Longrightarrow> \<not> cv_landed V w sig"
  by (simp add: chain_laws_def)

lemma laws_blockhash:
  "chain_laws E V i \<Longrightarrow> fx_is_blockhash_valid E h w = (r, w') \<Longrightarrow>
     quiet V w w' \<and> (r = Inr False \<longrightarrow> cv_expired V w' h)"
  by (simp add: chain_laws_def blockhash_law_def)

lemma laws_statuses:
  "chain_laws E V i \<Longrightarrow> fx_signature_statuses E sig w = (r, w') \<Longrightarrow> quiet V w w' \<and>
        (\<forall>rest. r = Inr (Some (Inr ()) # rest) \<longrightarrow> cv_landed V w' sig) \<and>
        (\<forall>e rest. r = Inr (Some (Inl e) # rest) \<longrightarrow> cv_dead V w' sig) \<and>
        (\<forall>rest m h. r = Inr (None # rest) \<longrightarrow> cv_expired V w h \<longrightarrow> fx_sign E m h = Some sig \<longrightarrow> cv_dead V w' sig)"
  by (simp add: chain_laws_def status_law_def)

lemma laws_quiet:
  assumes "chain_laws E V i"
  shows "fx_sleep E w = (r, w') \<Longrightarrow> quiet V w w'"
    "fx_prepare_for_strategy E st w = (r1, w') \<Longrightarrow> quiet V w w'"
    "fx_get_latest_blockhash E w = (r2, w') \<Longrightarrow> quiet V w w'"
    "fx_finalize_legacy_commit E k w = (r3, w') \<Longrightarrow> quiet V w w'"
    "fx_invalidate_cached_blockhash E w = (r4, w') \<Longrightarrow> quiet V w w'"
    "fx_fetch_outbox_intent E i w = (r5, w') \<Longrightarrow> quiet V w w'"
    "fx_schedule_callbacks E cs sig a w = (r6, w') \<Longrightarrow> quiet V w w'"
    "fx_task_info E w = (r7, w') \<Longrightarrow> quiet V w w'"
    "fx_commit_record_owners E ks w = (r8, w') \<Longrightarrow> quiet V w w'"
  using assms unfolding chain_laws_def quiet_law_def by (metis snd_conv)+

lemma laws_stage:
  "chain_laws E V i \<Longrightarrow> fx_set_intent_execution_stage E i stage ns w = (r, w') \<Longrightarrow>
     facts_stay V w w' \<and> cv_sent V w' = cv_sent V w \<and> (r = Inr () \<longrightarrow> cv_status V w' = Some (Executing stage)) \<and>
     (cv_status V w' = cv_status V w \<or> cv_status V w' = Some (Executing stage))"
  by (simp add: chain_laws_def stage_law_def)

lemma laws_send:
  "chain_laws E V i \<Longrightarrow> fx_send_signed_tx E p ts w = (r, w') \<Longrightarrow>
     facts_stay V w w' \<and> cv_sent V w' = cv_sent V w @ [(p, ts)] \<and> cv_status V w' = cv_status V w \<and>
     (r = Inr () \<longrightarrow> cv_landed V w' (pt_signature p)) \<and>
     (\<forall>e. r = Inl e \<longrightarrow> is_rejected e \<longrightarrow> cv_dead V w' (pt_signature p))"
  by (simp add: chain_laws_def send_law_def)

lemma laws_notify:
  "chain_laws E V i \<Longrightarrow> fx_notify_commit_sent E p w = (r, w') \<Longrightarrow>
     facts_stay V w w' \<and> cv_sent V w' = cv_sent V w \<and> (cv_status V w' = cv_status V w \<or> cv_status V w' = None)"
  unfolding chain_laws_def notify_law_def Let_def by (metis snd_conv)

section \<open>Resolving a pending signature\<close>

text \<open>
  The blockhash is asked about before the signature: an answer that the transaction is gone is
  drawn from a blockhash that had expired when the status was read.
\<close>

definition resolves ::
    "('w, 'm) effects \<Rightarrow> 'w chain_view \<Rightarrow> pending_transaction \<Rightarrow> 'w \<Rightarrow> bool \<Rightarrow> 'w \<Rightarrow> bool" where
  "resolves E V p w0 ok w \<longleftrightarrow> quiet V w0 w \<and>
     (if ok then cv_landed V w (pt_signature p) else genuine E p \<longrightarrow> cv_dead V w (pt_signature p))"

lemma classify_cases [case_names empty ok failed gone pending]:
  assumes "\<And>v. x = (v, []) \<Longrightarrow> P" "\<And>v rest. x = (v, Some (Inr ()) # rest) \<Longrightarrow> P"
    "\<And>v e rest. x = (v, Some (Inl e) # rest) \<Longrightarrow> P" "\<And>rest. x = (False, None # rest) \<Longrightarrow> P"
    "\<And>rest. x = (True, None # rest) \<Longrightarrow> P"
  shows P
proof (cases x)
  case (Pair v sts)
  show ?thesis
  proof (cases sts)
    case Nil
    then show ?thesis using Pair assms(1) by simp
  next
    case (Cons st rest)
    then show ?thesis
      using Pair assms(2,3) assms(4,5) [of rest] by (cases st; cases "the st"; cases v) simp_all
  qed
qed

lemma classify_verdict:
  assumes L: "chain_laws E V i" and h: "fx_is_blockhash_valid E (pt_blockhash p) w0 = (Inr valid, w1)"
    and st: "fx_signature_statuses E (pt_signature p) w1 = (Inr statuses, w2)"
    and v: "resolve_round a (classify_status valid statuses) = Inl ok"
  shows "resolves E V p w0 ok w2"
proof -
  note H = laws_blockhash [OF L h] and S = laws_statuses [OF L st]
  have q: "quiet V w0 w2" by (rule quiet_trans [OF conjunct1 [OF H] conjunct1 [OF S]])
  show ?thesis
  proof (cases "(valid, statuses)" rule: classify_cases)
    case (gone rest)
    then have "cv_expired V w1 (pt_blockhash p)" using H by simp
    moreover have "\<not> ok" using v gone by (simp add: classify_status_def)
    ultimately show ?thesis using S gone q by (auto simp: resolves_def genuine_def)
  qed (use v S q in \<open>simp_all add: resolves_def classify_status_def\<close>)
qed

lemma blockhash_triple:
  assumes L: "chain_laws E V i"
  shows "triple (\<lambda>w. w = w0) (amap_err f (await killed stop (fx_is_blockhash_valid E h)))
     (\<lambda>r w. quiet V w0 w \<and> (\<forall>valid. r = Inr valid \<longrightarrow> fx_is_blockhash_valid E h w0 = (Inr valid, w)))
     (quiet V w0) (quiet V w0)"
proof (rule triple_call)
  fix s r s' assume "s = w0" "fx_is_blockhash_valid E h s = (r, s')"
  then show "(quiet V w0 s' \<and> (\<forall>valid. map_err f r = Inr valid \<longrightarrow> fx_is_blockhash_valid E h w0 = (Inr valid, s')))
      \<and> quiet V w0 s' \<and> quiet V w0 s'"
    using laws_blockhash [OF L, of h w0 r s'] by (cases r) simp_all
qed

lemma statuses_triple:
  assumes L: "chain_laws E V i" and h: "fx_is_blockhash_valid E (pt_blockhash p) w0 = (Inr valid, w1)"
  shows "triple (\<lambda>w. w = w1) (amap_err f (await killed stop (fx_signature_statuses E (pt_signature p))))
     (\<lambda>r w. quiet V w0 w \<and> (\<forall>st a ok. r = Inr st \<longrightarrow>
        resolve_round a (classify_status valid st) = Inl ok \<longrightarrow> resolves E V p w0 ok w))
     (quiet V w0) (quiet V w0)"
proof (rule triple_call)
  fix s r s' assume s: "s = w1" "fx_signature_statuses E (pt_signature p) s = (r, s')"
  have q: "quiet V w0 s'"
    using conjunct1 [OF laws_blockhash [OF L h]] conjunct1 [OF laws_statuses [OF L s(2)]]
    unfolding s(1) by (rule quiet_trans)
  show "(quiet V w0 s' \<and> (\<forall>st a ok. map_err f r = Inr st \<longrightarrow>
      resolve_round a (classify_status valid st) = Inl ok \<longrightarrow> resolves E V p w0 ok s')) \<and> quiet V w0 s' \<and> quiet V w0 s'"
    using q s by (cases r) (simp_all add: classify_verdict [OF L h])
qed

lemma check_pending_signature_triple:
  assumes L: "chain_laws E V i"
  shows "triple (\<lambda>w. w = w0) (check_pending_signature E stop p)
     (\<lambda>r w. quiet V w0 w \<and> (\<forall>st a ok. r = Inr st \<longrightarrow> resolve_round a st = Inl ok \<longrightarrow> resolves E V p w0 ok w))
     (quiet V w0) (quiet V w0)"
  unfolding check_pending_signature_def
proof (rule triple_question [OF blockhash_triple [OF L]], goal_cases)
  case (1 valid)
  show ?case
  proof (rule triple_fix)
    fix w1 assume "quiet V w0 w1 \<and> (\<forall>v. Inr valid = Inr v \<longrightarrow> fx_is_blockhash_valid E (pt_blockhash p) w0 = (Inr v, w1))"
    then have h: "fx_is_blockhash_valid E (pt_blockhash p) w0 = (Inr valid, w1)" by simp
    show "triple (\<lambda>w. w = w1)
        (aquestion (amap_err GetPendingSignatureStatusError
           (await (fx_killed E) stop (fx_signature_statuses E (pt_signature p))))
           (\<lambda>statuses. areturn (Inr (classify_status valid statuses))))
        (\<lambda>r w. quiet V w0 w \<and> (\<forall>st a ok. r = Inr st \<longrightarrow> resolve_round a st = Inl ok \<longrightarrow> resolves E V p w0 ok w))
        (quiet V w0) (quiet V w0)"
      by (rule triple_question [OF statuses_triple [OF L h]]) (auto intro: triple_return)
  qed
qed simp


lemma resolve_loop_ends:
  "resolve_loop E stop p a w = Some y \<Longrightarrow> chain_laws E V i \<longrightarrow> (\<forall>w0. quiet V w0 w \<longrightarrow>
     ends (\<lambda>r w. quiet V w0 w \<and> (\<forall>ok. r = Inr ok \<longrightarrow> resolves E V p w0 ok w)) (quiet V w0) (quiet V w0) y)"
proof (erule resolve_loop.raw_induct [where P = "\<lambda>E stop p a w y. chain_laws E V i \<longrightarrow> (\<forall>w0. quiet V w0 w \<longrightarrow>
     ends (\<lambda>r w. quiet V w0 w \<and> (\<forall>ok. r = Inr ok \<longrightarrow> resolves E V p w0 ok w)) (quiet V w0) (quiet V w0) y)", rotated],
     goal_cases)
  case (1 f E stop p a w y)
  show ?case
  proof (intro impI allI)
    fix w0 assume L: "chain_laws E V i" and q: "quiet V w0 w"
    let ?Q = "\<lambda>r w. quiet V w0 w \<and> (\<forall>ok. r = Inr ok \<longrightarrow> resolves E V p w0 ok w)"
    have IH: "triple (quiet V w0) (f E stop p a') ?Q (quiet V w0) (quiet V w0)" for a'
      using 1(1) L unfolding triple_ends by blast
    have weak: "quiet V w w' \<Longrightarrow> quiet V w0 w'" for w' using quiet_trans [OF q] .
    have res: "resolves E V p w ok w' \<Longrightarrow> resolves E V p w0 ok w'" for ok w'
      using quiet_trans [OF q] by (auto simp: resolves_def)
    have sleep: "triple (quiet V w0) (await (fx_killed E) stop (fx_sleep E)) (\<lambda>_. quiet V w0) (quiet V w0) (quiet V w0)"
      by (rule triple_await, drule laws_quiet(1) [OF L], drule (1) quiet_trans, simp)
    have chk: "triple (\<lambda>s. s = w) (check_pending_signature E stop p)
        (\<lambda>r w'. quiet V w0 w' \<and> (\<forall>st b ok. r = Inr st \<longrightarrow> resolve_round b st = Inl ok \<longrightarrow> resolves E V p w0 ok w'))
        (quiet V w0) (quiet V w0)"
      by (rule triple_weaken [OF check_pending_signature_triple [OF L, of w]]) (auto dest: weak res)
    have "triple (\<lambda>s. s = w) (abind (check_pending_signature E stop p) (\<lambda>r w. case r of Inl e \<Rightarrow> areturn (Inl e) w
         | Inr status \<Rightarrow> (case resolve_round a status of Inl landed \<Rightarrow> areturn (Inr landed) w
            | Inr a' \<Rightarrow> if a' \<ge> MAX_CONSECUTIVE_ANOMALIES
                then areturn (Inl (PendingSignatureResolutionError (pt_signature p))) w
                else abind (await (fx_killed E) stop (fx_sleep E)) (\<lambda>_ w. f E stop p a' w) w)))
       ?Q (quiet V w0) (quiet V w0)"
    proof (rule triple_bind [OF chk], goal_cases)
      case (1 r)
      show ?case
      proof (cases r)
        case (Inr st)
        show ?thesis
        proof (cases "resolve_round a st")
          case (Inl landed)
          then show ?thesis unfolding Inr by auto
        next
          case (Inr b)
          have go: "triple (\<lambda>w'. quiet V w0 w' \<and> P w') (abind (await (fx_killed E) stop (fx_sleep E)) (\<lambda>_. f E stop p b))
              ?Q (quiet V w0) (quiet V w0)" for P
            by (rule triple_bind [OF triple_pre [OF sleep] IH]) simp
          show ?thesis unfolding \<open>r = Inr st\<close> using Inr
            by (cases "MAX_CONSECUTIVE_ANOMALIES \<le> b") (simp_all add: go)
        qed
      qed simp
    qed
    then show "ends ?Q (quiet V w0) (quiet V w0) y"
      using 1(2) unfolding triple_ends by blast
  qed
qed

lemma resolve_triple:
  assumes "chain_laws E V i"
  shows "triple (\<lambda>w. w = w0) (resolve_pending_signature E stop p)
     (\<lambda>r w. quiet V w0 w \<and> (\<forall>ok. r = Inr ok \<longrightarrow> resolves E V p w0 ok w)) (quiet V w0) (quiet V w0)"
  unfolding resolve_pending_signature_def triple_ends
proof (intro allI impI)
  fix s y assume "s = w0" "resolve_loop E stop p 0 s = Some y"
  with resolve_loop_ends [of E stop p 0 s y V i] assms
  show "ends (\<lambda>r w. quiet V w0 w \<and> (\<forall>ok. r = Inr ok \<longrightarrow> resolves E V p w0 ok w)) (quiet V w0) (quiet V w0) y"
    by simp
qed

section \<open>Changes of a strategy keep commits out\<close>

lemma extract_callbacks_commits [simp]:
  "list_ex is_commit_finalize_task (snd (extract_callbacks ts)) = list_ex is_commit_finalize_task ts"
  by (induction ts rule: extract_callbacks.induct) (auto split: prod.splits)

lemma refresh_tasks [simp]: "ts_tasks (refresh_lookup_table_keys W k s) = ts_tasks s"
  by (simp add: refresh_lookup_table_keys_def)

lemma extract_action_commits [simp]:
  "list_ex is_commit_finalize_task (ts_tasks (snd (extract_action_callbacks s))) =
     list_ex is_commit_finalize_task (ts_tasks s)"
  by (simp add: extract_action_callbacks_def split: prod.splits)
     (metis extract_callbacks_commits snd_conv)

lemma filter_not_action_commits:
  "list_ex is_commit_finalize_task (filter (\<lambda>t. \<not> is_base_action t) ts) = list_ex is_commit_finalize_task ts"
proof -
  have "is_commit_finalize_task t \<Longrightarrow> \<not> is_base_action t" for t by (cases t) auto
  then show ?thesis by (auto simp: list_ex_iff)
qed

lemma remove_actions_commits [simp]:
  "list_ex is_commit_finalize_task (ts_tasks (snd (remove_actions W k s))) =
     list_ex is_commit_finalize_task (ts_tasks s)"
  by (cases "extract_action_callbacks s")
     (use extract_action_commits [of s] in \<open>simp add: remove_actions_def filter_not_action_commits del: extract_action_commits\<close>)

lemma handle_undelegation_commits:
  "no_commits (ts_tasks s) \<Longrightarrow> no_commits (ts_tasks (snd (handle_undelegation_error W k s)))"
  by (auto simp: handle_undelegation_error_def Let_def list_ex_iff dest: set_takeWhileD)

lemma handle_actions_result_effect:
  assumes L: "chain_laws E V i" and h: "handle_actions_result E rep st sig r w = (rep', st', w')"
  shows "rep_progress rep' = rep_progress rep \<and> quiet V w w' \<and>
     list_ex is_commit_finalize_task (ts_tasks st') = list_ex is_commit_finalize_task (ts_tasks st)"
proof -
  define p where "p = (if r = Inr () \<or> r = Inl TimeoutError then extract_action_callbacks st
      else remove_actions (fx_wire E) (fx_authority E) st)"
  have c: "list_ex is_commit_finalize_task (ts_tasks (snd p)) = list_ex is_commit_finalize_task (ts_tasks st)"
    by (simp add: p_def)
  obtain cs st1 where p: "p = (cs, st1)" by (cases p)
  obtain rs w1 where sch: "fx_schedule_callbacks E cs sig r w = (rs, w1)" by (cases "fx_schedule_callbacks E cs sig r w")
  show ?thesis
    using h c p sch laws_quiet(7) [OF L sch]
    unfolding handle_actions_result_def p_def [symmetric]
    by (auto simp: add_callback_report_def split: if_splits)
qed

lemma execute_callbacks_effect:
  assumes L: "chain_laws E V i"
  shows "quiet V (te_world s) (te_world (execute_callbacks E sig r s))"
    and "shape i c b s \<Longrightarrow> shape i c b (execute_callbacks E sig r s)"
    and "te_pending (execute_callbacks E sig r s) = te_pending s"
    and "te_follow_up s = None \<longleftrightarrow> te_follow_up (execute_callbacks E sig r s) = None"
    and "te_progress (execute_callbacks E sig r s) = te_progress s"
proof -
  obtain rep cur w where h1: "handle_actions_result E (te_report s) (te_current s) sig r (te_world s) = (rep, cur, w)"
    by (metis prod_cases3)
  note H1 = handle_actions_result_effect [OF L h1]
  have *: "quiet V (te_world s) (te_world (execute_callbacks E sig r s)) \<and>
     (shape i c b s \<longrightarrow> shape i c b (execute_callbacks E sig r s)) \<and>
     te_pending (execute_callbacks E sig r s) = te_pending s \<and>
     (te_follow_up s = None \<longleftrightarrow> te_follow_up (execute_callbacks E sig r s) = None) \<and>
     te_progress (execute_callbacks E sig r s) = te_progress s"
  proof (cases "\<exists>e f. r = Inl e \<and> te_follow_up s = Some f")
    case True
    then obtain e f where r: "r = Inl e" and f: "te_follow_up s = Some f" by (elim exE conjE)
    obtain rep' cur' w' where h2: "handle_actions_result E rep f sig r w = (rep', cur', w')"
      by (metis prod_cases3)
    note H2 = handle_actions_result_effect [OF L h2]
    show ?thesis
      using h1 h2 H1 H2 r f quiet_trans [of V "te_world s" w w']
      by (simp add: execute_callbacks_def shape_def)
  next
    case False
    then have "execute_callbacks E sig r s = s\<lparr>te_report := rep, te_current := cur, te_world := w\<rparr>"
      using h1 by (cases r; cases "te_follow_up s") (simp_all add: execute_callbacks_def)
    then show ?thesis using H1 by (simp add: shape_def)
  qed
  show "quiet V (te_world s) (te_world (execute_callbacks E sig r s))" using * by (rule conjunct1)
  show "shape i c b s \<Longrightarrow> shape i c b (execute_callbacks E sig r s)" using * by simp
  show "te_pending (execute_callbacks E sig r s) = te_pending s" using * by simp
  show "te_follow_up s = None \<longleftrightarrow> te_follow_up (execute_callbacks E sig r s) = None" using * by simp
  show "te_progress (execute_callbacks E sig r s) = te_progress s" using * by simp
qed

lemma ready_callbacks:
  assumes L: "chain_laws E V i" and r: "ready E V i c b s"
  shows "ready E V i c b (execute_callbacks E sig res s)"
proof -
  note q = execute_callbacks_effect(1) [OF L, of s sig res]
  have "safe E V (te_world (execute_callbacks E sig res s))"
    by (rule safe_quiet [OF q ready_safe [OF r]])
  moreover have "known E V (c \<noteq> None) (te_pending s) (te_world (execute_callbacks E sig res s))"
    by (rule known_quiet [OF q ready_known [OF r]])
  ultimately show ?thesis
    using execute_callbacks_effect(2,3) [OF L] r by (simp add: ready_def)
qed

section \<open>One round of the transaction loop\<close>

abbreviation "world_safe E V s \<equiv> safe E V (te_world s)"

text \<open>
  \<open>ended\<close>: the loop is over. \<open>settled\<close>: over, and every transaction sent is dead or has landed.
  \<open>idle\<close>: the invariant, with no pending transaction.
\<close>

definition ended ::
    "('w, 'm) effects \<Rightarrow> 'w chain_view \<Rightarrow> u64 \<Rightarrow> signature option \<Rightarrow> bool \<Rightarrow> 'w tx_executor \<Rightarrow> bool" where
  "ended E V i c b s \<longleftrightarrow> shape i c b s \<and> world_safe E V s"

definition settled ::
    "('w, 'm) effects \<Rightarrow> 'w chain_view \<Rightarrow> u64 \<Rightarrow> signature option \<Rightarrow> bool \<Rightarrow> signature \<Rightarrow> 'w tx_executor \<Rightarrow> bool" where
  "settled E V i c b sig s \<longleftrightarrow> ended E V i c b s \<and> known E V True None (te_world s) \<and>
     (cv_landed V (te_world s) sig \<or> c = Some sig)"

definition idle ::
    "('w, 'm) effects \<Rightarrow> 'w chain_view \<Rightarrow> u64 \<Rightarrow> signature option \<Rightarrow> bool \<Rightarrow> 'w tx_executor \<Rightarrow> bool" where
  "idle E V i c b s \<longleftrightarrow> ready E V i c b s \<and> te_pending s = None"

definition failed_send ::
    "('w, 'm) effects \<Rightarrow> 'w chain_view \<Rightarrow> u64 \<Rightarrow> signature option \<Rightarrow> bool \<Rightarrow> transaction_execution_error \<Rightarrow>
     'w tx_executor \<Rightarrow> bool" where
  "failed_send E V i c b err s \<longleftrightarrow> ended E V i c b s \<and> (is_rejected err \<longrightarrow> idle E V i c b s)"

lemma shape_irrelevant [simp]:
  "shape i c b (set_transaction t s) = shape i c b s"
  "shape i c b (s\<lparr>te_attempt := a\<rparr>) = shape i c b s"
  "shape i c b (s\<lparr>te_world := w\<rparr>) = shape i c b s"
  "shape i c b (s\<lparr>te_pending := p\<rparr>) = shape i c b s"
  "shape i c b (s\<lparr>te_report := add_patched_error e (te_report s)\<rparr>) = shape i c b s"
  by (simp_all add: shape_def set_transaction_def set_progress_def add_patched_error_def)

lemma set_transaction_update [simp]:
  "(set_transaction t s)\<lparr>te_pending := p\<rparr> = set_transaction t (s\<lparr>te_pending := p\<rparr>)"
  "(set_transaction t s)\<lparr>te_world := w\<rparr> = set_transaction t (s\<lparr>te_world := w\<rparr>)"
  by (simp_all add: set_transaction_def set_progress_def)

lemma ready_shape: "ready E V i c b s \<Longrightarrow> shape i c b s"
  by (simp add: ready_def)

lemma ready_ended: "ready E V i c b s \<Longrightarrow> ended E V i c b s"
  by (simp add: ready_def ended_def)

lemma known_weaken: "known E V d None w \<Longrightarrow> known E V d p w"
  by (auto simp: known_def list_all_iff)

lemma known_settle: "known E V d None w \<Longrightarrow> known E V True None w"
  by (auto simp: known_def list_all_iff)

lemma known_resolved:
  assumes "known E V d (Some p) w" "resolves E V p w0 ok w"
  shows "known E V (ok \<or> d) None w"
  using assms by (auto simp: known_def list_all_iff resolves_def split: if_splits)

lemma idle_intro: "shape i c b s \<Longrightarrow> world_safe E V s \<Longrightarrow> known E V (c \<noteq> None) None (te_world s) \<Longrightarrow>
    te_pending s = None \<Longrightarrow> idle E V i c b s"
  by (simp add: idle_def ready_def)

lemma idle_ready: "idle E V i c b s \<Longrightarrow> ready E V i c b s"
  by (simp add: idle_def)

lemma idle_known: "idle E V i c b s \<Longrightarrow> known E V (c \<noteq> None) None (te_world s)"
  by (auto simp: idle_def ready_def)

lemma idle_pending: "idle E V i c b s \<Longrightarrow> ready E V i c b (s\<lparr>te_pending := p\<rparr>)"
  by (auto simp: idle_def ready_def intro: known_weaken)

lemma idle_irrelevant [simp]:
  "idle E V i c b (set_transaction t s) = idle E V i c b s"
  "idle E V i c b (s\<lparr>te_attempt := a\<rparr>) = idle E V i c b s"
  "idle E V i c b (s\<lparr>te_report := add_patched_error e (te_report s)\<rparr>) = idle E V i c b s"
  by (simp_all add: idle_def)

text \<open>An awaited call that only reads keeps the invariant wherever it stops.\<close>

lemma ext_step_quiet:
  assumes "ext_step op s = (r, s')" "\<And>w r w'. op w = (r, w') \<Longrightarrow> quiet V w w'"
  shows "\<exists>w. op (te_world s) = (r, w) \<and> s' = s\<lparr>te_world := w\<rparr> \<and> quiet V (te_world s) w"
  using assms by (auto simp: ext_step_def split: prod.splits)

lemma idle_quiet: "idle E V i c b s \<Longrightarrow> quiet V (te_world s) w \<Longrightarrow> idle E V i c b (s\<lparr>te_world := w\<rparr>)"
  by (simp add: idle_def ready_quiet)

lemma idle_step:
  assumes "\<And>s r s'. idle E V i c b s \<Longrightarrow> op s = (r, s') \<Longrightarrow> idle E V i c b s' \<and> Q r s'"
  shows "triple (idle E V i c b) (aext E stop op) (\<lambda>r s. idle E V i c b s \<and> Q r s) (ready E V i c b) (world_safe E V)"
  unfolding aext_def by (rule triple_await) (use assms idle_ready ready_safe in blast)

lemma reconcile_triple:
  assumes L: "chain_laws E V i"
  shows "triple (ready E V i c b) (reconcile_outbox E stop rc) (\<lambda>_. ready E V i c b) (ready E V i c b) (world_safe E V)"
proof -
  have step: "triple (idle E V i c b) (aext E stop (recover_pending_from_outbox E))
      (\<lambda>p s. idle E V i c b s \<and> True) (ready E V i c b) (world_safe E V)"
  proof (rule idle_step)
    fix s p s' assume s: "idle E V i c b s" and op: "recover_pending_from_outbox E s = (p, s')"
    then have id: "te_intent_id s = i" by (simp add: idle_def ready_def shape_def)
    obtain r w where f: "fx_fetch_outbox_intent E i (te_world s) = (r, w)" by (metis surj_pair)
    then have "s' = s\<lparr>te_world := w\<rparr>" using op id by (simp add: recover_pending_from_outbox_def ext_step_def)
    then show "idle E V i c b s' \<and> True" using idle_quiet [OF s laws_quiet(6) [OF L f]] by simp
  qed
  show ?thesis
    unfolding reconcile_outbox_def
  proof (rule triple_read_then)
    fix s0 assume r: "ready E V i c b s0"
    show "triple (\<lambda>s. s = s0) (if te_pending s0 = None \<and> \<not> rc
        then abind (aext E stop (recover_pending_from_outbox E)) (\<lambda>p. abind (amodify (\<lambda>s. s\<lparr>te_pending := p\<rparr>)) (\<lambda>_. areturn True))
        else areturn rc) (\<lambda>_. ready E V i c b) (ready E V i c b) (world_safe E V)"
    proof (rule triple_if)
      assume "te_pending s0 = None \<and> \<not> rc"
      then have "idle E V i c b s0" using r by (simp add: idle_def)
      then show "triple (\<lambda>s. s = s0) (abind (aext E stop (recover_pending_from_outbox E))
          (\<lambda>p. abind (amodify (\<lambda>s. s\<lparr>te_pending := p\<rparr>)) (\<lambda>_. areturn True)))
          (\<lambda>_. ready E V i c b) (ready E V i c b) (world_safe E V)"
        by (intro triple_bind [OF triple_pre [OF step]] triple_modify_then [where P' = "ready E V i c b"])
           (simp_all add: idle_pending)
    qed (simp add: r)
  qed
qed

text \<open>The outcome of resolving a recorded transaction, per answer.\<close>

definition resolved_post ::
    "('w, 'm) effects \<Rightarrow> 'w chain_view \<Rightarrow> u64 \<Rightarrow> signature option \<Rightarrow> bool \<Rightarrow>
     ('s intent_executor_error, signature option) result \<Rightarrow> 'w tx_executor \<Rightarrow> bool" where
  "resolved_post E V i c b r s \<longleftrightarrow> (case r of
      Inl _ \<Rightarrow> ended E V i c b s
    | Inr None \<Rightarrow> idle E V i c b s
    | Inr (Some sig) \<Rightarrow> settled E V i c b sig s)"

lemma resolve_part_triple:
  assumes L: "chain_laws E V i"
  shows "triple (\<lambda>s. ready E V i c b s \<and> te_pending s = Some p)
     (on_part te_world (\<lambda>w s. s\<lparr>te_world := w\<rparr>) (resolve_pending_signature E stop p))
     (\<lambda>r s. ready E V i c b s \<and> te_pending s = Some p \<and> (\<forall>ok. r = Inr ok \<longrightarrow> (\<exists>w0. resolves E V p w0 ok (te_world s))))
     (ready E V i c b) (world_safe E V)"
proof (rule triple_part)
  fix s assume s: "ready E V i c b s \<and> te_pending s = Some p"
  then have keep: "ready E V i c b (s\<lparr>te_world := w\<rparr>)" if "quiet V (te_world s) w" for w
    using that by (simp add: ready_quiet)
  show "triple (\<lambda>w. w = te_world s) (resolve_pending_signature E stop p)
      (\<lambda>r w. ready E V i c b (s\<lparr>te_world := w\<rparr>) \<and> te_pending (s\<lparr>te_world := w\<rparr>) = Some p \<and>
         (\<forall>ok. r = Inr ok \<longrightarrow> (\<exists>w0. resolves E V p w0 ok (te_world (s\<lparr>te_world := w\<rparr>)))))
      (\<lambda>w. ready E V i c b (s\<lparr>te_world := w\<rparr>)) (\<lambda>w. world_safe E V (s\<lparr>te_world := w\<rparr>))"
    by (rule triple_weaken [OF resolve_triple [OF L]]) (use s keep ready_safe [OF keep] in auto)
qed

lemma resolve_recorded_triple:
  assumes L: "chain_laws E V i"
  shows "triple (ready E V i c b) (resolve_recorded E stop) (resolved_post E V i c b) (ready E V i c b) (world_safe E V)"
  unfolding resolve_recorded_def
proof (rule triple_read_then)
  fix s0 assume r: "ready E V i c b s0"
  show "triple (\<lambda>s. s = s0) (case te_pending s0 of None \<Rightarrow> areturn (Inr None)
       | Some pending \<Rightarrow>
           abind (amodify (set_transaction (Submitted (pt_signature pending)))) (\<lambda>_.
           aquestion (on_part te_world (\<lambda>w s. s\<lparr>te_world := w\<rparr>) (resolve_pending_signature E stop pending)) (\<lambda>landed.
           if landed
           then abind (amodify (set_transaction (Confirmed (pt_signature pending)))) (\<lambda>_.
                areturn (Inr (Some (pt_signature pending))))
           else abind (amodify (\<lambda>s. (set_transaction (Rejected (pt_signature pending)) s)\<lparr>te_pending := None\<rparr>)) (\<lambda>_.
                areturn (Inr None)))))
     (resolved_post E V i c b) (ready E V i c b) (world_safe E V)"
  proof (cases "te_pending s0")
    case None
    then show ?thesis using r by (simp add: resolved_post_def idle_def)
  next
    case (Some p)
    show ?thesis
      unfolding Some option.case
    proof (rule triple_modify_then [OF triple_question [OF resolve_part_triple [OF L]]], goal_cases)
      case (1 landed)
      have S: "settled E V i c b (pt_signature p) s" if "ready E V i c b s" "te_pending s = Some p"
        "resolves E V p w0 True (te_world s)" for s w0
        using that known_resolved [of E V "c \<noteq> None" p "te_world s" w0 True]
        by (simp add: settled_def ended_def ready_def resolves_def)
      have I: "idle E V i c b (s\<lparr>te_pending := None\<rparr>)" if "ready E V i c b s" "te_pending s = Some p"
        "resolves E V p w0 False (te_world s)" for s w0
        using that known_resolved [of E V "c \<noteq> None" p "te_world s" w0 False]
        by (intro idle_intro) (simp_all add: ready_def)
      show ?case
      proof (rule triple_if)
        assume "landed"
        then show "triple (\<lambda>s. ready E V i c b s \<and> te_pending s = Some p \<and> (\<forall>ok. Inr landed = Inr ok \<longrightarrow> (\<exists>w0. resolves E V p w0 ok (te_world s))))
            (abind (amodify (set_transaction (Confirmed (pt_signature p)))) (\<lambda>_. areturn (Inr (Some (pt_signature p)))))
            (resolved_post E V i c b) (ready E V i c b) (world_safe E V)"
          by (intro triple_modify_then [where P' = "settled E V i c b (pt_signature p)"])
             (auto simp: resolved_post_def dest: S simp add: settled_def ended_def)
      next
        assume "\<not> landed"
        then show "triple (\<lambda>s. ready E V i c b s \<and> te_pending s = Some p \<and> (\<forall>ok. Inr landed = Inr ok \<longrightarrow> (\<exists>w0. resolves E V p w0 ok (te_world s))))
            (abind (amodify (\<lambda>s. (set_transaction (Rejected (pt_signature p)) s)\<lparr>te_pending := None\<rparr>)) (\<lambda>_. areturn (Inr None)))
            (resolved_post E V i c b) (ready E V i c b) (world_safe E V)"
          by (intro triple_modify_then [where P' = "idle E V i c b"]) (auto simp: resolved_post_def dest: I)
      qed
    qed (auto simp: resolved_post_def r Some ready_ended)
  qed
qed

lemma prepare_triple:
  assumes L: "chain_laws E V i"
  shows "triple (idle E V i c b) (prepare_transaction E stop)
     (\<lambda>r s. idle E V i c b s \<and> (\<forall>p. r = Inr p \<longrightarrow> genuine E p)) (ready E V i c b) (world_safe E V)"
proof -
  have prep: "triple (idle E V i c b) (aext E stop (prepare_for_strategy_step E))
      (\<lambda>r s. idle E V i c b s \<and> True) (ready E V i c b) (world_safe E V)"
  proof (rule idle_step)
    fix s r s' assume s: "idle E V i c b s" and op: "prepare_for_strategy_step E s = (r, s')"
    obtain m cl w where f: "fx_prepare_for_strategy E (te_current s) (te_world s) = ((m, cl), w)"
      by (metis surj_pair)
    have "idle E V i c b (s\<lparr>te_world := w\<rparr>)" by (rule idle_quiet [OF s laws_quiet(2) [OF L f]])
    then show "idle E V i c b s' \<and> True"
      using op f by (auto simp: prepare_for_strategy_step_def ext_step_def idle_def ready_def shape_def)
  qed
  have hash: "triple (idle E V i c b) (aext E stop (ext_step (fx_get_latest_blockhash E)))
      (\<lambda>r s. idle E V i c b s \<and> True) (ready E V i c b) (world_safe E V)"
  proof (rule idle_step)
    fix s r s' assume s: "idle E V i c b s" and op: "ext_step (fx_get_latest_blockhash E) s = (r, s')"
    obtain w where "s' = s\<lparr>te_world := w\<rparr>" "fx_get_latest_blockhash E (te_world s) = (r, w)"
      using op by (auto simp: ext_step_def split: prod.splits)
    then show "idle E V i c b s' \<and> True" using idle_quiet [OF s laws_quiet(3) [OF L]] by simp
  qed
  have sign: "genuine E \<lparr>pt_signature = sig, pt_blockhash = h\<rparr>" if "fx_sign E m h = Some sig" for m h sig
    using that by (auto simp: genuine_def)
  show ?thesis
    unfolding prepare_transaction_def
    by (rule triple_question [OF prep], rule triple_question [OF triple_map_err [OF triple_weaken [OF hash]]])
       (auto split: option.splits intro: sign)
qed

lemma into_stage_status:
  "\<exists>hf. from_status (Executing (into_stage pe)) = Some (pe\<lparr>pe_has_follow_up := hf\<rparr>)"
  by (cases pe) (auto simp: into_stage_def split: option.splits)

lemma stage_recorded:
  assumes k: "known E V (c \<noteq> None) None w" and st: "cv_status V w = Some (Executing (into_stage pe))"
    and pe: "pe_confirmed_commit pe = c"
  shows "consistent E V w"
proof -
  obtain hf where hf: "from_status (Executing (into_stage pe)) = Some (pe\<lparr>pe_has_follow_up := hf\<rparr>)"
    using into_stage_status by blast
  show ?thesis
    using k pe unfolding consistent_def st option.case hf recorded_def known_def list_all_iff by auto
qed

text \<open>Recording the stage: the record names the transaction before it is sent.\<close>

lemma stage_triple:
  assumes L: "chain_laws E V i" and stage: "stage = into_stage pe" "pe_confirmed_commit pe = c"
  shows "triple (idle E V i c b)
     (aext E stop (\<lambda>s. ext_step (fx_set_intent_execution_stage E (te_intent_id s) stage (ns s)) s))
     (\<lambda>r s. idle E V i c b s \<and> (r = Inr () \<longrightarrow> cv_status V (te_world s) = Some (Executing stage)))
     (ready E V i c b) (world_safe E V)"
proof (rule idle_step)
  fix s r s'
  assume s: "idle E V i c b s"
    and op: "ext_step (fx_set_intent_execution_stage E (te_intent_id s) stage (ns s)) s = (r, s')"
  obtain w where s': "s' = s\<lparr>te_world := w\<rparr>"
    and f: "fx_set_intent_execution_stage E i stage (ns s) (te_world s) = (r, w)"
    using op s by (auto simp: ext_step_def idle_def ready_def shape_def split: prod.splits)
  note F = laws_stage [OF L f]
  note k0 = idle_known [OF s]
  have k: "known E V (c \<noteq> None) None w" by (rule known_stay [OF _ _ k0]) (use F in auto)
  have "once V w" by (rule once_stay [of V "te_world s"]) (use F s in \<open>auto simp: idle_def ready_def safe_def\<close>)
  moreover have "consistent E V w"
  proof (cases "cv_status V w = Some (Executing stage)")
    case True
    then show ?thesis using stage_recorded [OF k] stage by simp
  next
    case False
    then have "quiet V (te_world s) w" using F by (simp add: quiet_def)
    then have "safe E V w" by (rule safe_quiet) (use s in \<open>simp add: idle_def ready_def\<close>)
    then show ?thesis by (simp add: safe_def)
  qed
  ultimately have "idle E V i c b s'"
    using s k s' by (intro idle_intro) (auto simp: idle_def ready_def safe_def)
  then show "idle E V i c b s' \<and> (r = Inr () \<longrightarrow> cv_status V (te_world s') = Some (Executing stage))"
    using F s' by simp
qed

definition sending ::
    "('w, 'm) effects \<Rightarrow> 'w chain_view \<Rightarrow> u64 \<Rightarrow> signature option \<Rightarrow> bool \<Rightarrow> pending_execution \<Rightarrow> 'w tx_executor \<Rightarrow> bool" where
  "sending E V i c b pe s \<longleftrightarrow> shape i c b s \<and> world_safe E V s \<and> known E V (c \<noteq> None) None (te_world s) \<and>
     te_pending s = Some (pe_transaction pe) \<and> genuine E (pe_transaction pe) \<and> pe_confirmed_commit pe = c \<and>
     cv_status V (te_world s) = Some (Executing (into_stage pe))"

lemma send_once:
  assumes k: "known E V d None w" and o: "once V w" and f: "facts_stay V w w'"
    and sent: "cv_sent V w' = cv_sent V w @ [(p, ts)]" and nc: "d \<longrightarrow> no_commits ts"
  shows "once V w'"
proof -
  have "sorted_wrt (\<lambda>(p, _) (_, ts). cv_dead V w' (pt_signature p) \<or> (cv_landed V w' (pt_signature p) \<and> no_commits ts)) (cv_sent V w)"
    using o unfolding once_def by (rule sorted_wrt_mono_rel [rotated]) (use f in \<open>auto simp: facts_stay_def\<close>)
  moreover have "\<forall>(q, _) \<in> set (cv_sent V w). cv_dead V w' (pt_signature q) \<or> (cv_landed V w' (pt_signature q) \<and> no_commits ts)"
    using k f nc by (auto simp: known_def facts_stay_def list_all_iff)
  ultimately show ?thesis unfolding once_def sent by (auto simp: sorted_wrt_append)
qed

lemma known_send:
  assumes k: "known E V d None w" and f: "facts_stay V w w'" and sent: "cv_sent V w' = cv_sent V w @ [(p, ts)]"
  shows "genuine E p \<Longrightarrow> known E V d (Some p) w'"
    and "cv_dead V w' (pt_signature p) \<Longrightarrow> known E V d None w'"
    and "cv_landed V w' (pt_signature p) \<Longrightarrow> known E V True None w'"
  using k f by (auto simp: known_def sent facts_stay_def list_all_iff)

lemma send_consistent:
  assumes k: "known E V (pe_confirmed_commit pe \<noteq> None) (Some (pe_transaction pe)) w"
    and st: "cv_status V w = Some (Executing (into_stage pe))"
  shows "consistent E V w"
proof -
  obtain hf where hf: "from_status (Executing (into_stage pe)) = Some (pe\<lparr>pe_has_follow_up := hf\<rparr>)"
    using into_stage_status by blast
  show ?thesis
    using k unfolding consistent_def st option.case hf recorded_def known_def list_all_iff by auto
qed

lemma send_triple:
  assumes L: "chain_laws E V i"
  shows "triple (sending E V i c b pe)
     (aext E stop (\<lambda>s. ext_step (fx_send_signed_tx E (pe_transaction pe) (ts_tasks (te_current s))) s))
     (\<lambda>r s. ready E V i c b s \<and> (r = Inr () \<longrightarrow> settled E V i c b (pt_signature (pe_transaction pe)) s) \<and>
        (\<forall>err. r = Inl err \<longrightarrow> is_rejected err \<longrightarrow> known E V (c \<noteq> None) None (te_world s)))
     (ready E V i c b) (world_safe E V)"
  unfolding aext_def
proof (rule triple_await)
  fix s r s'
  assume s: "sending E V i c b pe s"
    and op: "ext_step (fx_send_signed_tx E (pe_transaction pe) (ts_tasks (te_current s))) s = (r, s')"
  let ?p = "pe_transaction pe"
  obtain w where s': "s' = s\<lparr>te_world := w\<rparr>"
    and f: "fx_send_signed_tx E ?p (ts_tasks (te_current s)) (te_world s) = (r, w)"
    using op by (auto simp: ext_step_def split: prod.splits)
  note F = laws_send [OF L f]
  have k0: "known E V (c \<noteq> None) None (te_world s)" and pe: "pe_confirmed_commit pe = c"
    using s by (simp_all add: sending_def)
  note K = known_send [OF k0 conjunct1 [OF F] conjunct1 [OF conjunct2 [OF F]]]
  have k: "known E V (c \<noteq> None) (Some ?p) w" by (rule K(1)) (use s in \<open>simp add: sending_def\<close>)
  have "once V w"
    by (rule send_once [OF k0 _ conjunct1 [OF F] conjunct1 [OF conjunct2 [OF F]]])
       (use s in \<open>auto simp: sending_def safe_def shape_def\<close>)
  moreover have "consistent E V w"
    by (rule send_consistent) (use k pe F s in \<open>auto simp: sending_def\<close>)
  ultimately have r': "ready E V i c b s'"
    using s k by (simp add: s' ready_def sending_def safe_def)
  have "settled E V i c b (pt_signature ?p) s'" if "r = Inr ()"
    using that F K(3) r' by (simp add: settled_def ready_ended s')
  moreover have "known E V (c \<noteq> None) None (te_world s')" if "r = Inl err" "is_rejected err" for err
    using that F K(2) by (simp add: s')
  ultimately show "(ready E V i c b s' \<and> (r = Inr () \<longrightarrow> settled E V i c b (pt_signature ?p) s') \<and>
        (\<forall>err. r = Inl err \<longrightarrow> is_rejected err \<longrightarrow> known E V (c \<noteq> None) None (te_world s')))
      \<and> ready E V i c b s' \<and> world_safe E V s'"
    using r' ready_safe [OF r'] by simp
qed

definition submit_post ::
    "('w, 'm) effects \<Rightarrow> 'w chain_view \<Rightarrow> u64 \<Rightarrow> signature option \<Rightarrow> bool \<Rightarrow>
     ('s intent_executor_error, tx_result) result \<Rightarrow> 'w tx_executor \<Rightarrow> bool" where
  "submit_post E V i c b r s \<longleftrightarrow> (case r of
      Inl _ \<Rightarrow> ended E V i c b s
    | Inr (Inr sig) \<Rightarrow> settled E V i c b sig s
    | Inr (Inl err) \<Rightarrow> failed_send E V i c b err s)"

lemma settled_irrelevant [simp]:
  "settled E V i c b sig (set_transaction t s) = settled E V i c b sig s"
  "settled E V i c b sig (s\<lparr>te_pending := p\<rparr>) = settled E V i c b sig s"
  "settled E V i c b sig (s\<lparr>te_report := add_patched_error e (te_report s)\<rparr>) = settled E V i c b sig s"
  by (simp_all add: settled_def ended_def)

lemma failed_send_irrelevant [simp]:
  "failed_send E V i c b err (set_transaction t s) = failed_send E V i c b err s"
  by (simp add: failed_send_def ended_def)

lemma submit_triple:
  assumes L: "chain_laws E V i"
  shows "triple (idle E V i c b) (submit_current E stop c b) (submit_post E V i c b) (ready E V i c b) (world_safe E V)"
proof -
  let ?pe = "\<lambda>p. \<lparr>pe_transaction = p, pe_confirmed_commit = c, pe_has_follow_up = b\<rparr>"
  have idle_end: "idle E V i c b s \<Longrightarrow> submit_post E V i c b (Inl e) s" for e s
    by (simp add: submit_post_def ready_ended idle_ready)
  have fin: "failed_send E V i c b err (s\<lparr>te_pending := None\<rparr>)"
    if "ready E V i c b s" "is_rejected err \<longrightarrow> known E V (c \<noteq> None) None (te_world s)" for s err
    using that by (auto simp: failed_send_def ended_def ready_def intro: idle_intro)
  have send: "triple (sending E V i c b (?pe p))
     (abind (aext E stop (\<lambda>s. ext_step (fx_send_signed_tx E p (ts_tasks (te_current s))) s)) (\<lambda>r.
     abind (amodify (\<lambda>s. s\<lparr>te_pending := None\<rparr>)) (\<lambda>_.
     case r of
       Inr _ \<Rightarrow> abind (amodify (set_transaction (Confirmed (pt_signature p)))) (\<lambda>_. areturn (Inr (Inr (pt_signature p))))
     | Inl err \<Rightarrow> abind (amodify (if is_rejected err then set_transaction (Rejected (pt_signature p)) else id)) (\<lambda>_.
                areturn (Inr (Inl err))))))
     (submit_post E V i c b) (ready E V i c b) (world_safe E V)" for p
  proof (rule triple_bind [OF send_triple [OF L, of c b "?pe p" stop, simplified]], goal_cases)
    case (1 r)
    show ?case
    proof (cases r)
      case (Inr u)
      show ?thesis unfolding Inr sum.case
        by (intro triple_modify_then [where P' = "settled E V i c b (pt_signature p)"]) (simp_all add: submit_post_def)
    next
      case (Inl err)
      show ?thesis unfolding Inl sum.case
        by (intro triple_modify_then [where P' = "failed_send E V i c b err"]) (simp_all add: submit_post_def fin)
    qed
  qed
  have sending: "sending E V i c b (?pe p) (set_transaction (Submitted (pt_signature p)) (s\<lparr>te_pending := Some p\<rparr>))"
    if "genuine E p" "idle E V i c b s" "cv_status V (te_world s) = Some (Executing (into_stage (?pe p)))" for p s
    using that idle_known [OF that(2)] by (simp add: sending_def idle_def ready_def)
  show ?thesis
    unfolding submit_current_def
  proof (rule triple_modify_then [where P' = "idle E V i c b"],
      rule triple_question [OF triple_map_err [OF triple_weaken [OF prepare_triple [OF L],
        where Q' = "\<lambda>r s. idle E V i c b s \<and> (\<forall>p. map_err FailedPreparation r = Inr p \<longrightarrow> genuine E p)"]]],
      simp, simp add: map_err_Inr_iff, simp, simp, goal_cases)
    case (1 p)
    have stage: "triple (idle E V i c b) (amap_err (\<lambda>_. OutboxClientError) (aext E stop (\<lambda>s.
        ext_step (fx_set_intent_execution_stage E (te_intent_id s) (into_stage (?pe p))
          (recovery_commit_nonces (ts_tasks (te_current s)))) s)))
        (\<lambda>r s. idle E V i c b s \<and> (r = Inr () \<longrightarrow> cv_status V (te_world s) = Some (Executing (into_stage (?pe p)))))
        (ready E V i c b) (world_safe E V)"
      by (rule triple_map_err, rule triple_weaken [OF stage_triple [OF L refl]]) (auto simp: map_err_Inr_iff)
    show ?case
      apply (rule triple_pre [where P = "\<lambda>s. genuine E p \<and> idle E V i c b s"], rule triple_pure)
       apply (rule triple_modify_then [where P' = "idle E V i c b"], rule triple_question [OF stage])
         apply (rule triple_modify_then [OF send])
         apply (simp_all add: sending idle_end)
      done
  qed (simp_all add: idle_end)
qed

section \<open>Repairs and the loop\<close>

definition recover_post ::
    "('w, 'm) effects \<Rightarrow> 'w chain_view \<Rightarrow> u64 \<Rightarrow> signature option \<Rightarrow> bool \<Rightarrow> transaction_execution_error \<Rightarrow>
     ('s intent_executor_error, bool) result \<Rightarrow> 'w tx_executor \<Rightarrow> bool" where
  "recover_post E V i c b err r s \<longleftrightarrow> (case r of
      Inl _ \<Rightarrow> ended E V i c b s
    | Inr True \<Rightarrow> idle E V i c b s \<and> is_rejected err
    | Inr False \<Rightarrow> failed_send E V i c b err s)"

lemma idle_update:
  assumes "idle E V i c b s" "quiet V (te_world s) w" "rep_progress rep = te_progress s"
    "no_commits (ts_tasks (te_current s)) \<Longrightarrow> no_commits (ts_tasks cur)"
  shows "idle E V i c b (s\<lparr>te_report := rep, te_current := cur, te_world := w\<rparr>)"
  using idle_quiet [OF assms(1,2)] assms(3,4) by (auto simp: idle_def ready_def shape_def)

lemma recover_actions_idle:
  assumes L: "chain_laws E V i" and s: "idle E V i c b s"
  shows "idle E V i c b (recover_actions E te sig s)"
proof -
  obtain rep cur w where h: "handle_actions_result E (te_report s) (te_current s) sig
      (Inl (Action_ActionsError te sig)) (te_world s) = (rep, cur, w)" by (metis prod_cases3)
  show ?thesis
    unfolding recover_actions_def h Let_def case_prod_conv
    by (rule idle_update [OF s]) (use handle_actions_result_effect [OF L h] in simp_all)
qed

lemma recover_undelegation_idle:
  assumes L: "chain_laws E V i" and s: "idle E V i c b s"
  shows "idle E V i c b (recover_undelegation E err s)"
proof -
  obtain cs cur where h: "handle_undelegation_error (fx_wire E) (fx_authority E) (te_current s) = (cs, cur)"
    by (metis surj_pair)
  have nc: "no_commits (ts_tasks (te_current s)) \<Longrightarrow> no_commits (ts_tasks cur)"
    using handle_undelegation_commits [of "te_current s" "fx_wire E" "fx_authority E"] h by simp
  obtain rs w where f: "fx_schedule_callbacks E cs (tee_signature err) (Inl (action_error_of_transaction err))
      (te_world s) = (rs, w)" by (metis surj_pair)
  have eq: "s\<lparr>te_current := cur, te_report := add_callback_report rs (te_report s), te_world := w\<rparr> =
      s\<lparr>te_report := add_callback_report rs (te_report s), te_current := cur, te_world := w\<rparr>" by (cases s) simp
  have "idle E V i c b (s\<lparr>te_current := cur, te_report := add_callback_report rs (te_report s), te_world := w\<rparr>)"
    unfolding eq by (rule idle_update [OF s laws_quiet(7) [OF L f]]) (use nc in \<open>simp_all add: add_callback_report_def\<close>)
  moreover have "idle E V i c b (s\<lparr>te_current := cur\<rparr>)"
    using idle_update [OF s, of "te_world s" "te_report s" cur] nc by simp
  ultimately show ?thesis by (simp add: recover_undelegation_def h f Let_def)
qed

lemma finalize_legacy_triple:
  assumes L: "chain_laws E V i"
  shows "triple (idle E V i c b) (finalize_legacy E stop k) (\<lambda>_. idle E V i c b) (ready E V i c b) (world_safe E V)"
proof -
  have "triple (idle E V i c b) (aext E stop (ext_step (fx_finalize_legacy_commit E k)))
      (\<lambda>r s. idle E V i c b s \<and> True) (ready E V i c b) (world_safe E V)"
  proof (rule idle_step)
    fix s r s' assume s: "idle E V i c b s" and op: "ext_step (fx_finalize_legacy_commit E k) s = (r, s')"
    obtain w where "s' = s\<lparr>te_world := w\<rparr>" "fx_finalize_legacy_commit E k (te_world s) = (r, w)"
      using op by (auto simp: ext_step_def split: prod.splits)
    then show "idle E V i c b s' \<and> True" using idle_quiet [OF s laws_quiet(4) [OF L]] by simp
  qed
  then show ?thesis
    unfolding finalize_legacy_def by (intro triple_question [OF triple_map_err]) auto
qed

lemma recover_triple:
  assumes L: "chain_laws E V i"
  shows "triple (failed_send E V i c b err) (recover E stop err) (recover_post E V i c b err)
     (ready E V i c b) (world_safe E V)"
  unfolding recover_def
proof (rule triple_read_then)
  fix s0 assume f: "failed_send E V i c b err s0"
  have idle: "is_rejected err \<Longrightarrow> idle E V i c b s0" using f by (simp add: failed_send_def)
  have keep: "triple (\<lambda>s. s = s0) (areturn (Inr False)) (recover_post E V i c b e) (ready E V i c b) (world_safe E V)"
    if "e = err" for e
    using f that by (simp add: recover_post_def)
  have act: "triple (\<lambda>s. s = s0) (abind (amodify (recover_actions E te sig)) (\<lambda>_. areturn (Inr True)))
      (recover_post E V i c b e) (ready E V i c b) (world_safe E V)" if "e = err" "is_rejected e" for e te sig
    using that recover_actions_idle [OF L idle]
    by (intro triple_modify_then [where P' = "idle E V i c b"]) (simp_all add: recover_post_def)
  have und: "triple (\<lambda>s. s = s0) (abind (amodify (recover_undelegation E e)) (\<lambda>_. areturn (Inr True)))
      (recover_post E V i c b e) (ready E V i c b) (world_safe E V)" if "e = err" "is_rejected e" for e
    using that recover_undelegation_idle [OF L idle]
    by (intro triple_modify_then [where P' = "idle E V i c b"]) (simp_all add: recover_post_def)
  have fin: "triple (\<lambda>s. s = s0) (aquestion (finalize_legacy E stop k) (\<lambda>_. areturn (Inr True)))
      (recover_post E V i c b e) (ready E V i c b) (world_safe E V)" if "e = err" "is_rejected e" for e k
    by (rule triple_question [OF triple_pre [OF finalize_legacy_triple [OF L]]])
       (use that in \<open>simp_all add: idle recover_post_def ready_ended idle_ready\<close>)
  have rep: "triple (\<lambda>s. s = s0) (repair E stop err s0) (recover_post E V i c b err) (ready E V i c b) (world_safe E V)"
    unfolding repair_def
    by (simp del: triple_simple_iff add: keep act und fin split: transaction_execution_error.split option.split)
  show "triple (\<lambda>s. s = s0) (if \<not> can_repair_commits (id s0) \<and> te_confirmed (id s0) = None
      then areturn (Inr False) else repair E stop err (id s0))
      (recover_post E V i c b err) (ready E V i c b) (world_safe E V)"
    by (simp del: triple_simple_iff add: keep rep)
qed

definition round_post ::
    "('w, 'm) effects \<Rightarrow> 'w chain_view \<Rightarrow> u64 \<Rightarrow> signature option \<Rightarrow> bool \<Rightarrow>
     ('s intent_executor_error, tx_result loop_flow) result \<Rightarrow> 'w tx_executor \<Rightarrow> bool" where
  "round_post E V i c b r s \<longleftrightarrow> (case r of
      Inl e \<Rightarrow> submit_post E V i c b (Inl e :: ('s intent_executor_error, tx_result) result) s
    | Inr (Loop_Break v) \<Rightarrow> submit_post E V i c b (Inr v :: ('s intent_executor_error, tx_result) result) s
    | Inr (Loop_Again _) \<Rightarrow> ready E V i c b s)"

lemma round_post_simps [simp]:
  "round_post E V i c b (Inl e) s = ended E V i c b s"
  "round_post E V i c b (Inr (Loop_Break (Inl err))) s = failed_send E V i c b err s"
  "round_post E V i c b (Inr (Loop_Break (Inr sig))) s = settled E V i c b sig s"
  "round_post E V i c b (Inr (Loop_Again rc)) s = ready E V i c b s"
  by (simp_all add: round_post_def submit_post_def)

lemma idle_failed: "idle E V i c b s \<Longrightarrow> failed_send E V i c b err s"
  by (simp add: failed_send_def ready_ended idle_ready)

lemma idle_settled: "idle E V i (Some sig) b s \<Longrightarrow> settled E V i (Some sig) b sig s"
  using known_settle [OF idle_known] by (simp add: settled_def ready_ended idle_ready)

lemma after_failure_triple:
  assumes L: "chain_laws E V i"
  shows "triple (failed_send E V i c b err) (after_failure E stop c rc err) (round_post E V i c b)
     (ready E V i c b) (world_safe E V)"
  unfolding after_failure_def
proof (rule triple_question [OF recover_triple [OF L]], goal_cases)
  case (1 continue)
  have inv: "triple (idle E V i c b) (aext E stop (ext_step (fx_invalidate_cached_blockhash E)))
      (\<lambda>r s. idle E V i c b s \<and> True) (ready E V i c b) (world_safe E V)"
  proof (rule idle_step)
    fix s r s' assume s: "idle E V i c b s" and op: "ext_step (fx_invalidate_cached_blockhash E) s = (r, s')"
    obtain w where "s' = s\<lparr>te_world := w\<rparr>" "fx_invalidate_cached_blockhash E (te_world s) = (r, w)"
      using op by (auto simp: ext_step_def split: prod.splits)
    then show "idle E V i c b s' \<and> True" using idle_quiet [OF s laws_quiet(5) [OF L]] by simp
  qed
  have patch: "triple (\<lambda>s. s = s0) (abind (amodify (\<lambda>s. s\<lparr>te_report := add_patched_error err (te_report s)\<rparr>)) (\<lambda>_. areturn r))
      (round_post E V i d b) (ready E V i d b) (world_safe E V)"
    if "idle E V i d b s0" "\<And>s. idle E V i d b s \<Longrightarrow> round_post E V i d b r s" for s0 r d
    using that by (intro triple_modify_then [where P' = "idle E V i d b"]) simp_all
  show ?case
  proof (rule triple_if)
    assume "\<not> \<not> continue"
    then show "triple (recover_post E V i c b err (Inr continue))
        (abind (aext E stop (ext_step (fx_invalidate_cached_blockhash E))) (\<lambda>_.
         abind (aread id) (\<lambda>s.
         case (c, ts_tasks (te_current s)) of
           (Some commit_signature, []) \<Rightarrow>
             if is_actions_error err
             then abind (amodify (\<lambda>s. s\<lparr>te_report := add_patched_error err (te_report s)\<rparr>)) (\<lambda>_.
                  areturn (Inr (Loop_Break (Inr commit_signature))))
             else areturn (Inr (Loop_Break (Inl err)))
         | _ \<Rightarrow>
             if te_attempt s \<ge> TRANSACTION_LOOP_CEILING then areturn (Inr (Loop_Break (Inl err)))
             else abind (amodify (\<lambda>s. s\<lparr>te_report := add_patched_error err (te_report s)\<rparr>)) (\<lambda>_.
                  areturn (Inr (Loop_Again rc))))))
        (round_post E V i c b) (ready E V i c b) (world_safe E V)"
    proof (intro triple_bind [OF triple_pre [OF inv]] triple_read_then, goal_cases)
      case (2 _ s0)
      then have "idle E V i c b s0" by simp
      then show ?case
        by (cases c; cases "ts_tasks (te_current s0)")
           (simp_all add: patch idle_failed idle_settled idle_ready)
    qed (simp add: recover_post_def)
  qed (simp add: recover_post_def)
qed (simp add: recover_post_def)

lemma execute_round_triple:
  assumes L: "chain_laws E V i"
  shows "triple (ready E V i c b) (execute_round E stop c b rc) (round_post E V i c b) (ready E V i c b) (world_safe E V)"
  unfolding execute_round_def
proof (rule triple_bind [OF reconcile_triple [OF L]], rule triple_question [OF resolve_recorded_triple [OF L]], goal_cases)
  case (1 rc landed)
  have submit: "triple (\<lambda>s. s = s0) (aquestion (submit_current E stop d b) (\<lambda>r.
             case r of
               Inr sig \<Rightarrow> areturn (Inr (Loop_Break (Inr sig)))
             | Inl err \<Rightarrow> after_failure E stop d rc err))
        (round_post E V i d b) (ready E V i d b) (world_safe E V)" if "idle E V i d b s0" for s0 d
    by (rule triple_question [OF triple_pre [OF submit_triple [OF L]]])
       (auto simp: that submit_post_def split: sum.split intro: triple_pre [OF after_failure_triple [OF L]])
  show ?case
  proof (cases landed)
    case None
    show ?thesis
      unfolding None option.case
    proof (rule triple_read_then, goal_cases)
      case (1 s0)
      then have "idle E V i c b s0" by (simp add: resolved_post_def)
      then show ?case
        by (cases c; cases "ts_tasks (te_current s0)") (simp_all add: submit idle_settled)
    qed
  qed (simp add: resolved_post_def)
qed (simp add: resolved_post_def)

lemma execute_loop_ends:
  "execute_loop E stop c b rc s = Some y \<Longrightarrow> chain_laws E V i \<longrightarrow> ready E V i c b s \<longrightarrow>
     ends (submit_post E V i c b) (ready E V i c b) (world_safe E V) y"
proof (erule execute_loop.raw_induct [where P = "\<lambda>E stop c b rc s y. chain_laws E V i \<longrightarrow> ready E V i c b s \<longrightarrow>
     ends (submit_post E V i c b) (ready E V i c b) (world_safe E V) y", rotated], goal_cases)
  case (1 f E stop c b rc s y)
  show ?case
  proof (intro impI)
    assume L: "chain_laws E V i" and r: "ready E V i c b s"
    have IH: "triple (ready E V i c b) (f E stop c b rc') (submit_post E V i c b) (ready E V i c b) (world_safe E V)" for rc'
      using 1(1) L unfolding triple_ends by blast
    have "triple (ready E V i c b) (abind (execute_round E stop c b rc) (\<lambda>r s.
       case r of
         Inl e \<Rightarrow> areturn (Inl e) s
       | Inr (Loop_Break v) \<Rightarrow> areturn (Inr v) s
       | Inr (Loop_Again rc') \<Rightarrow> f E stop c b rc' s))
       (submit_post E V i c b) (ready E V i c b) (world_safe E V)"
    proof (rule triple_bind [OF execute_round_triple [OF L]], goal_cases)
      case (1 r)
      show ?case
      proof (cases r)
        case (Inl e)
        then show ?thesis by (simp add: submit_post_def)
      next
        case (Inr flow)
        then show ?thesis
          by (cases flow) (simp_all add: round_post_def IH [unfolded triple_def] triple_def areturn_def)
      qed
    qed
    then show "ends (submit_post E V i c b) (ready E V i c b) (world_safe E V) y"
      using 1(2) r unfolding triple_ends by blast
  qed
qed

lemma execute_current_triple:
  assumes L: "chain_laws E V i"
  shows "triple (ready E V i c b) (execute_current E stop) (submit_post E V i c b) (ready E V i c b) (world_safe E V)"
  unfolding execute_current_def
proof (rule triple_read_then)
  fix s0 assume r: "ready E V i c b s0"
  then have eq: "te_confirmed (id s0) = c" "(te_follow_up (id s0) \<noteq> None) = b" by (simp_all add: ready_def shape_def)
  show "triple (\<lambda>s. s = s0) (execute_loop E stop (te_confirmed (id s0)) (te_follow_up (id s0) \<noteq> None) False)
      (submit_post E V i c b) (ready E V i c b) (world_safe E V)"
    unfolding eq triple_ends using execute_loop_ends [of E stop c b False] L r by blast
qed

lemma execute_with_timeout_triple:
  assumes L: "chain_laws E V i"
  shows "triple (ready E V i c b) (execute_with_timeout E) (submit_post E V i c b) (ready E V i c b) (world_safe E V)"
proof -
  have late: "triple (ready E V i c b) (abind (amodify (execute_callbacks E None (Inl TimeoutError))) (\<lambda>_. execute_current E never))
      (submit_post E V i c b) (ready E V i c b) (world_safe E V)"
    by (rule triple_modify_then [OF execute_current_triple [OF L]]) (rule ready_callbacks [OF L])
  have timed: "triple (\<lambda>s. s = s0) (abind (atimeout (execute_current E stop)) (\<lambda>r.
        case r of Some result \<Rightarrow> areturn result
        | None \<Rightarrow> abind (amodify (execute_callbacks E None (Inl TimeoutError))) (\<lambda>_. execute_current E never)))
      (submit_post E V i c b) (ready E V i c b) (world_safe E V)" if "ready E V i c b s0" for s0 stop
    by (rule triple_bind [OF triple_timeout [where Q = "\<lambda>r s. case r of Some v \<Rightarrow> submit_post E V i c b v s
          | None \<Rightarrow> ready E V i c b s"]])
       (auto simp: that split: option.split intro: late triple_pre [OF execute_current_triple [OF L]])
  show ?thesis
    unfolding execute_with_timeout_def Let_def
    by (rule triple_read_then)
       (auto simp del: triple_simple_iff split: option.splits
          intro!: triple_if timed triple_pre [OF late] triple_pre [OF execute_current_triple [OF L]])
qed

section \<open>Splitting a transaction\<close>

lemma rposition_None: "rposition p xs = None \<longleftrightarrow> \<not> list_ex p xs"
  by (induction xs) (auto split: option.splits)

lemma rposition_Some: "rposition p xs = Some l \<Longrightarrow> l < length xs \<and> p (xs ! l) \<and> \<not> list_ex p (drop (Suc l) xs)"
  by (induction xs arbitrary: l) (auto simp: rposition_None split: option.splits if_splits)

lemma filter_index_le:
  assumes "n = a + length xs"
  shows "map snd (filter (\<lambda>(i, _). i \<le> l) (zip [a..<n] xs)) = take (Suc l - a) xs \<and>
    map snd (filter (\<lambda>(i, _). \<not> i \<le> l) (zip [a..<n] xs)) = drop (Suc l - a) xs"
  using assms
proof (induction xs arbitrary: a)
  case (Cons x xs)
  have up: "[a..<n] = a # [Suc a..<n]" by (rule upt_conv_Cons) (use Cons.prems in simp)
  show ?case
    unfolding up using Cons.IH [of "Suc a"] Cons.prems by (cases "a \<le> l") (simp_all add: Suc_diff_le)
qed simp

lemma split_for_follow_up_tasks:
  assumes "split_for_follow_up W k s = (cur, fu)"
  shows "ts_tasks cur @ ts_tasks fu = ts_tasks s" and "no_commits (ts_tasks fu)"
    and "ts_uniqueness_nonce cur = ts_uniqueness_nonce s" and "ts_uniqueness_nonce fu = ts_uniqueness_nonce s"
    and "ts_tasks cur \<noteq> [] \<Longrightarrow> is_commit_finalize_task (last (ts_tasks cur))"
proof -
  define rp where "rp = rposition is_commit_finalize_task (ts_tasks s)"
  have n: "ts_uniqueness_nonce cur = ts_uniqueness_nonce s \<and> ts_uniqueness_nonce fu = ts_uniqueness_nonce s"
    using assms by (auto simp: split_for_follow_up_def Let_def)
  have "ts_tasks cur @ ts_tasks fu = ts_tasks s \<and> no_commits (ts_tasks fu) \<and>
    (ts_tasks cur \<noteq> [] \<longrightarrow> is_commit_finalize_task (last (ts_tasks cur)))"
  proof (cases rp)
    case None
    then have "ts_tasks cur = []" "ts_tasks fu = map snd (zip [0..<length (ts_tasks s)] (ts_tasks s))"
      using assms by (auto simp: split_for_follow_up_def rp_def [symmetric] Let_def)
    then show ?thesis using None by (simp add: rp_def rposition_None)
  next
    case (Some l)
    then have "ts_tasks cur = take (Suc l) (ts_tasks s)" "ts_tasks fu = drop (Suc l) (ts_tasks s)"
      using assms filter_index_le [of "length (ts_tasks s)" 0 "ts_tasks s" l]
      by (auto simp: split_for_follow_up_def rp_def [symmetric] Let_def case_prod_unfold)
    then show ?thesis
      using rposition_Some [OF Some [unfolded rp_def]] by (simp add: take_Suc_conv_app_nth id_take_nth_drop [symmetric])
  qed
  with n show "ts_tasks cur @ ts_tasks fu = ts_tasks s" "no_commits (ts_tasks fu)"
    "ts_uniqueness_nonce cur = ts_uniqueness_nonce s" "ts_uniqueness_nonce fu = ts_uniqueness_nonce s"
    "ts_tasks cur \<noteq> [] \<Longrightarrow> is_commit_finalize_task (last (ts_tasks cur))" by blast+
qed

lemma split_current_ready:
  assumes s: "idle E V i None False s"
  shows "ready E V i None True (split_current E err s)"
proof -
  obtain cur fu where h: "split_for_follow_up (fx_wire E) (fx_authority E) (te_current s) = (cur, fu)"
    by (metis surj_pair)
  show ?thesis
    using s split_for_follow_up_tasks(2) [OF h]
    by (auto simp: split_current_def h idle_def ready_def shape_def add_patched_error_def)
qed

section \<open>The whole execution\<close>

definition finished ::
    "('w, 'm) effects \<Rightarrow> 'w chain_view \<Rightarrow> ('s intent_executor_error, execution_output) result \<Rightarrow> 'w tx_executor \<Rightarrow> bool" where
  "finished E V r s \<longleftrightarrow> world_safe E V s \<and> (\<forall>out. r = Inr out \<longrightarrow> known E V True None (te_world s) \<and>
     (cv_landed V (te_world s) (eo_signature out) \<or> eo_confirmed_commit out = Some (eo_signature out)))"

text \<open>Combined execution comes before the commit stage, which comes before the follow-up.\<close>

definition stage_rank :: "signature option \<Rightarrow> bool \<Rightarrow> nat" where
  "stage_rank c b = (if b then 1 else if c = None then 2 else 0)"

definition pass_post ::
    "('w, 'm) effects \<Rightarrow> 'w chain_view \<Rightarrow> u64 \<Rightarrow> signature option \<Rightarrow> bool \<Rightarrow>
     ('s intent_executor_error, execution_output) result option \<Rightarrow> 'w tx_executor \<Rightarrow> bool" where
  "pass_post E V i c b r s \<longleftrightarrow> (case r of
      None \<Rightarrow> (\<exists>c' b'. ready E V i c' b' s \<and> stage_rank c' b' < stage_rank c b)
    | Some v \<Rightarrow> finished E V v s)"

lemma report_outcome_cases:
  "report_outcome E r s = s \<or> (\<exists>sig res. report_outcome E r s = execute_callbacks E sig res s)"
  unfolding report_outcome_def Let_def by (auto split: if_splits)

lemma report_outcome_keeps:
  assumes L: "chain_laws E V i"
  shows "quiet V (te_world s) (te_world (report_outcome E r s))"
    and "shape i c b s \<Longrightarrow> shape i c b (report_outcome E r s)"
    and "te_progress (report_outcome E r s) = te_progress s"
  using report_outcome_cases [of E r s] execute_callbacks_effect(1,2,5) [OF L] by auto

lemma settle_round_post:
  assumes L: "chain_laws E V i" and r: "submit_post E V i c b r s" and op: "settle_round E r s = (v, s')"
  shows "pass_post E V i c b v s'"
proof -
  let ?s = "report_outcome E r s"
  have e: "ended E V i c b s" using r by (auto simp: submit_post_def settled_def failed_send_def split: sum.splits)
  then have sh: "shape i c b ?s" by (simp add: ended_def report_outcome_keeps(2) [OF L])
  have safe: "safe E V (te_world ?s)"
    by (rule safe_quiet [OF report_outcome_keeps(1) [OF L]]) (use e in \<open>simp add: ended_def\<close>)
  show ?thesis
  proof (cases "flatten_result r")
    case (Inl err)
    then show ?thesis using op safe by (auto simp: settle_round_def Let_def pass_post_def finished_def)
  next
    case (Inr sig)
    then have "r = Inr (Inr sig)" by (auto simp: flatten_result_def result_simps)
    then have st: "settled E V i c b sig s" using r by (simp add: submit_post_def)
    have k: "known E V True None (te_world ?s)"
      by (rule known_quiet [OF report_outcome_keeps(1) [OF L]]) (use st in \<open>simp add: settled_def\<close>)
    have landed: "cv_landed V (te_world ?s) sig \<or> te_confirmed ?s = Some sig"
      using st report_outcome_keeps(1) [OF L, of s r] sh
      by (auto simp: settled_def shape_def quiet_def facts_stay_def)
    show ?thesis
    proof (cases "te_follow_up ?s")
      case None
      then show ?thesis
        using op Inr safe k landed
        by (auto simp: settle_round_def Let_def pass_post_def finished_def set_progress_def)
    next
      case (Some f)
      then have "ready E V i (Some sig) False (start_follow_up sig f ?s)"
        using sh safe k by (simp add: start_follow_up_def set_progress_def ready_def shape_def default_progress_def)
      then show ?thesis
        using op Inr Some sh by (auto simp: settle_round_def Let_def pass_post_def stage_rank_def shape_def)
    qed
  qed
qed

lemma execute_pass_triple:
  assumes L: "chain_laws E V i"
  shows "triple (ready E V i c b) (execute_pass E) (pass_post E V i c b) (world_safe E V) (world_safe E V)"
proof -
  have settle: "triple (\<lambda>s. s = s0) (astep (settle_round E r)) (pass_post E V i c b) (world_safe E V) (world_safe E V)"
    if "submit_post E V i c b r s0" for r s0
    by (rule triple_step) (use settle_round_post [OF L that] in blast)
  have split: "triple (\<lambda>s. s = s0) (abind (amodify (split_current E err)) (\<lambda>_. areturn None))
      (pass_post E V i c b) (world_safe E V) (world_safe E V)"
    if r: "submit_post E V i c b (Inr (Inl err)) s0" and sp: "splittable err s0" for err s0
  proof -
    have "is_rejected err" using sp by (cases err) (auto simp: splittable_def)
    then have "idle E V i c b s0" using r by (simp add: submit_post_def failed_send_def)
    moreover from this have cb: "c = None \<and> b = False"
      using sp by (auto simp: splittable_def is_combined_def idle_def ready_def shape_def)
    ultimately have "ready E V i None True (split_current E err s0)" by (simp add: split_current_ready)
    then show ?thesis using cb
      by (intro triple_modify_then [where P' = "ready E V i None True"]) (auto simp: pass_post_def stage_rank_def)
  qed
  show ?thesis
    unfolding execute_pass_def
  proof (rule triple_bind [OF triple_weaken [OF execute_with_timeout_triple [OF L, of c b]]], assumption, assumption)
    fix r
    show "triple (submit_post E V i c b r) (abind (aread id) (\<lambda>s.
        case r of
          Inr (Inl err) \<Rightarrow>
            if splittable err s then abind (amodify (split_current E err)) (\<lambda>_. areturn None)
            else astep (settle_round E r)
        | _ \<Rightarrow> astep (settle_round E r))) (pass_post E V i c b) (world_safe E V) (world_safe E V)"
      by (rule triple_read_then)
         (auto simp del: triple_simple_iff split: sum.split intro!: triple_if intro: settle split)
  qed (auto intro: ready_safe)
qed

lemma execute_ends:
  "execute E s = Some y \<Longrightarrow> chain_laws E V i \<longrightarrow> (\<forall>c b. ready E V i c b s \<longrightarrow>
     ends (finished E V) (world_safe E V) (world_safe E V) y)"
proof (erule execute.raw_induct [where P = "\<lambda>E s y. chain_laws E V i \<longrightarrow> (\<forall>c b. ready E V i c b s \<longrightarrow>
     ends (finished E V) (world_safe E V) (world_safe E V) y)", rotated], goal_cases)
  case (1 f E s y)
  show ?case
  proof (intro impI allI)
    fix c b assume L: "chain_laws E V i" and r: "ready E V i c b s"
    have IH: "triple (ready E V i c' b') (f E) (finished E V) (world_safe E V) (world_safe E V)" for c' b'
      using 1(1) L unfolding triple_ends by blast
    have again: "triple (pass_post E V i c b None) (f E) (finished E V) (world_safe E V) (world_safe E V)"
      using IH unfolding triple_def pass_post_def option.case by blast
    have "triple (ready E V i c b) (abind (execute_pass E) (\<lambda>r s. case r of Some v \<Rightarrow> areturn v s | None \<Rightarrow> f E s))
       (finished E V) (world_safe E V) (world_safe E V)"
    proof (rule triple_bind [OF execute_pass_triple [OF L]], goal_cases)
      case (1 r)
      show ?case by (cases r) (simp_all add: again, simp add: pass_post_def)
    qed
    then show "ends (finished E V) (world_safe E V) (world_safe E V) y"
      using 1(2) r unfolding triple_ends by blast
  qed
qed

lemma execute_triple:
  assumes "chain_laws E V i"
  shows "triple (ready E V i c b) (execute E) (finished E V) (world_safe E V) (world_safe E V)"
  unfolding triple_ends using execute_ends assms by blast

end
