(* ===== verification/Runner_Returns.thy ===== *)
theory Runner_Returns
  imports Runner_Safety
begin

text \<open>
  The loops of the transaction executor end. Waiting for a pending signature ends because its
  blockhash expires or because the node keeps giving unusable answers; the transaction loop has
  a ceiling of attempts; the outer loop goes through at most three stages.
\<close>

section \<open>Waiting for a pending signature\<close>

text \<open>
  \<open>expiry_law\<close>: \<open>window h w\<close> bounds how many more sleeps the blockhash \<open>h\<close> stays valid; it never
  grows, a sleep shortens it, and a node that calls \<open>h\<close> valid has some of it left.
\<close>

definition expiry_law :: "('w, 'm) effects \<Rightarrow> (hash \<Rightarrow> 'w \<Rightarrow> nat) \<Rightarrow> bool" where
  "expiry_law E window \<longleftrightarrow> (\<forall>h w.
     (fst (fx_is_blockhash_valid E h w) = Inr True \<longrightarrow> 0 < window h w) \<and>
     window h (snd (fx_is_blockhash_valid E h w)) \<le> window h w \<and>
     (\<forall>sig. window h (snd (fx_signature_statuses E sig w)) \<le> window h w) \<and>
     window h (snd (fx_sleep E w)) \<le> window h w - 1)"

lemma expiry_steps:
  assumes "expiry_law E window"
  shows "fx_is_blockhash_valid E h w = (r, w') \<Longrightarrow> window h w' \<le> window h w \<and> (r = Inr True \<longrightarrow> 0 < window h w)"
    and "fx_signature_statuses E sig w = (r', w') \<Longrightarrow> window h w' \<le> window h w"
    and "fx_sleep E w = (u, w') \<Longrightarrow> window h w' \<le> window h w - 1"
  using assms unfolding expiry_law_def by (metis fst_conv snd_conv)+

lemma check_pending_bound:
  assumes L: "expiry_law E window"
  shows "triple (\<lambda>w. w = w0) (check_pending_signature E stop p)
     (\<lambda>r w. window (pt_blockhash p) w \<le> window (pt_blockhash p) w0 \<and>
        (r = Inr Status_Pending \<longrightarrow> 0 < window (pt_blockhash p) w0)) (\<lambda>_. True) (\<lambda>_. True)"
proof -
  let ?h = "pt_blockhash p"
  have valid: "triple (\<lambda>w. w = w0) (amap_err f (await (fx_killed E) stop (fx_is_blockhash_valid E ?h)))
      (\<lambda>r w. window ?h w \<le> window ?h w0 \<and> (r = Inr True \<longrightarrow> 0 < window ?h w0)) (\<lambda>_. True) (\<lambda>_. True)" for f
    by (rule triple_call) (use expiry_steps(1) [OF L, of ?h w0] in \<open>auto simp: map_err_Inr_iff\<close>)
  have status: "triple (\<lambda>w. window ?h w \<le> window ?h w0) (amap_err f (await (fx_killed E) stop (fx_signature_statuses E sig)))
      (\<lambda>_ w. window ?h w \<le> window ?h w0) (\<lambda>_. True) (\<lambda>_. True)" for f sig
    by (rule triple_call) (use expiry_steps(2) [OF L, of _ _ _ _ ?h] in \<open>blast intro: order_trans\<close>)
  have pend: "classify_status v sts = Status_Pending \<Longrightarrow> v" for v sts
    by (cases "(v, sts)" rule: classify_cases) (simp_all add: classify_status_def)
  show ?thesis
    unfolding check_pending_signature_def
  proof (rule triple_question [OF valid], goal_cases)
    case (1 v)
    show ?case
      by (rule triple_pre [where P = "\<lambda>w. (v \<longrightarrow> 0 < window ?h w0) \<and> window ?h w \<le> window ?h w0"], rule triple_pure,
          rule triple_question [OF status]) (auto dest: pend)
  qed auto
qed

lemma resolve_round_count:
  assumes "resolve_round a st = Inr a'" "\<not> a' \<ge> MAX_CONSECUTIVE_ANOMALIES" "a < 5"
  shows "a' < 5" and "st = Status_Pending \<or> unat a' = Suc (unat a)"
proof -
  have "unat (a + 1) = Suc (unat a)" using assms(3) by (simp add: unat_word_ariths word_less_nat_alt)
  then show "a' < 5" "st = Status_Pending \<or> unat a' = Suc (unat a)"
    using assms by (cases st; auto simp: MAX_CONSECUTIVE_ANOMALIES_def)+
qed

lemma check_pending_returns: "returns (check_pending_signature E stop p)"
  unfolding check_pending_signature_def by (intro returns_rules)

lemma resolve_loop_returns:
  fixes E :: "('w, 'm) effects"
  assumes L: "expiry_law E window" and "a < 5"
  shows "(resolve_loop E stop p a w :: (('s intent_executor_error, bool) result await \<times> 'w) option) \<noteq> None"
  using assms(2)
proof (induction "6 * window (pt_blockhash p) w + (5 - unat a)" arbitrary: a w rule: less_induct)
  case less
  let ?h = "pt_blockhash p"
  have again: "abind (await (fx_killed E) stop (fx_sleep E)) 
      (\<lambda>_ w. resolve_loop E stop p a' w :: (('s intent_executor_error, bool) result await \<times> 'w) option) w1 \<noteq> None"
    if chk: "window ?h w1 \<le> window ?h w" "st = Status_Pending \<longrightarrow> 0 < window ?h w"
      and round: "resolve_round a st = Inr a'" "\<not> a' \<ge> MAX_CONSECUTIVE_ANOMALIES" for a' st w1
  proof -
    obtain u w2 where sl: "fx_sleep E w1 = (u, w2)" by (cases "fx_sleep E w1")
    have "window ?h w2 \<le> window ?h w1 - 1" by (rule expiry_steps(3) [OF L sl])
    then have "6 * window ?h w2 + (5 - unat a') < 6 * window ?h w + (5 - unat a)"
      using chk resolve_round_count(2) [OF round less.prems] resolve_round_count(1) [OF round less.prems] less.prems
      by (auto simp: word_less_nat_alt)
    then have "(resolve_loop E stop p a' w2 :: (('s intent_executor_error, bool) result await \<times> 'w) option) \<noteq> None"
      by (rule less.hyps) (rule resolve_round_count(1) [OF round less.prems])
    then show ?thesis by (simp add: abind_def await_def sl)
  qed
  obtain r :: "('s intent_executor_error, pending_signature_status) result await" and w1
    where chk: "check_pending_signature E stop p w = Some (r, w1)"
    by (rule returnsE [OF check_pending_returns])
  note B = tripleD [OF check_pending_bound [OF L] refl chk]
  show ?case
    using again [of w1] B
    by (subst resolve_loop.simps, cases r)
       (auto simp: abind_def [of "check_pending_signature E stop p"] chk areturn_def split: sum.split)
qed

lemma resolve_returns: "expiry_law E window \<Longrightarrow> returns (resolve_pending_signature E stop p)"
  unfolding returns_def resolve_pending_signature_def by (intro allI resolve_loop_returns) simp_all

section \<open>The attempt counter\<close>

definition keeps_attempt :: "('w tx_executor, 'a) async \<Rightarrow> bool" where
  "keeps_attempt m \<longleftrightarrow> (\<forall>s r s'. m s = Some (r, s') \<longrightarrow> te_attempt s' = te_attempt s)"

named_theorems attempt_rules

lemma keeps_bind [attempt_rules]: "keeps_attempt m \<Longrightarrow> (\<And>x. keeps_attempt (f x)) \<Longrightarrow> keeps_attempt (abind m f)"
  unfolding keeps_attempt_def abind_def by (fastforce split: option.splits await.splits)

lemma keeps_basic [attempt_rules]: "keeps_attempt (areturn x)" "keeps_attempt (aread f)"
  by (simp_all add: keeps_attempt_def areturn_def aread_def)

lemma keeps_question [attempt_rules]:
  "keeps_attempt m \<Longrightarrow> (\<And>x. keeps_attempt (f x)) \<Longrightarrow> keeps_attempt (aquestion m f)"
  unfolding aquestion_def by (rule keeps_bind) (auto split: sum.split intro: attempt_rules)

lemma keeps_map_err [attempt_rules]: "keeps_attempt m \<Longrightarrow> keeps_attempt (amap_err f m)"
  unfolding amap_err_def by (intro attempt_rules)

lemma keeps_modify [attempt_rules]: "(\<And>s. te_attempt (g s) = te_attempt s) \<Longrightarrow> keeps_attempt (amodify g)"
  by (simp add: keeps_attempt_def amodify_def)

lemma keeps_ext [attempt_rules]:
  "(\<And>s. te_attempt (snd (op s)) = te_attempt s) \<Longrightarrow> keeps_attempt (aext E stop op)"
  unfolding keeps_attempt_def aext_def await_def by (auto split: prod.splits) (metis snd_conv)

lemma keeps_world [attempt_rules]: "keeps_attempt (on_part te_world (\<lambda>w s. s\<lparr>te_world := w\<rparr>) m)"
  by (auto simp: keeps_attempt_def on_part_def)

lemma attempt_simps [simp]:
  "te_attempt (set_transaction t s) = te_attempt s"
  "te_attempt (snd (ext_step op s)) = te_attempt s"
  "te_attempt (snd (prepare_for_strategy_step E s)) = te_attempt s"
  "te_attempt (snd (recover_pending_from_outbox E s)) = te_attempt s"
  "te_attempt (recover_actions E te sig s) = te_attempt s"
  "te_attempt (recover_undelegation E err s) = te_attempt s"
  by (simp_all add: set_transaction_def set_progress_def ext_step_def prepare_for_strategy_step_def
      recover_pending_from_outbox_def recover_actions_def recover_undelegation_def Let_def split: prod.splits)

lemma keeps_parts [attempt_rules]:
  "keeps_attempt (reconcile_outbox E stop rc)" "keeps_attempt (resolve_recorded E stop)"
  "keeps_attempt (prepare_transaction E stop)" "keeps_attempt (recover E stop err)"
  unfolding reconcile_outbox_def resolve_recorded_def prepare_transaction_def recover_def repair_def finalize_legacy_def
  by (auto intro!: attempt_rules split: option.split transaction_execution_error.split)

lemma submit_attempt:
  "triple (\<lambda>s. te_attempt s = a) (submit_current E stop c b) (\<lambda>_ s. te_attempt s = a + 1) (\<lambda>_. True) (\<lambda>_. True)"
proof -
  have frame: "triple (\<lambda>s. te_attempt s = a + 1) m (\<lambda>_ s. te_attempt s = a + 1) (\<lambda>_. True) (\<lambda>_. True)"
    if "keeps_attempt m" for m
    using that by (auto simp: keeps_attempt_def triple_def split: option.splits await.splits)
  show ?thesis
    unfolding submit_current_def
    by (rule triple_modify_then [OF frame]) (auto intro!: attempt_rules split: sum.split)
qed

lemma after_failure_attempt:
  "triple (\<lambda>s. te_attempt s = a) (after_failure E stop c rc err)
     (\<lambda>r s. \<forall>rc'. r = Inr (Loop_Again rc') \<longrightarrow> te_attempt s = a \<and> a < 10) (\<lambda>_. True) (\<lambda>_. True)"
proof -
  have frame: "triple (\<lambda>s. te_attempt s = a) m (\<lambda>_ s. te_attempt s = a) (\<lambda>_. True) (\<lambda>_. True)"
    if "keeps_attempt m" for m
    using that by (auto simp: keeps_attempt_def triple_def split: option.splits await.splits)
  have ext: "keeps_attempt (aext E stop (ext_step (fx_invalidate_cached_blockhash E)))" by (intro attempt_rules) simp
  show ?thesis
    unfolding after_failure_def
    by (intro triple_question [OF frame [OF keeps_parts(4)]] triple_if triple_bind [OF frame [OF ext]] triple_read_then)
       (auto simp: TRANSACTION_LOOP_CEILING_def add_patched_error_def triple_def abind_def amodify_def areturn_def
          split: option.split list.split)
qed

lemma execute_round_attempt:
  "triple (\<lambda>s. te_attempt s = a) (execute_round E stop c b rc)
     (\<lambda>r s. \<forall>rc'. r = Inr (Loop_Again rc') \<longrightarrow> te_attempt s = a + 1 \<and> a + 1 < 10) (\<lambda>_. True) (\<lambda>_. True)"
proof -
  have frame: "triple (\<lambda>s. te_attempt s = a) m (\<lambda>_ s. te_attempt s = a) (\<lambda>_. True) (\<lambda>_. True)"
    if "keeps_attempt m" for m
    using that by (auto simp: keeps_attempt_def triple_def split: option.splits await.splits)
  have send: "triple (\<lambda>s. te_attempt s = a) (aquestion (submit_current E stop c b) (\<lambda>r.
             case r of
               Inr sig \<Rightarrow> areturn (Inr (Loop_Break (Inr sig)))
             | Inl err \<Rightarrow> after_failure E stop c rc err))
     (\<lambda>r s. \<forall>rc'. r = Inr (Loop_Again rc') \<longrightarrow> te_attempt s = a + 1 \<and> a + 1 < 10) (\<lambda>_. True) (\<lambda>_. True)" for rc c
  proof (rule triple_question [OF submit_attempt], goal_cases)
    case (1 r)
    show ?case
      by (cases r; simp only: sum.case; rule after_failure_attempt triple_return) simp
  qed simp
  show ?thesis
    unfolding execute_round_def
  proof (rule triple_bind [OF frame [OF keeps_parts(1)]], rule triple_question [OF frame [OF keeps_parts(2)]], goal_cases)
    case (1 rc landed)
    show ?case
    proof (cases landed)
      case None
      have "triple (\<lambda>s. te_attempt s = a) (case (c, ts_tasks cur) of
           (Some commit_signature, []) \<Rightarrow> areturn (Inr (Loop_Break (Inr commit_signature)))
         | _ \<Rightarrow>
             aquestion (submit_current E stop c b) (\<lambda>r.
             case r of
               Inr sig \<Rightarrow> areturn (Inr (Loop_Break (Inr sig)))
             | Inl err \<Rightarrow> after_failure E stop c rc err))
         (\<lambda>r s. \<forall>rc'. r = Inr (Loop_Again rc') \<longrightarrow> te_attempt s = a + 1 \<and> a + 1 < 10) (\<lambda>_. True) (\<lambda>_. True)" for cur
        by (cases c; cases "ts_tasks cur"; simp only: prod.case option.case list.case; rule send triple_return) simp
      then show ?thesis
        unfolding None option.case by (rule triple_bind [OF frame [OF keeps_basic(2)]])
    qed simp
  qed simp
qed

section \<open>All loops end\<close>

lemma execute_round_returns:
  assumes L: "expiry_law E window"
  shows "returns (execute_round E stop c b rc)"
  unfolding execute_round_def reconcile_outbox_def resolve_recorded_def submit_current_def prepare_transaction_def
    after_failure_def recover_def repair_def finalize_legacy_def aext_def
  by (auto intro!: returns_rules resolve_returns [OF L]
      split: option.split list.split sum.split transaction_execution_error.split)

definition attempts_left :: "u8 \<Rightarrow> nat" where
  "attempts_left a = (if a = 255 then 11 else 10 - unat a)"

lemma attempts_left_less: "a + 1 < 10 \<Longrightarrow> attempts_left (a + 1) < attempts_left a"
proof (cases "a = 255")
  case False
  assume a: "a + 1 < 10"
  have "unat a \<noteq> 255" using False by (simp add: word_unat_eq_iff)
  then have "unat (a + 1) = unat a + 1"
    using unsigned_less [of a, where 'a = nat] by (simp add: unat_word_ariths)
  with a False show ?thesis by (auto simp: attempts_left_def word_less_nat_alt)
qed (simp add: attempts_left_def)

lemma execute_loop_returns:
  fixes E :: "('w, 'm) effects"
  assumes L: "expiry_law E window"
  shows "(execute_loop E stop c b rc s :: (('s intent_executor_error, tx_result) result await \<times> 'w tx_executor) option) \<noteq> None"
proof (induction "attempts_left (te_attempt s)" arbitrary: rc s rule: less_induct)
  case less
  obtain r :: "('s intent_executor_error, tx_result loop_flow) result await" and s1
    where rd: "execute_round E stop c b rc s = Some (r, s1)"
    by (rule returnsE [OF execute_round_returns [OF L]])
  note A = tripleD [OF execute_round_attempt refl rd]
  have again: "(execute_loop E stop c b rc' s1 :: (('s intent_executor_error, tx_result) result await \<times> 'w tx_executor) option) \<noteq> None"
    if "r = Ready (Inr (Loop_Again rc'))" for rc'
    by (rule less.hyps) (use A that attempts_left_less in auto)
  show ?case
    using again
    by (subst execute_loop.simps, cases r)
       (auto simp: abind_def rd areturn_def split: sum.split loop_flow.split)
qed

lemma execute_pass_returns:
  assumes L: "expiry_law E window"
  shows "returns (execute_pass E)"
proof -
  have loop: "returns (execute_loop E stop c b rc)" for stop c b rc
    unfolding returns_def using execute_loop_returns [OF L] by blast
  have cur: "returns (execute_current E stop)" for stop
    unfolding execute_current_def by (intro returns_rules loop)
  have "returns (execute_with_timeout E)"
    unfolding execute_with_timeout_def Let_def by (auto intro!: returns_rules cur split: option.split)
  then show ?thesis
    unfolding execute_pass_def by (auto intro!: returns_rules split: sum.split)
qed

lemma execute_returns:
  fixes E :: "('w, 'm) effects"
  assumes X: "expiry_law E window" and L: "chain_laws E V i"
  shows "ready E V i c b s \<Longrightarrow>
     (execute E s :: (('s intent_executor_error, execution_output) result await \<times> 'w tx_executor) option) \<noteq> None"
proof (induction "stage_rank c b" arbitrary: c b s rule: less_induct)
  case less
  obtain r :: "('s intent_executor_error, execution_output) result option await" and s1
    where ps: "execute_pass E s = Some (r, s1)"
    by (rule returnsE [OF execute_pass_returns [OF X]])
  note A = tripleD [OF execute_pass_triple [OF L] less.prems ps]
  have again: "(execute E s1 :: (('s intent_executor_error, execution_output) result await \<times> 'w tx_executor) option) \<noteq> None"
    if "r = Ready None"
  proof -
    have "\<exists>c' b'. ready E V i c' b' s1 \<and> stage_rank c' b' < stage_rank c b"
      using A unfolding that by (simp add: pass_post_def)
    then show ?thesis using less.hyps by blast
  qed
  show ?case
    using again by (subst execute.simps, cases r) (auto simp: abind_def ps areturn_def split: option.split)
qed

end
