(* ===== verification/Intent_Execution.thy ===== *)
theory Intent_Execution
  imports Runner_Returns
begin

text \<open>
  Executing an intent from its outbox record: \<^verbatim>\<open>execute_inner\<close>, \<^verbatim>\<open>build_strategy\<close>,
  \<^verbatim>\<open>build_follow_up\<close> and \<^verbatim>\<open>execute_intent\<close> of \<^verbatim>\<open>committor/src/execution/intent.rs\<close>,
  \<^verbatim>\<open>finalize_legacy_commits\<close> of \<^verbatim>\<open>client.rs\<close> and the closing of the record in \<^verbatim>\<open>utils.rs\<close>.
  The theory shows that the commits of an intent land at most once, over any number of kills
  and restarts, and that an execution returns.
\<close>

section \<open>Building what is to be executed\<close>

fun executor_error_of_strategist :: "task_strategist_error \<Rightarrow> 's intent_executor_error" where
  "executor_error_of_strategist Strategist_FailedToFit = FailedToFitError"
| "executor_error_of_strategist Strategist_Compile = Executor_CompileError"
| "executor_error_of_strategist Strategist_Signer = Executor_SignerError"

record 'w intent_run =
  ir_report :: execution_report
  ir_world :: 'w

definition world_call ::
    "('w, 'm) effects \<Rightarrow> ('w \<Rightarrow> 'a \<times> 'w) \<Rightarrow> ('w intent_run, 'a) async" where
  "world_call E op = await (\<lambda>s. fx_killed E (ir_world s)) never
     (\<lambda>s. let (r, w) = op (ir_world s) in (r, s\<lparr>ir_world := w\<rparr>))"

definition plan_strategy ::
    "('w, 'm) effects \<Rightarrow> task list \<Rightarrow> u64 option \<Rightarrow> ('s intent_executor_error, transaction_strategy) result" where
  "plan_strategy E tasks nonce =
     map_err executor_error_of_strategist (Task_Model.build_strategy (fx_wire E) tasks (fx_authority E) nonce)"

text \<open>The nonce and the plan for given tasks; resumed work keeps the shape of the recorded plan.\<close>

definition choose_plan ::
    "('w, 'm) effects \<Rightarrow> pending_execution option \<Rightarrow> scheduled_intent_bundle \<Rightarrow> pubkey list \<Rightarrow> task list \<Rightarrow> task list \<Rightarrow>
     ('s intent_executor_error, transaction_plan) result" where
  "choose_plan E pending intent committed commits follow_ups =
     (let nonce = (if committed = [] \<or> requires_uniqueness_nonce commits
                   then Some (sib_intent_id intent) else None) in
      case pending of
        Some progress \<Rightarrow>
          if \<not> pe_has_follow_up progress
          then rbind (plan_strategy E (commits @ follow_ups) nonce) (\<lambda>s. Inr (plan_of_strategy s))
          else map_err executor_error_of_strategist
                 (build_split_plan (fx_wire E) commits follow_ups (fx_authority E) nonce)
      | None \<Rightarrow> map_err executor_error_of_strategist
                 (build_plan (fx_wire E) commits follow_ups (fx_authority E) nonce))"

definition intent_build_strategy ::
    "('w, 'm) effects \<Rightarrow> outbox_status \<Rightarrow> scheduled_intent_bundle \<Rightarrow> pubkey list \<Rightarrow>
     ('w intent_run, ('s intent_executor_error, transaction_plan) result) async" where
  "intent_build_strategy E status intent committed =
     (let pending = from_status status in
      if pending = None \<and> committed = []
      then abind (world_call E (fx_task_info E)) (\<lambda>provider. areturn (
        rbind (map_err TaskBuilderError (commit_tasks provider intent)) (\<lambda>tasks.
        rbind (plan_strategy E tasks (Some (sib_intent_id intent))) (\<lambda>s. Inr (plan_of_strategy s)))))
      else
        abind (world_call E (fx_task_info E)) (\<lambda>commit_provider.
        abind (world_call E (fx_task_info E)) (\<lambda>follow_up_provider. areturn (
        rbind (map_err TaskBuilderError (commit_tasks commit_provider intent)) (\<lambda>commits.
        rbind (map_err TaskBuilderError (follow_up_tasks follow_up_provider intent)) (\<lambda>follow_ups.
        choose_plan E pending intent committed commits follow_ups))))))"

fun finalize_records ::
    "('w, 'm) effects \<Rightarrow> (pubkey \<times> pubkey option) list \<Rightarrow>
     ('w intent_run, ('s intent_executor_error, unit) result) async" where
  "finalize_records E [] = areturn (Inr ())"
| "finalize_records E ((k, owner) # rest) =
     (if owner \<noteq> Some (fx_delegation_program_id E) then finalize_records E rest
      else aquestion (amap_err FailedPreparation (world_call E (fx_finalize_legacy_commit E k))) (\<lambda>r.
           case r of
             Inl err \<Rightarrow> areturn (Inl (FailedExecution err))
           | Inr _ \<Rightarrow> finalize_records E rest))"

definition finalize_legacy_commits ::
    "('w, 'm) effects \<Rightarrow> pubkey list \<Rightarrow> ('w intent_run, ('s intent_executor_error, unit) result) async" where
  "finalize_legacy_commits E accounts =
     (if accounts = [] then areturn (Inr ())
      else aquestion (amap_err (\<lambda>err. FailedExecution (InternalError (Internal_Rpc err)))
             (world_call E (fx_commit_record_owners E accounts))) (\<lambda>owners.
           finalize_records E (zip accounts owners)))"

definition follow_up_accounts :: "scheduled_intent_bundle \<Rightarrow> (pubkey \<times> u64) list" where
  "follow_up_accounts b =
     map (\<lambda>a. (ca_pubkey a, ca_remote_slot a))
       (flatten_options [get_commit_intent_accounts (sib_intent_bundle b),
          get_undelegate_intent_accounts (sib_intent_bundle b)])"

definition prepare_follow_up ::
    "('w, 'm) effects \<Rightarrow> (pubkey \<times> u64) list \<Rightarrow> ('w intent_run, ('s intent_executor_error, unit) result) async" where
  "prepare_follow_up E accounts =
     (if accounts = [] then areturn (Inr ())
      else let min_context_slot = foldr max (map snd accounts) 0 in
        abind (world_call E (fx_task_info E)) (\<lambda>provider.
        case fetch_delegation_metadata provider accounts min_context_slot of
          Inl e \<Rightarrow> areturn (Inl (TaskBuilderError (FollowUpTasksBuildError e)))
        | Inr _ \<Rightarrow> finalize_legacy_commits E (map fst accounts)))"

definition build_follow_up ::
    "('w, 'm) effects \<Rightarrow> scheduled_intent_bundle \<Rightarrow>
     ('w intent_run, ('s intent_executor_error, transaction_strategy) result) async" where
  "build_follow_up E intent =
     aquestion (prepare_follow_up E (follow_up_accounts intent)) (\<lambda>_.
     abind (world_call E (fx_task_info E)) (\<lambda>provider. areturn (
     rbind (map_err TaskBuilderError (follow_up_tasks provider intent)) (\<lambda>tasks.
     plan_strategy E tasks
       (if list_ex (\<lambda>a. ca_commit_id a = 1) (sib_get_all_committed_accounts intent)
        then Some (sib_intent_id intent) else None)))))"

section \<open>Executing an intent\<close>

definition set_run_progress :: "execution_progress \<Rightarrow> 'w intent_run \<Rightarrow> 'w intent_run" where
  "set_run_progress p s = s\<lparr>ir_report := (ir_report s)\<lparr>rep_progress := p\<rparr>\<rparr>"

definition set_run_transaction :: "transaction_progress \<Rightarrow> 'w intent_run \<Rightarrow> 'w intent_run" where
  "set_run_transaction t s = set_run_progress ((rep_progress (ir_report s))\<lparr>ep_transaction := t\<rparr>) s"

text \<open>\<^term>\<open>Some\<close> output when the recorded transaction was the last one and has landed.\<close>

definition resume_recorded ::
    "('w, 'm) effects \<Rightarrow> pending_execution \<Rightarrow>
     ('w intent_run, ('s intent_executor_error, execution_output option) result) async" where
  "resume_recorded E pending =
     abind (amodify (set_run_progress \<lparr>ep_confirmed_commit = pe_confirmed_commit pending,
       ep_transaction = Submitted (pt_signature (pe_transaction pending))\<rparr>)) (\<lambda>_.
     aquestion (on_part ir_world (\<lambda>w s. s\<lparr>ir_world := w\<rparr>)
       (resolve_pending_signature E never (pe_transaction pending))) (\<lambda>succeeded.
     if \<not> succeeded
     then abind (amodify (set_run_transaction (Rejected (pt_signature (pe_transaction pending))))) (\<lambda>_.
          areturn (Inr None))
     else abind (amodify (set_run_transaction (Confirmed (pt_signature (pe_transaction pending))))) (\<lambda>_.
          if \<not> pe_has_follow_up pending
          then areturn (Inr (Some \<lparr>eo_confirmed_commit = pe_confirmed_commit pending,
                 eo_signature = pt_signature (pe_transaction pending)\<rparr>))
          else abind (amodify (set_run_progress (default_progress\<lparr>ep_confirmed_commit :=
                 Some (pt_signature (pe_transaction pending))\<rparr>))) (\<lambda>_. areturn (Inr None)))))"

text \<open>The executor borrows the report and gives it back when it is done.\<close>

definition run_executor ::
    "('w, 'm) effects \<Rightarrow> ('w intent_run \<Rightarrow> 'w tx_executor) \<Rightarrow>
     ('w intent_run, ('s intent_executor_error, execution_output) result) async" where
  "run_executor E mk s =
     map_option (\<lambda>(r, te). (r, \<lparr>ir_report = te_report te, ir_world = te_world te\<rparr>)) (execute E (mk s))"

definition execute_built ::
    "('w, 'm) effects \<Rightarrow> outbox_status \<Rightarrow> scheduled_intent_bundle \<Rightarrow>
     ('w intent_run, ('s intent_executor_error, execution_output) result) async" where
  "execute_built E status intent =
     (let committed = sib_get_all_committed_pubkeys intent; i = sib_intent_id intent in
      abind (aread (\<lambda>s. ep_confirmed_commit (rep_progress (ir_report s)))) (\<lambda>confirmed.
      case confirmed of
        Some commit_signature \<Rightarrow>
          aquestion (build_follow_up E intent) (\<lambda>strategy.
          run_executor E (\<lambda>s. resume_follow_up (ir_report s) i commit_signature strategy (ir_world s)))
      | None \<Rightarrow>
          aquestion (intent_build_strategy E status intent committed) (\<lambda>plan.
          run_executor E (\<lambda>s. executor_new (ir_report s) i committed plan (ir_world s)))))"

definition execute_inner ::
    "('w, 'm) effects \<Rightarrow> outbox_status \<Rightarrow> scheduled_intent_bundle \<Rightarrow>
     ('w intent_run, ('s intent_executor_error, execution_output) result) async" where
  "execute_inner E status intent =
     (case from_status status of
        Some pending \<Rightarrow>
          aquestion (resume_recorded E pending) (\<lambda>out.
          case out of Some v \<Rightarrow> areturn (Inr v) | None \<Rightarrow> execute_built E status intent)
      | None \<Rightarrow>
          if bundle_is_empty (sib_intent_bundle intent) then areturn (Inl EmptyIntentError)
          else execute_built E status intent)"

definition keeps_record_open ::
    "('s intent_executor_error, execution_output) result \<Rightarrow> scheduled_intent_bundle \<Rightarrow> execution_progress \<Rightarrow> bool" where
  "keeps_record_open r b progress =
     (case r of
        Inr _ \<Rightarrow> False
      | Inl err \<Rightarrow> \<not> is_terminal_execution_error err
          \<or> (sib_get_all_committed_pubkeys b \<noteq> [] \<and> ep_confirmed_commit progress = None))"

definition report_and_close ::
    "('w, 'm) effects \<Rightarrow> ('s intent_executor_error, execution_output) result \<Rightarrow> scheduled_intent_bundle \<Rightarrow>
     ('w intent_run, ('s intent_executor_error, execution_output) result) async" where
  "report_and_close E r b =
     abind (aread (\<lambda>s. rep_progress (ir_report s))) (\<lambda>progress.
     if keeps_record_open r b progress then areturn r
     else aquestion (amap_err (\<lambda>_. OutboxClientError)
            (world_call E (fx_notify_commit_sent E (build_sent_commit b r progress)))) (\<lambda>_. areturn r))"

definition execute_intent ::
    "('w, 'm) effects \<Rightarrow> scheduled_intent_bundle \<Rightarrow> outbox_status \<Rightarrow> 'w \<Rightarrow>
     (('s intent_execution_result \<times> cleanup_resources list) await \<times> 'w) option" where
  "execute_intent E intent status w =
     map_option (\<lambda>(r, s). (r, ir_world s))
       (abind (execute_inner E status intent) (\<lambda>r.
        abind (report_and_close E r intent) (\<lambda>r.
        abind (aread ir_report) (\<lambda>report. areturn
          (\<lparr>ier_inner = r, ier_progress = rep_progress report,
            ier_callbacks_reported = (rep_callbacks_report report \<noteq> [])\<rparr>, rep_cleanup report))))
        \<lparr>ir_report = default_report, ir_world = w\<rparr>)"

section \<open>What is built commits nothing twice\<close>

lemma no_commits_iff: "no_commits ts \<longleftrightarrow> commits_in ts = []"
  by (induction ts rule: commits_in.induct) auto

lemma inlined_commit [simp]: "is_commit_finalize_task (inlined t) = is_commit_finalize_task t"
  by (cases t) auto

lemma inlined_no_commits:
  assumes "map inlined ts = map inlined ts'"
  shows "list_ex is_commit_finalize_task ts = list_ex is_commit_finalize_task ts'"
proof -
  have "list_ex is_commit_finalize_task us = list_ex is_commit_finalize_task (map inlined us)" for us
    by (induction us) auto
  then show ?thesis using assms by metis
qed

lemma build_strategy_tasks:
  assumes "Task_Model.build_strategy W tasks k nonce = Inr s"
  shows "map inlined (ts_tasks s) = map inlined tasks"
proof -
  obtain len opt where o: "try_optimize_tx_size_if_needed W tasks nonce = Inr (len, opt)"
    and "ts_tasks s = opt \<or> ts_tasks s = tasks"
    using assms by (auto simp: build_strategy_def rbind_Inr_iff split: if_splits)
  then show ?thesis using try_optimize_spec(1) [OF o] by auto
qed

lemma split_plan_follow_up:
  assumes "build_split_plan W commits follow_ups k nonce = Inr p" "no_commits follow_ups"
    "tp_follow_up p = Some f"
  shows "no_commits (ts_tasks f)"
  using assms by (auto simp: build_split_plan_def rbind_Inr_iff inlined_no_commits [OF build_strategy_tasks])

lemma build_plan_follow_up:
  assumes "build_plan W commits follow_ups k nonce = Inr p" "no_commits follow_ups" "tp_follow_up p = Some f"
  shows "no_commits (ts_tasks f)"
  using assms split_plan_follow_up [of W commits follow_ups k nonce]
  by (auto simp: build_plan_def plan_of_strategy_def rbind_Inr_iff Let_def
      split: if_splits sum.splits task_strategist_error.splits)

definition plan_ok :: "transaction_plan \<Rightarrow> bool" where
  "plan_ok p \<longleftrightarrow> (\<forall>f. tp_follow_up p = Some f \<longrightarrow> no_commits (ts_tasks f))"

lemma follow_ups_no_commits: "follow_up_tasks provider b = Inr ts \<Longrightarrow> no_commits ts"
  using follow_up_tasks_in [of provider b ts] by (simp add: no_commits_iff)

lemma plan_strategy_no_commits: "plan_strategy E ts nonce = Inr s \<Longrightarrow> no_commits ts \<Longrightarrow> no_commits (ts_tasks s)"
  by (auto simp: plan_strategy_def map_err_Inr_iff inlined_no_commits [OF build_strategy_tasks])

section \<open>Execution from the outbox record is safe\<close>

abbreviation "run_safe E V s \<equiv> safe E V (ir_world s)"

text \<open>\<open>fresh\<close>: nothing recorded may still land, \<open>c\<close> is the confirmed commit.\<close>

definition fresh :: "('w, 'm) effects \<Rightarrow> 'w chain_view \<Rightarrow> signature option \<Rightarrow> 'w intent_run \<Rightarrow> bool" where
  "fresh E V c s \<longleftrightarrow> run_safe E V s \<and> known E V (c \<noteq> None) None (ir_world s) \<and>
     ep_confirmed_commit (rep_progress (ir_report s)) = c"

definition concluded ::
    "('w, 'm) effects \<Rightarrow> 'w chain_view \<Rightarrow> ('s intent_executor_error, execution_output) result \<Rightarrow> 'w intent_run \<Rightarrow> bool" where
  "concluded E V r s \<longleftrightarrow> run_safe E V s \<and> (\<forall>out. r = Inr out \<longrightarrow> known E V True None (ir_world s) \<and>
     (cv_landed V (ir_world s) (eo_signature out) \<or> eo_confirmed_commit out = Some (eo_signature out)))"

lemma fresh_quiet: "fresh E V c s \<Longrightarrow> quiet V (ir_world s) w \<Longrightarrow> fresh E V c (s\<lparr>ir_world := w\<rparr>)"
  by (auto simp: fresh_def intro: safe_quiet known_quiet)

lemma fresh_call:
  assumes "\<And>w r w'. op w = (r, w') \<Longrightarrow> quiet V w w'"
  shows "triple (fresh E V c) (world_call E op) (\<lambda>_. fresh E V c) (run_safe E V) (run_safe E V)"
  unfolding world_call_def
proof (rule triple_await)
  fix s r s' assume s: "fresh E V c s" "(let (r, w) = op (ir_world s) in (r, s\<lparr>ir_world := w\<rparr>)) = (r, s')"
  obtain w where "op (ir_world s) = (r, w)" "s' = s\<lparr>ir_world := w\<rparr>"
    using s(2) by (cases "op (ir_world s)") auto
  then have "fresh E V c s'" using fresh_quiet [OF s(1)] assms by simp
  then show "fresh E V c s' \<and> run_safe E V s' \<and> run_safe E V s'" by (simp add: fresh_def)
qed

lemma fresh_call_err:
  assumes "\<And>w r w'. op w = (r, w') \<Longrightarrow> quiet V w w'"
  shows "triple (fresh E V c) (amap_err f (world_call E op)) (\<lambda>_. fresh E V c) (run_safe E V) (run_safe E V)"
  by (rule triple_map_err [OF fresh_call [OF assms]])

lemma fresh_concluded: "fresh E V c s \<Longrightarrow> concluded E V (Inl e) s"
  by (simp add: fresh_def concluded_def)

lemma single_plan_ok [simp]: "plan_ok (plan_of_strategy st)"
  by (simp add: plan_ok_def plan_of_strategy_def)

lemma choose_plan_ok:
  assumes "choose_plan E pending intent committed commits follow_ups = Inr p" "no_commits follow_ups"
  shows "plan_ok p"
proof (cases "\<exists>s. p = plan_of_strategy s")
  case False
  obtain nonce where "build_split_plan (fx_wire E) commits follow_ups (fx_authority E) nonce = Inr p \<or>
      build_plan (fx_wire E) commits follow_ups (fx_authority E) nonce = Inr p"
    using assms(1) False
    by (auto simp: choose_plan_def Let_def rbind_Inr_iff map_err_Inr_iff split: option.splits if_splits)
  then show ?thesis
    using split_plan_follow_up [OF _ assms(2)] build_plan_follow_up [OF _ assms(2)] by (auto simp: plan_ok_def)
qed auto

lemma build_strategy_triple:
  assumes L: "chain_laws E V i"
  shows "triple (fresh E V c) (intent_build_strategy E status intent committed)
     (\<lambda>r s. fresh E V c s \<and> (\<forall>p. r = Inr p \<longrightarrow> plan_ok p)) (run_safe E V) (run_safe E V)"
proof -
  note call = triple_bind [OF fresh_call [of "fx_task_info E", OF laws_quiet(8) [OF L]]]
  show ?thesis
    unfolding intent_build_strategy_def Let_def
    by (rule triple_if; rule call; (rule call)?) (auto simp: rbind_Inr_iff map_err_Inr_iff intro: choose_plan_ok [OF _ follow_ups_no_commits])
qed

lemma finalize_records_triple:
  assumes L: "chain_laws E V i"
  shows "triple (fresh E V c) (finalize_records E rs) (\<lambda>_. fresh E V c) (run_safe E V) (run_safe E V)"
proof (induction rs)
  case Nil
  show ?case by simp
next
  case (Cons r rs)
  obtain k owner where r: "r = (k, owner)" by (cases r)
  show ?case
    unfolding r finalize_records.simps
    by (rule triple_if, rule Cons.IH, rule triple_question [OF fresh_call_err [OF laws_quiet(4) [OF L]]])
       (auto split: sum.split intro: Cons.IH)
qed

lemma prepare_follow_up_triple:
  assumes L: "chain_laws E V i"
  shows "triple (fresh E V c) (prepare_follow_up E accounts) (\<lambda>_. fresh E V c) (run_safe E V) (run_safe E V)"
proof -
  have "triple (fresh E V c) (finalize_legacy_commits E ks) (\<lambda>_. fresh E V c) (run_safe E V) (run_safe E V)" for ks
    unfolding finalize_legacy_commits_def
    by (rule triple_if, simp, rule triple_question [OF fresh_call_err [OF laws_quiet(9) [OF L]]])
       (auto intro: finalize_records_triple [OF L])
  then show ?thesis
    unfolding prepare_follow_up_def Let_def
    by (intro triple_if triple_bind [OF fresh_call [OF laws_quiet(8) [OF L]]]) (auto split: sum.split)
qed

lemma build_follow_up_triple:
  assumes L: "chain_laws E V i"
  shows "triple (fresh E V c) (build_follow_up E intent)
     (\<lambda>r s. fresh E V c s \<and> (\<forall>st. r = Inr st \<longrightarrow> no_commits (ts_tasks st))) (run_safe E V) (run_safe E V)"
  unfolding build_follow_up_def
  by (intro triple_question [OF prepare_follow_up_triple [OF L]] triple_bind [OF fresh_call [OF laws_quiet(8) [OF L]]])
     (auto simp: rbind_Inr_iff map_err_Inr_iff follow_ups_no_commits dest: plan_strategy_no_commits)

definition resumed_post ::
    "('w, 'm) effects \<Rightarrow> 'w chain_view \<Rightarrow> ('s intent_executor_error, execution_output option) result \<Rightarrow>
     'w intent_run \<Rightarrow> bool" where
  "resumed_post E V r s \<longleftrightarrow> (case r of
      Inr None \<Rightarrow> (\<exists>c. fresh E V c s)
    | Inr (Some out) \<Rightarrow> concluded E V (Inr out :: ('s intent_executor_error, execution_output) result) s
    | Inl e \<Rightarrow> run_safe E V s)"

definition recorded_start :: "('w, 'm) effects \<Rightarrow> 'w chain_view \<Rightarrow> pending_execution \<Rightarrow> 'w intent_run \<Rightarrow> bool" where
  "recorded_start E V pe s \<longleftrightarrow> run_safe E V s \<and>
     known E V (pe_confirmed_commit pe \<noteq> None) (Some (pe_transaction pe)) (ir_world s) \<and>
     ep_confirmed_commit (rep_progress (ir_report s)) = pe_confirmed_commit pe"

lemma resume_part_triple:
  assumes L: "chain_laws E V i"
  shows "triple (recorded_start E V pe)
     (on_part ir_world (\<lambda>w s. s\<lparr>ir_world := w\<rparr>) (resolve_pending_signature E never (pe_transaction pe)))
     (\<lambda>r s. recorded_start E V pe s \<and> (\<forall>ok. r = Inr ok \<longrightarrow>
        known E V (ok \<or> pe_confirmed_commit pe \<noteq> None) None (ir_world s) \<and>
        (ok \<longrightarrow> cv_landed V (ir_world s) (pt_signature (pe_transaction pe)))))
     (run_safe E V) (run_safe E V)"
proof (rule triple_part)
  fix s assume s: "recorded_start E V pe s"
  have keep: "recorded_start E V pe (s\<lparr>ir_world := w\<rparr>)" if "quiet V (ir_world s) w" for w
    using s that by (auto simp: recorded_start_def intro: safe_quiet known_quiet)
  show "triple (\<lambda>w. w = ir_world s) (resolve_pending_signature E never (pe_transaction pe))
      (\<lambda>r w. recorded_start E V pe (s\<lparr>ir_world := w\<rparr>) \<and> (\<forall>ok. r = Inr ok \<longrightarrow>
        known E V (ok \<or> pe_confirmed_commit pe \<noteq> None) None (ir_world (s\<lparr>ir_world := w\<rparr>)) \<and>
        (ok \<longrightarrow> cv_landed V (ir_world (s\<lparr>ir_world := w\<rparr>)) (pt_signature (pe_transaction pe)))))
      (\<lambda>w. run_safe E V (s\<lparr>ir_world := w\<rparr>)) (\<lambda>w. run_safe E V (s\<lparr>ir_world := w\<rparr>))"
  proof (rule triple_weaken [OF resolve_triple [OF L, of "ir_world s" never "pe_transaction pe"]], goal_cases)
    case (2 r w)
    then have k: "recorded_start E V pe (s\<lparr>ir_world := w\<rparr>)" using keep by simp
    have "known E V (ok \<or> pe_confirmed_commit pe \<noteq> None) None w \<and> (ok \<longrightarrow> cv_landed V w (pt_signature (pe_transaction pe)))"
      if "r = Inr ok" for ok
    proof -
      have res: "resolves E V (pe_transaction pe) (ir_world s) ok w" using 2 that by simp
      moreover have "known E V (pe_confirmed_commit pe \<noteq> None) (Some (pe_transaction pe)) w"
        using k by (simp add: recorded_start_def)
      ultimately show ?thesis using known_resolved [OF _ res] by (simp add: resolves_def)
    qed
    with k show ?case by simp
  next
    case (3 w)
    then show ?case using keep [of w] by (simp add: recorded_start_def)
  next
    case (4 w)
    then show ?case using keep [of w] by (simp add: recorded_start_def)
  qed simp
qed

lemma resume_recorded_triple:
  assumes L: "chain_laws E V i"
  shows "triple (\<lambda>s. run_safe E V s \<and> known E V (pe_confirmed_commit pe \<noteq> None) (Some (pe_transaction pe)) (ir_world s))
     (resume_recorded E pe) (resumed_post E V) (run_safe E V) (run_safe E V)"
  unfolding resume_recorded_def
proof (rule triple_modify_then [OF triple_question [OF resume_part_triple [OF L, of pe]]], goal_cases)
  case (1 ok)
  show ?case
    by (cases ok; cases "pe_has_follow_up pe")
       (auto simp: triple_def abind_def amodify_def areturn_def resumed_post_def concluded_def fresh_def
          recorded_start_def set_run_transaction_def set_run_progress_def default_progress_def)
qed (auto simp: recorded_start_def set_run_progress_def resumed_post_def)

lemma triple_through:
  assumes "triple P' m Q X K" "\<And>s. P s \<Longrightarrow> P' (g s)" "\<And>x t. Q x t \<Longrightarrow> Q' x (h t)"
    "\<And>t. X t \<Longrightarrow> X' (h t)" "\<And>t. K t \<Longrightarrow> K' (h t)"
  shows "triple P (\<lambda>s. map_option (\<lambda>(r, t). (r, h t)) (m (g s))) Q' X' K'"
  using assms by (fastforce simp: triple_def split: option.splits await.splits)

lemma run_executor_triple:
  assumes L: "chain_laws E V i" and mk: "\<And>s. P s \<Longrightarrow> ready E V i c b (mk s)"
  shows "triple P (run_executor E mk) (concluded E V) (run_safe E V) (run_safe E V)"
  unfolding run_executor_def [abs_def]
  by (rule triple_through [OF execute_triple [OF L] mk]) (auto simp: finished_def concluded_def)

lemma execute_built_triple:
  assumes L: "chain_laws E V (sib_intent_id intent)"
  shows "triple (fresh E V c) (execute_built E status intent) (concluded E V) (run_safe E V) (run_safe E V)"
  unfolding execute_built_def Let_def
proof (rule triple_read_then)
  fix s0 assume "fresh E V c s0"
  then have c: "ep_confirmed_commit (rep_progress (ir_report s0)) = c" and s0: "\<And>s. s = s0 \<Longrightarrow> fresh E V c s"
    by (simp_all add: fresh_def)
  have follow: "ready E V (sib_intent_id intent) (Some sig) False (resume_follow_up (ir_report s) (sib_intent_id intent) sig st (ir_world s))"
    if "fresh E V (Some sig) s" "no_commits (ts_tasks st)" for s sig st
    using that by (auto simp: ready_def shape_def resume_follow_up_def executor_new_def set_progress_def
        plan_of_strategy_def fresh_def)
  have new: "ready E V (sib_intent_id intent) None (tp_follow_up plan \<noteq> None) (executor_new (ir_report s) (sib_intent_id intent) committed plan (ir_world s))"
    if "fresh E V None s" "plan_ok plan" for s committed plan
    using that by (auto simp: ready_def shape_def executor_new_def fresh_def plan_ok_def)
  show "triple (\<lambda>s. s = s0) (case ep_confirmed_commit (rep_progress (ir_report s0)) of
        Some commit_signature \<Rightarrow>
          aquestion (build_follow_up E intent) (\<lambda>strategy.
          run_executor E (\<lambda>s. resume_follow_up (ir_report s) (sib_intent_id intent) commit_signature strategy (ir_world s)))
      | None \<Rightarrow>
          aquestion (intent_build_strategy E status intent (sib_get_all_committed_pubkeys intent)) (\<lambda>plan.
          run_executor E (\<lambda>s. executor_new (ir_report s) (sib_intent_id intent) (sib_get_all_committed_pubkeys intent) plan (ir_world s))))
     (concluded E V) (run_safe E V) (run_safe E V)"
  proof (cases c)
    case None
    show ?thesis
      unfolding c None option.case
      by (rule triple_question [OF triple_pre [OF build_strategy_triple [OF L]]], rule s0, assumption,
          rule run_executor_triple [OF L new]) (auto simp: None fresh_concluded)
  next
    case (Some sig)
    show ?thesis
      unfolding c Some option.case
      by (rule triple_question [OF triple_pre [OF build_follow_up_triple [OF L]]], rule s0, assumption,
          rule run_executor_triple [OF L follow]) (auto simp: Some fresh_concluded)
  qed
qed

definition started :: "('w, 'm) effects \<Rightarrow> 'w chain_view \<Rightarrow> outbox_status \<Rightarrow> 'w intent_run \<Rightarrow> bool" where
  "started E V status s \<longleftrightarrow> run_safe E V s \<and> cv_status V (ir_world s) = Some status \<and>
     ep_confirmed_commit (rep_progress (ir_report s)) = None"

lemma started_known:
  assumes "started E V status s"
  shows "known E V (\<exists>pe sig. from_status status = Some pe \<and> pe_confirmed_commit pe = Some sig)
     (map_option pe_transaction (from_status status)) (ir_world s)"
  using assms
  by (auto simp: started_def safe_def consistent_def known_def recorded_def list_all_iff split: option.splits)

lemma execute_inner_triple:
  assumes L: "chain_laws E V (sib_intent_id intent)"
  shows "triple (started E V status) (execute_inner E status intent) (concluded E V) (run_safe E V) (run_safe E V)"
proof (cases "from_status status")
  case None
  have A: "started E V status s \<Longrightarrow> fresh E V None s" for s
    using started_known [of E V status s] None by (simp add: started_def fresh_def)
  have B: "started E V status s \<Longrightarrow> concluded E V (Inl EmptyIntentError) s" for s
    by (simp add: started_def concluded_def)
  show ?thesis
    unfolding execute_inner_def None option.case
    by (intro triple_if triple_pre [OF execute_built_triple [OF L, of None]]) (simp_all add: A B)
next
  case (Some pe)
  have start: "started E V status s \<Longrightarrow> run_safe E V s \<and>
      known E V (pe_confirmed_commit pe \<noteq> None) (Some (pe_transaction pe)) (ir_world s)" for s
    using started_known [of E V status s] Some by (simp add: started_def)
  have built: "triple (\<lambda>s. \<exists>c. fresh E V c s) (execute_built E status intent) (concluded E V) (run_safe E V) (run_safe E V)"
    using execute_built_triple [OF L] unfolding triple_def by blast
  show ?thesis
    unfolding execute_inner_def Some option.case
    by (rule triple_question [OF triple_pre [OF resume_recorded_triple [OF L, of pe] start]])
       (auto simp: resumed_post_def concluded_def split: option.split intro: triple_pre [OF built])
qed

lemma notify_safe:
  assumes L: "chain_laws E V i" and f: "fx_notify_commit_sent E p w = (r, w')" and s: "safe E V w"
  shows "safe E V w'" and "known E V d None w \<Longrightarrow> known E V d None w'" and "cv_landed V w sig \<Longrightarrow> cv_landed V w' sig"
proof -
  note F = laws_notify [OF L f]
  have "once V w'" by (rule once_stay [of V w]) (use F s in \<open>auto simp: safe_def\<close>)
  moreover have "consistent E V w'"
  proof (cases "cv_status V w'")
    case (Some st)
    then have "quiet V w w'" using F by (simp add: quiet_def)
    then have "safe E V w'" using s by (rule safe_quiet)
    then show ?thesis by (simp add: safe_def)
  qed (simp add: consistent_def)
  ultimately show "safe E V w'" by (simp add: safe_def)
  show "known E V d None w \<Longrightarrow> known E V d None w'" by (rule known_stay [of V w]) (use F in auto)
  show "cv_landed V w sig \<Longrightarrow> cv_landed V w' sig" using F by (simp add: facts_stay_def)
qed

lemma report_and_close_triple:
  assumes L: "chain_laws E V i"
  shows "triple (concluded E V r) (report_and_close E r b) (concluded E V) (run_safe E V) (run_safe E V)"
  unfolding report_and_close_def
proof (rule triple_read_then)
  fix s0 assume c: "concluded E V r s0"
  have call: "triple (\<lambda>s. s = s0) (amap_err f (world_call E (fx_notify_commit_sent E p))) (\<lambda>_. concluded E V r) (run_safe E V) (run_safe E V)"
    for p f
    unfolding world_call_def
  proof (rule triple_call)
    fix s x s' assume s: "s = s0" "(let (r, w) = fx_notify_commit_sent E p (ir_world s) in (r, s\<lparr>ir_world := w\<rparr>)) = (x, s')"
    obtain w where f: "fx_notify_commit_sent E p (ir_world s0) = (x, w)" and s': "s' = s0\<lparr>ir_world := w\<rparr>"
      using s by (cases "fx_notify_commit_sent E p (ir_world s0)") auto
    have "safe E V (ir_world s0)" using c by (simp add: concluded_def)
    note N = notify_safe [OF L f this]
    show "concluded E V r s' \<and> run_safe E V s' \<and> run_safe E V s'" using N c by (auto simp: concluded_def s')
  qed
  show "triple (\<lambda>s. s = s0) (if keeps_record_open r b (rep_progress (ir_report s0)) then areturn r
      else aquestion (amap_err (\<lambda>_. OutboxClientError)
            (world_call E (fx_notify_commit_sent E (build_sent_commit b r (rep_progress (ir_report s0)))))) (\<lambda>_. areturn r))
      (concluded E V) (run_safe E V) (run_safe E V)"
    by (intro triple_if triple_question [OF call]) (use c in \<open>auto simp: concluded_def\<close>)
qed

lemma execute_intent_concluded:
  assumes L: "chain_laws E V (sib_intent_id intent)" and s: "safe E V w" "cv_status V w = Some status"
    and r: "execute_intent E intent status w = Some (r, w')"
  shows "safe E V w' \<and> (\<forall>res cl out. r = Ready (res, cl) \<longrightarrow> ier_inner res = Inr out \<longrightarrow> known E V True None w' \<and>
      (cv_landed V w' (eo_signature out) \<or> eo_confirmed_commit out = Some (eo_signature out)))"
proof -
  let ?s = "\<lparr>ir_report = default_report, ir_world = w\<rparr>"
  let ?m = "abind (execute_inner E status intent) (\<lambda>r.
        abind (report_and_close E r intent) (\<lambda>r.
        abind (aread ir_report) (\<lambda>report. areturn
          (\<lparr>ier_inner = r, ier_progress = rep_progress report,
            ier_callbacks_reported = (rep_callbacks_report report \<noteq> [])\<rparr>, rep_cleanup report))))"
  have t: "triple (started E V status) ?m (\<lambda>(res, _) s. concluded E V (ier_inner res) s) (run_safe E V) (run_safe E V)"
    by (intro triple_bind [OF execute_inner_triple [OF L]] triple_bind [OF report_and_close_triple [OF L]]
        triple_read_then) simp
  have st: "started E V status ?s" using s by (simp add: started_def default_report_def default_progress_def)
  obtain s' where m: "?m ?s = Some (r, s')" "w' = ir_world s'"
    using r unfolding execute_intent_def by (auto simp: map_option_case split: option.splits)
  show ?thesis
  proof (cases r)
    case (Ready x)
    then show ?thesis using tripleD [OF t st m(1)] m(2) by (cases x) (auto simp: concluded_def)
  next
    case Killed
    then show ?thesis using tripleD [OF t st m(1)] m(2) by simp
  next
    case Expired
    then show ?thesis using tripleD [OF t st m(1)] m(2) by simp
  qed
qed

section \<open>An execution returns\<close>

lemma run_executor_returns:
  assumes X: "expiry_law E window" and L: "chain_laws E V i" and mk: "\<And>s. P s \<Longrightarrow> ready E V i c b (mk s)"
  shows "returns_from P (run_executor E mk)"
  unfolding returns_from_def run_executor_def option.map_disc_iff
  by (intro allI impI, rule execute_returns [OF X L mk])

lemma build_returns: "returns (intent_build_strategy E status intent committed)" "returns (build_follow_up E intent)"
proof -
  have rec: "returns (finalize_records E rs)" for rs
  proof (induction rs)
    case (Cons x rs)
    then show ?case
      by (cases x) (auto simp: world_call_def intro!: returns_rules split: sum.split)
  qed (simp add: returns_rules)
  show "returns (intent_build_strategy E status intent committed)"
    unfolding intent_build_strategy_def Let_def world_call_def by (auto intro!: returns_rules)
  show "returns (build_follow_up E intent)"
    unfolding build_follow_up_def prepare_follow_up_def finalize_legacy_commits_def Let_def world_call_def
    by (auto intro!: returns_rules rec split: sum.split)
qed

lemma execute_built_returns:
  assumes X: "expiry_law E window" and L: "chain_laws E V (sib_intent_id intent)"
  shows "returns_from (\<lambda>s. \<exists>c. fresh E V c s) (execute_built E status intent)"
proof -
  have "returns_from (fresh E V c) (execute_built E status intent)" for c
    unfolding execute_built_def Let_def
  proof (rule returns_from_bind [OF returns_from_all [OF returns_basic(2)]
        triple_read [where Q = "\<lambda>x s. x = c \<and> fresh E V c s"]], goal_cases)
    case (2 x)
    show ?case
    proof (cases "x = c")
      case True
      show ?thesis
      proof (cases c)
        case None
        have "returns_from (\<lambda>s. fresh E V c s \<and> (\<forall>p. Inr plan = Inr p \<longrightarrow> plan_ok p))
            (run_executor E (\<lambda>s. executor_new (ir_report s) (sib_intent_id intent)
              (sib_get_all_committed_pubkeys intent) plan (ir_world s)))" for plan
          by (rule run_executor_returns [OF X L, of _ None "tp_follow_up plan \<noteq> None"])
             (auto simp: None ready_def shape_def executor_new_def fresh_def plan_ok_def)
        then show ?thesis
          unfolding True None option.case
          by (intro returns_from_pre [OF returns_from_question [OF returns_from_all [OF build_returns(1)]
                build_strategy_triple [OF L, of None]]]) (auto simp: None)
      next
        case (Some sig)
        have "returns_from (\<lambda>s. fresh E V c s \<and> (\<forall>st. Inr strategy = Inr st \<longrightarrow> no_commits (ts_tasks st)))
            (run_executor E (\<lambda>s. resume_follow_up (ir_report s) (sib_intent_id intent) sig strategy (ir_world s)))" for strategy
          by (rule run_executor_returns [OF X L, of _ "Some sig" False])
             (auto simp: Some ready_def shape_def resume_follow_up_def executor_new_def set_progress_def
                plan_of_strategy_def fresh_def)
        then show ?thesis
          unfolding True Some option.case
          by (intro returns_from_pre [OF returns_from_question [OF returns_from_all [OF build_returns(2)]
                build_follow_up_triple [OF L, of "Some sig"]]]) (auto simp: Some)
      qed
    qed (simp add: returns_from_def)
  qed (simp add: fresh_def)
  then show ?thesis unfolding returns_from_def by blast
qed

lemma execute_inner_returns:
  assumes X: "expiry_law E window" and L: "chain_laws E V (sib_intent_id intent)"
  shows "returns_from (started E V status) (execute_inner E status intent)"
proof (cases "from_status status")
  case None
  have A: "started E V status s \<Longrightarrow> \<exists>c. fresh E V c s" for s
    using started_known [of E V status s] None by (auto simp: started_def fresh_def)
  show ?thesis
    unfolding execute_inner_def None option.case
    by (auto intro: returns_from_all returns_rules returns_from_pre [OF execute_built_returns [OF X L] A])
next
  case (Some pe)
  have start: "started E V status s \<Longrightarrow> run_safe E V s \<and>
      known E V (pe_confirmed_commit pe \<noteq> None) (Some (pe_transaction pe)) (ir_world s)" for s
    using started_known [of E V status s] Some by (simp add: started_def)
  have res: "returns (resume_recorded E pe)"
    unfolding resume_recorded_def by (auto intro!: returns_rules resolve_returns [OF X])
  show ?thesis
    unfolding execute_inner_def Some option.case
  proof (rule returns_from_question [OF returns_from_all [OF res] triple_pre [OF resume_recorded_triple [OF L, of pe] start]],
      assumption)
    fix out
    show "returns_from (resumed_post E V (Inr out)) (case out of Some v \<Rightarrow> areturn (Inr v) | None \<Rightarrow> execute_built E status intent)"
      by (cases out) (auto simp: resumed_post_def intro: returns_from_all returns_rules
          returns_from_pre [OF execute_built_returns [OF X L]])
  qed
qed

lemma execute_intent_returns:
  fixes E :: "('w, 'm) effects"
  assumes X: "expiry_law E window" and L: "chain_laws E V (sib_intent_id intent)"
    and s: "safe E V w" "cv_status V w = Some status"
  shows "(execute_intent E intent status w :: (('s intent_execution_result \<times> cleanup_resources list) await \<times> 'w) option) \<noteq> None"
proof -
  have st: "started E V status \<lparr>ir_report = default_report, ir_world = w\<rparr>"
    using s by (simp add: started_def default_report_def default_progress_def)
  have fin: "returns (abind (report_and_close E r intent) (\<lambda>r.
        abind (aread ir_report) (\<lambda>report. areturn
          (\<lparr>ier_inner = r, ier_progress = rep_progress report,
            ier_callbacks_reported = (rep_callbacks_report report \<noteq> [])\<rparr>, rep_cleanup report))))"
      for r :: "('s intent_executor_error, execution_output) result"
    unfolding report_and_close_def world_call_def by (auto intro!: returns_rules)
  note R = returns_from_bind [OF execute_inner_returns [OF X L] execute_inner_triple [OF L] returns_from_all [OF fin]]
  show ?thesis
    unfolding execute_intent_def option.map_disc_iff
    by (rule R [unfolded returns_from_def, rule_format, OF st])
qed

end
