(* ===== verification/Execution_Life.thy ===== *)
theory Execution_Life
  imports Intent_Execution
begin

text \<open>
  The life of an outbox record: executions that end, are killed at any await, and start again
  from the stored status. The properties of the transaction executor are stated over such lives,
  and a small chain shows that the laws they assume can hold.
\<close>

section \<open>Lives of an intent\<close>

inductive lives :: "('w, 'm) effects \<Rightarrow> 'w chain_view \<Rightarrow> scheduled_intent_bundle \<Rightarrow> 'w \<Rightarrow> bool"
  for E :: "('w, 'm) effects" and V intent where
  accepted: "cv_sent V w = [] \<Longrightarrow> cv_status V w = Some Accepted \<Longrightarrow> lives E V intent w"
| meanwhile: "lives E V intent w \<Longrightarrow> quiet V w w' \<Longrightarrow> lives E V intent w'"
| executed: "lives E V intent w \<Longrightarrow> cv_status V w = Some status \<Longrightarrow>
    execute_intent E intent status w = Some (r :: (unit intent_execution_result \<times> cleanup_resources list) await, w') \<Longrightarrow>
    lives E V intent w'"

lemma lives_safe:
  assumes L: "chain_laws E V (sib_intent_id intent)" and l: "lives E V intent w"
  shows "safe E V w"
  using l
proof (induction rule: lives.induct)
  case (accepted w)
  then show ?case by (simp add: safe_def once_def consistent_def)
next
  case (meanwhile w w')
  show ?case by (rule safe_quiet [OF meanwhile.hyps(2) meanwhile.IH])
next
  case (executed w status r w')
  show ?case by (rule conjunct1 [OF execute_intent_concluded [OF L executed.IH executed.hyps(2,3)]])
qed





section \<open>A small chain\<close>

text \<open>
  A transaction of several tasks exceeds the limit of calls and is dead, a single task lands;
  blockhashes are valid for three sleeps. A signature is the number of tasks and of commits. The
  process is killed at the first await after the transaction number \<open>kill\<close>. The
  process is killed at the first await after the transaction number \<open>kill\<close>.
\<close>

record small_chain =
  sc_sent :: "(pending_transaction \<times> task list) list"
  sc_fates :: "(signature \<times> bool) list"
  sc_record :: "outbox_status option"
  sc_clock :: nat

definition small_error :: transaction_execution_error where
  "small_error = CpiLimitError (TxInstructionError 0 MaxInstructionTraceLengthExceeded) None"

definition small_decide :: "signature \<Rightarrow> bool \<Rightarrow> small_chain \<Rightarrow> small_chain" where
  "small_decide sig ok w = (if map_of (sc_fates w) sig = None then w\<lparr>sc_fates := (sig, ok) # sc_fates w\<rparr> else w)"

definition small_send ::
    "pending_transaction \<Rightarrow> task list \<Rightarrow> small_chain \<Rightarrow> (transaction_execution_error, unit) result \<times> small_chain" where
  "small_send p ts w =
     (let w' = small_decide (pt_signature p) (length ts \<le> 1) (w\<lparr>sc_sent := sc_sent w @ [(p, ts)]\<rparr>)
      in (if map_of (sc_fates w') (pt_signature p) = Some True then Inr () else Inl small_error, w'))"

definition small_statuses ::
    "signature \<Rightarrow> small_chain \<Rightarrow> (rpc_client_error, (transaction_error, unit) result option list) result \<times> small_chain" where
  "small_statuses sig w =
     (case map_of (sc_fates w) sig of
        Some True \<Rightarrow> (Inr [Some (Inr ())], w)
      | Some False \<Rightarrow> (Inr [Some (Inl MaxLoadedAccountsDataSizeExceeded)], w)
      | None \<Rightarrow> (Inr [None], if sc_clock w < 3 then w else small_decide sig False w))"

definition small_set_stage ::
    "execution_stage \<Rightarrow> small_chain \<Rightarrow> (unit, unit) result \<times> small_chain" where
  "small_set_stage stage w =
     (case sc_record w of
        None \<Rightarrow> (Inl (), w)
      | Some st \<Rightarrow>
          (case status_apply_transition st stage of
             Inl _ \<Rightarrow> (Inl (), w)
           | Inr st' \<Rightarrow> (Inr (), w\<lparr>sc_record := Some st'\<rparr>)))"

definition small_provider :: "task_info_provider_error task_info_provider" where
  "small_provider = \<lparr>fetch_delegation_metadata = \<lambda>_ _. Inr [(10, \<lparr>dm_rent_payer = 5,
       dm_undelegation_requester = OwnerProgram\<rparr>)], get_base_accounts = \<lambda>_ _. Inl (AccountNotFoundError 10)\<rparr>"

definition small_effects :: "nat \<Rightarrow> (small_chain, nat) effects" where
  "small_effects kill = \<lparr>
     fx_is_blockhash_valid = \<lambda>_ w. (Inr (sc_clock w < 3), w),
     fx_signature_statuses = small_statuses,
     fx_sleep = \<lambda>w. ((), w\<lparr>sc_clock := sc_clock w + 1\<rparr>),
     fx_prepare_for_strategy = \<lambda>st w. ((Inr (length (ts_tasks st) +
        10 * length (filter is_commit_finalize_task (ts_tasks st))),
        \<lparr>cr_buffers = [], cr_alt_reservation = [], cr_uniqueness_nonce = None\<rparr>), w),
     fx_get_latest_blockhash = \<lambda>w. (Inr 8, w),
     fx_sign = \<lambda>m _. Some (of_nat m),
     fx_set_intent_execution_stage = \<lambda>_ stage _. small_set_stage stage,
     fx_send_signed_tx = small_send,
     fx_finalize_legacy_commit = \<lambda>_ w. (Inl Prep_Signer, w),
     fx_invalidate_cached_blockhash = \<lambda>w. ((), w),
     fx_fetch_outbox_intent = \<lambda>_ w. (Inr None, w),
     fx_schedule_callbacks = \<lambda>_ _ _ w. ([], w),
     fx_task_info = \<lambda>w. (small_provider, w),
     fx_commit_record_owners = \<lambda>ks w. (Inr (map (\<lambda>_. None) ks), w),
     fx_notify_commit_sent = \<lambda>_ w. (Inr (), w\<lparr>sc_record := None\<rparr>),
     fx_time_left = \<lambda>_. None,
     fx_timer = \<lambda>_ _ _. False,
     fx_killed = \<lambda>w. kill \<le> length (sc_sent w),
     fx_authority = 3,
     fx_delegation_program_id = 4,
     fx_wire = example_wire\<rparr>"

definition small_view :: "small_chain chain_view" where
  "small_view = \<lparr>cv_sent = sc_sent, cv_dead = \<lambda>w sig. map_of (sc_fates w) sig = Some False,
     cv_landed = \<lambda>w sig. map_of (sc_fates w) sig = Some True, cv_expired = \<lambda>w _. \<not> sc_clock w < 3,
     cv_status = sc_record\<rparr>"

definition small_start :: small_chain where
  "small_start = \<lparr>sc_sent = [], sc_fates = [], sc_record = Some Accepted, sc_clock = 0\<rparr>"

lemma small_decide_fates [simp]:
  "map_of (sc_fates (small_decide sig ok w)) sig' =
     (if sig' = sig \<and> map_of (sc_fates w) sig = None then Some ok else map_of (sc_fates w) sig')"
  "sc_sent (small_decide sig ok w) = sc_sent w" "sc_record (small_decide sig ok w) = sc_record w"
  "sc_clock (small_decide sig ok w) = sc_clock w"
  by (auto simp: small_decide_def)

lemma small_laws: "chain_laws (small_effects kill) small_view i"
proof -
  have "blockhash_law (small_effects kill) small_view" "quiet_law (small_effects kill) small_view i" "notify_law (small_effects kill) small_view"
    by (simp_all add: blockhash_law_def quiet_law_def notify_law_def small_effects_def small_view_def quiet_def facts_stay_def)
  moreover have "status_law (small_effects kill) small_view"
    by (auto simp: status_law_def small_effects_def small_view_def small_statuses_def quiet_def facts_stay_def
        split: option.splits bool.splits if_splits)
  moreover have "stage_law (small_effects kill) small_view i"
    by (auto simp: stage_law_def small_effects_def small_view_def small_set_stage_def facts_stay_def
        dest: status_apply_installs split: option.splits sum.splits)
  moreover have "send_law (small_effects kill) small_view"
    by (auto simp: send_law_def small_effects_def small_view_def small_send_def small_error_def Let_def facts_stay_def
        split: if_splits)
  ultimately show ?thesis by (simp add: chain_laws_def small_view_def)
qed

lemma small_expiry: "expiry_law (small_effects kill) (\<lambda>_ w. 3 - sc_clock w)"
  by (auto simp: expiry_law_def small_effects_def small_statuses_def split: option.split bool.split)

lemma small_lives: "lives (small_effects kill) small_view intent small_start"
  by (rule lives.accepted) (simp_all add: small_view_def small_start_def)

text \<open>A run on it: the combined transaction fails, the commit lands, then the undelegation.\<close>

lemmas small_run_defs = execute_round_def reconcile_outbox_def resolve_recorded_def submit_current_def
  prepare_transaction_def after_failure_def recover_def repair_def aext_def abind_def aread_def amodify_def
  areturn_def aquestion_def await_def amap_err_def ext_step_def prepare_for_strategy_step_def
  recover_pending_from_outbox_def never_def set_transaction_def set_progress_def small_effects_def
  small_set_stage_def into_stage_def small_send_def small_decide_def small_error_def can_repair_commits_def
  add_patched_error_def

lemma execute_current_break:
  assumes "execute_round E stop (te_confirmed s) (te_follow_up s \<noteq> None) False s =
     Some (Ready (Inr (Loop_Break v)) :: ('s intent_executor_error, tx_result loop_flow) result await, s')"
  shows "execute_current E stop s = Some (Ready (Inr v :: ('s intent_executor_error, tx_result) result), s')"
  unfolding execute_current_def abind_def [of "aread id"] aread_def
  by (simp, subst execute_loop.simps) (use assms in \<open>simp add: abind_def areturn_def\<close>)

lemma execute_pass_break:
  assumes "execute_round E never (te_confirmed s) (te_follow_up s \<noteq> None) False s =
     Some (Ready (Inr (Loop_Break v)) :: ('s intent_executor_error, tx_result loop_flow) result await, s')"
    and "\<not> has_actions_callbacks (te_current s)" "\<forall>f. te_follow_up s = Some f \<longrightarrow> \<not> has_actions_callbacks f"
  shows "execute_pass E s =
     (case v of
        Inl err \<Rightarrow> if splittable err s' then Some (Ready None, split_current E err s')
          else astep (settle_round E (Inr v :: ('s intent_executor_error, tx_result) result)) s'
      | Inr sig \<Rightarrow> astep (settle_round E (Inr v)) s')"
proof -
  have "execute_with_timeout E s = Some (Ready (Inr v :: ('s intent_executor_error, tx_result) result), s')"
    using execute_current_break [OF assms(1)] assms(2,3)
    by (cases "te_follow_up s") (auto simp: execute_with_timeout_def Let_def abind_def aread_def)
  then show ?thesis
    by (simp add: execute_pass_def abind_def aread_def amodify_def areturn_def split: sum.split)
qed

lemma execute_pass_killed:
  assumes "execute_round E never (te_confirmed s) (te_follow_up s \<noteq> None) False s =
     Some (Killed :: ('s intent_executor_error, tx_result loop_flow) result await, s')"
    and "\<not> has_actions_callbacks (te_current s)" "\<forall>f. te_follow_up s = Some f \<longrightarrow> \<not> has_actions_callbacks f"
  shows "execute_pass E s = Some (Killed :: ('s intent_executor_error, execution_output) result option await, s')"
proof -
  have "execute_current E never s = Some (Killed :: ('s intent_executor_error, tx_result) result await, s')"
    unfolding execute_current_def abind_def [of "aread id"] aread_def
    by (simp, subst execute_loop.simps) (use assms(1) in \<open>simp add: abind_def\<close>)
  then have "execute_with_timeout E s = Some (Killed :: ('s intent_executor_error, tx_result) result await, s')"
    using assms(2,3) by (cases "te_follow_up s") (auto simp: execute_with_timeout_def Let_def abind_def aread_def)
  then show ?thesis by (simp add: execute_pass_def abind_def)
qed

definition small_state ::
    "task list \<Rightarrow> task list option \<Rightarrow> u64 option \<Rightarrow> execution_report \<Rightarrow> small_chain \<Rightarrow> small_chain tx_executor" where
  "small_state ts fu n rep w =
     \<lparr>te_report = rep, te_intent_id = 1, te_committed_pubkeys = [10],
      te_current = \<lparr>ts_tasks = ts, ts_lookup_tables_keys = [], ts_uniqueness_nonce = n\<rparr>,
      te_follow_up = map_option (\<lambda>f. \<lparr>ts_tasks = f, ts_lookup_tables_keys = [], ts_uniqueness_nonce = n\<rparr>) fu,
      te_pending = None, te_attempt = 0, te_world = w\<rparr>"

abbreviation small_tx :: "signature \<Rightarrow> pending_transaction" where
  "small_tx sig \<equiv> \<lparr>pt_signature = sig, pt_blockhash = 8\<rparr>"

abbreviation "small_combined c u \<equiv> [Task_CommitFinalize c, Task_Undelegate u]"

lemma small_round_combined:
  assumes "2 \<le> kill" 
  shows "\<exists>rep. execute_round (small_effects kill) never None False False
       (small_state (small_combined c u) None n default_report small_start) =
     Some (Ready (Inr (Loop_Break (Inl small_error))) :: (unit intent_executor_error, tx_result loop_flow) result await,
       (small_state (small_combined c u) None n rep
         \<lparr>sc_sent = [(small_tx 12, small_combined c u)], sc_fates = [(12, False)],
          sc_record = Some (Executing (SingleStage (small_tx 12))), sc_clock = 0\<rparr>)\<lparr>te_attempt := 1\<rparr>)
     \<and> ep_confirmed_commit (rep_progress rep) = None"
  using assms
  apply (simp add: small_state_def small_start_def default_report_def default_progress_def small_run_defs)
  done

lemma small_round_commit:
  assumes "ep_confirmed_commit (rep_progress rep) = None" "sc_sent w = [(small_tx 12, small_combined c u)]"
    "sc_fates w = [(12, False)]" "sc_record w = Some (Executing (SingleStage (small_tx 12)))" "3 \<le> kill"
  shows "\<exists>rep'. execute_round (small_effects kill) never None True False
       (small_state [Task_CommitFinalize c] (Some [Task_Undelegate u]) n rep w) =
     Some (Ready (Inr (Loop_Break (Inr 11))) :: (unit intent_executor_error, tx_result loop_flow) result await,
       (small_state [Task_CommitFinalize c] (Some [Task_Undelegate u]) n rep'
         (w\<lparr>sc_sent := [(small_tx 12, small_combined c u), (small_tx 11, [Task_CommitFinalize c])], sc_fates := [(11, True), (12, False)],
          sc_record := Some (Executing (TwoStage (Committing (small_tx 11))))\<rparr>))\<lparr>te_attempt := 1\<rparr>)
     \<and> ep_confirmed_commit (rep_progress rep') = None"
  using assms
  apply (simp add: small_state_def small_run_defs)
  done

lemma small_round_killed:
  assumes "ep_confirmed_commit (rep_progress rep) = None" "sc_sent w = [(small_tx 12, small_combined c u)]"
    "sc_fates w = [(12, False)]" "sc_record w = Some (Executing (SingleStage (small_tx 12)))"
  shows "\<exists>s'. execute_round (small_effects 2) never None True False
       (small_state [Task_CommitFinalize c] (Some [Task_Undelegate u]) n rep w) =
     Some (Killed :: (unit intent_executor_error, tx_result loop_flow) result await, s') \<and> te_world s' =
       (w\<lparr>sc_sent := [(small_tx 12, small_combined c u), (small_tx 11, [Task_CommitFinalize c])], sc_fates := [(11, True), (12, False)],
          sc_record := Some (Executing (TwoStage (Committing (small_tx 11))))\<rparr>)"
  using assms
  by (simp add: small_state_def small_run_defs)

lemma small_round_follow_up:
  assumes "ep_confirmed_commit (rep_progress rep) = Some 11"
    "sc_sent w = [(small_tx 12, small_combined c u), (small_tx 11, [Task_CommitFinalize c])]"
    "sc_fates w = [(11, True), (12, False)]" "sc_record w = Some (Executing (TwoStage (Committing (small_tx 11))))"
  shows "\<exists>rep'. execute_round (small_effects 4) never (Some 11) False False
       (small_state [Task_Undelegate u] None n rep w) =
     Some (Ready (Inr (Loop_Break (Inr 1))) :: (unit intent_executor_error, tx_result loop_flow) result await,
       (small_state [Task_Undelegate u] None n rep'
         (w\<lparr>sc_sent := sc_sent w @ [(small_tx 1, [Task_Undelegate u])], sc_fates := (1, True) # sc_fates w,
          sc_record := Some (Executing (TwoStage (Finalizing 11 (small_tx 1))))\<rparr>))\<lparr>te_attempt := 1\<rparr>)
     \<and> ep_confirmed_commit (rep_progress rep') = Some 11"
  using assms
  by (simp add: small_state_def small_run_defs)

lemmas small_pass_defs = small_state_def has_actions_callbacks_def is_combined_def
  add_patched_error_def astep_def settle_round_def report_outcome_def flatten_result_def result_ok_def
  execute_callbacks_def handle_actions_result_def extract_action_callbacks_def start_follow_up_def
  set_progress_def output_progress_def small_error_def

lemma small_splits:
  assumes "ep_confirmed_commit (rep_progress rep) = None"
  shows "splittable small_error ((small_state (small_combined c u) None n rep w)\<lparr>te_attempt := a\<rparr>)"
    "split_current E small_error ((small_state (small_combined c u) None n rep w)\<lparr>te_attempt := a\<rparr>) =
       small_state [Task_CommitFinalize c] (Some [Task_Undelegate u]) n (add_patched_error small_error rep) w"
  using assms
  by (simp_all add: splittable_def has_tasks_after_commit_def small_pass_defs split_current_def split_for_follow_up_def upt_conv_Cons)

lemma small_quiet [simp]:
  "\<not> has_actions_callbacks (te_current (small_state [Task_CommitFinalize c] fu n rep w))"
  "\<not> has_actions_callbacks (te_current (small_state [Task_Undelegate u] fu n rep w))"
  "\<not> has_actions_callbacks (te_current (small_state (small_combined c u) fu n rep w))"
  "te_follow_up (small_state ts (Some [Task_Undelegate u]) n rep w) = Some f \<Longrightarrow> \<not> has_actions_callbacks f"
  "te_follow_up (small_state ts None n rep w) = None"
  "te_follow_up (small_state ts (Some us) n rep w) \<noteq> None"
  "te_report (small_state ts fu n rep w) = rep"
  by (auto simp: small_state_def has_actions_callbacks_def)

lemma small_pass_combined:
  assumes "2 \<le> kill"
  shows "\<exists>rep w. execute_pass (small_effects kill) (small_state (small_combined c u) None n default_report small_start) =
     Some (Ready None :: (unit intent_executor_error, execution_output) result option await,
       small_state [Task_CommitFinalize c] (Some [Task_Undelegate u]) n rep w)
     \<and> ep_confirmed_commit (rep_progress rep) = None \<and> sc_sent w = [(small_tx 12, small_combined c u)]
     \<and> sc_fates w = [(12, False)] \<and> sc_record w = Some (Executing (SingleStage (small_tx 12)))"
proof -
  let ?w = "\<lparr>sc_sent = [(small_tx 12, small_combined c u)], sc_fates = [(12, False)],
     sc_record = Some (Executing (SingleStage (small_tx 12))), sc_clock = 0\<rparr>"
  obtain rep where "execute_round (small_effects kill) never None False False
       (small_state (small_combined c u) None n default_report small_start) =
     Some (Ready (Inr (Loop_Break (Inl small_error))) :: (unit intent_executor_error, tx_result loop_flow) result await,
       (small_state (small_combined c u) None n rep ?w)\<lparr>te_attempt := 1\<rparr>)"
     and r: "ep_confirmed_commit (rep_progress rep) = None"
    using small_round_combined [OF assms, of c u n] by blast
  then have "execute_pass (small_effects kill) (small_state (small_combined c u) None n default_report small_start) =
     Some (Ready None :: (unit intent_executor_error, execution_output) result option await,
       small_state [Task_CommitFinalize c] (Some [Task_Undelegate u]) n (add_patched_error small_error rep) ?w)"
    by (subst execute_pass_break [where v = "Inl small_error"
          and s' = "(small_state (small_combined c u) None n rep ?w)\<lparr>te_attempt := 1\<rparr>"])
       (simp_all add: default_report_def default_progress_def small_splits [OF r])
  then show ?thesis using r by - (intro exI conjI, assumption, simp_all add: add_patched_error_def)
qed

lemma small_pass_commit:
  assumes "ep_confirmed_commit (rep_progress rep) = None" "sc_sent w = [(small_tx 12, small_combined c u)]"
    "sc_fates w = [(12, False)]" "sc_record w = Some (Executing (SingleStage (small_tx 12)))"
  shows "\<exists>rep' w'. execute_pass (small_effects 4) (small_state [Task_CommitFinalize c] (Some [Task_Undelegate u]) n rep w) =
     Some (Ready None :: (unit intent_executor_error, execution_output) result option await,
       small_state [Task_Undelegate u] None n rep' w')
     \<and> ep_confirmed_commit (rep_progress rep') = Some 11
     \<and> sc_sent w' = [(small_tx 12, small_combined c u), (small_tx 11, [Task_CommitFinalize c])]
     \<and> sc_fates w' = [(11, True), (12, False)] \<and> sc_record w' = Some (Executing (TwoStage (Committing (small_tx 11))))"
proof -
  have "(3::nat) \<le> 4" by simp
  from small_round_commit [OF assms this, of n]
  show ?thesis using assms
    by (elim exE conjE, subst execute_pass_break [where v = "Inr 11"])
       (simp_all, simp_all add: small_pass_defs default_progress_def)
qed

lemma small_pass_killed:
  assumes "ep_confirmed_commit (rep_progress rep) = None" "sc_sent w = [(small_tx 12, small_combined c u)]"
    "sc_fates w = [(12, False)]" "sc_record w = Some (Executing (SingleStage (small_tx 12)))"
  shows "\<exists>s'. execute_pass (small_effects 2) (small_state [Task_CommitFinalize c] (Some [Task_Undelegate u]) n rep w) =
     Some (Killed :: (unit intent_executor_error, execution_output) result option await, s')
     \<and> sc_sent (te_world s') = [(small_tx 12, small_combined c u), (small_tx 11, [Task_CommitFinalize c])]
     \<and> sc_fates (te_world s') = [(11, True), (12, False)]
     \<and> sc_record (te_world s') = Some (Executing (TwoStage (Committing (small_tx 11))))"
  using small_round_killed [OF assms, of n] assms(1)
  by (elim exE conjE, subst execute_pass_killed) (simp_all, simp_all)

lemma small_pass_follow_up:
  assumes "ep_confirmed_commit (rep_progress rep) = Some 11"
    "sc_sent w = [(small_tx 12, small_combined c u), (small_tx 11, [Task_CommitFinalize c])]"
    "sc_fates w = [(11, True), (12, False)]" "sc_record w = Some (Executing (TwoStage (Committing (small_tx 11))))"
  shows "\<exists>s'. execute_pass (small_effects 4) (small_state [Task_Undelegate u] None n rep w) =
     Some (Ready (Some (Inr \<lparr>eo_confirmed_commit = Some 11, eo_signature = 1\<rparr>))
       :: (unit intent_executor_error, execution_output) result option await, s')
     \<and> sc_sent (te_world s') = sc_sent w @ [(small_tx 1, [Task_Undelegate u])]
     \<and> sc_fates (te_world s') = [(1, True), (11, True), (12, False)]"
  using small_round_follow_up [OF assms, of n] assms
    by (elim exE conjE, subst execute_pass_break [where v = "Inr 1"])
       (simp_all, simp_all add: small_pass_defs default_progress_def)

lemma small_execute:
  "\<exists>s'. execute (small_effects 4) (small_state (small_combined c u) None n default_report small_start) =
     Some (Ready (Inr \<lparr>eo_confirmed_commit = Some 11, eo_signature = 1\<rparr>) :: (unit intent_executor_error, execution_output) result await, s')
     \<and> sc_sent (te_world s') = [(small_tx 12, small_combined c u), (small_tx 11, [Task_CommitFinalize c]), (small_tx 1, [Task_Undelegate u])]
     \<and> sc_fates (te_world s') = [(1, True), (11, True), (12, False)]"
  "\<exists>s'. execute (small_effects 2) (small_state (small_combined c u) None n default_report small_start) =
     Some (Killed :: (unit intent_executor_error, execution_output) result await, s')
     \<and> sc_sent (te_world s') = [(small_tx 12, small_combined c u), (small_tx 11, [Task_CommitFinalize c])]
     \<and> sc_fates (te_world s') = [(11, True), (12, False)]
     \<and> sc_record (te_world s') = Some (Executing (TwoStage (Committing (small_tx 11))))"
proof -
  have k: "(2::nat) \<le> 4" "(2::nat) \<le> 2" by simp_all
  from small_pass_combined [OF k(1), of c u n] obtain rep w where
    p1: "execute_pass (small_effects 4) (small_state (small_combined c u) None n default_report small_start) =
       Some (Ready None :: (unit intent_executor_error, execution_output) result option await,
         small_state [Task_CommitFinalize c] (Some [Task_Undelegate u]) n rep w)"
    and w: "ep_confirmed_commit (rep_progress rep) = None" "sc_sent w = [(small_tx 12, small_combined c u)]"
      "sc_fates w = [(12, False)]" "sc_record w = Some (Executing (SingleStage (small_tx 12)))" by blast
  from small_pass_commit [OF w, of n] obtain rep2 w2 where
    p2: "execute_pass (small_effects 4) (small_state [Task_CommitFinalize c] (Some [Task_Undelegate u]) n rep w) =
       Some (Ready None :: (unit intent_executor_error, execution_output) result option await,
         small_state [Task_Undelegate u] None n rep2 w2)"
    and w2: "ep_confirmed_commit (rep_progress rep2) = Some 11"
      "sc_sent w2 = [(small_tx 12, small_combined c u), (small_tx 11, [Task_CommitFinalize c])]"
      "sc_fates w2 = [(11, True), (12, False)]" "sc_record w2 = Some (Executing (TwoStage (Committing (small_tx 11))))"
    by blast
  show "\<exists>s'. execute (small_effects 4) (small_state (small_combined c u) None n default_report small_start) =
     Some (Ready (Inr \<lparr>eo_confirmed_commit = Some 11, eo_signature = 1\<rparr>) :: (unit intent_executor_error, execution_output) result await, s')
     \<and> sc_sent (te_world s') = [(small_tx 12, small_combined c u), (small_tx 11, [Task_CommitFinalize c]), (small_tx 1, [Task_Undelegate u])]
     \<and> sc_fates (te_world s') = [(1, True), (11, True), (12, False)]"
    using small_pass_follow_up [OF w2, of n] w2(2)
    by (elim exE conjE, subst execute.simps, simp add: abind_def p1, subst execute.simps, simp add: abind_def p2,
        subst execute.simps, simp add: abind_def areturn_def)
  from small_pass_combined [OF k(2), of c u n] obtain rep w where
    p1: "execute_pass (small_effects 2) (small_state (small_combined c u) None n default_report small_start) =
       Some (Ready None :: (unit intent_executor_error, execution_output) result option await,
         small_state [Task_CommitFinalize c] (Some [Task_Undelegate u]) n rep w)"
    and w: "ep_confirmed_commit (rep_progress rep) = None" "sc_sent w = [(small_tx 12, small_combined c u)]"
      "sc_fates w = [(12, False)]" "sc_record w = Some (Executing (SingleStage (small_tx 12)))" by blast
  show "\<exists>s'. execute (small_effects 2) (small_state (small_combined c u) None n default_report small_start) =
     Some (Killed :: (unit intent_executor_error, execution_output) result await, s')
     \<and> sc_sent (te_world s') = [(small_tx 12, small_combined c u), (small_tx 11, [Task_CommitFinalize c])]
     \<and> sc_fates (te_world s') = [(11, True), (12, False)]
     \<and> sc_record (te_world s') = Some (Executing (TwoStage (Committing (small_tx 11))))"
    using small_pass_killed [OF w, of n]
    by (elim exE conjE, subst execute.simps, simp add: abind_def p1, subst execute.simps, simp add: abind_def)
qed

lemma small_tasks:
  "\<exists>c. commit_tasks small_provider example_undelegation = Inr [Task_CommitFinalize c] \<and> \<not> cft_is_buffer c
      \<and> \<not> requires_uniqueness_nonce [Task_CommitFinalize c]"
  "\<exists>u. follow_up_tasks small_provider example_undelegation = Inr [Task_Undelegate u]"
  by (simp_all add: commit_tasks_def fetch_commit_inputs_def small_provider_def Let_def follow_up_tasks_def
      example_undelegation_def example_bundle_def accepted_def default_bundle_def create_undelegate_tasks_def
      cau_get_committed_accounts_def delegation_metadata_for_pubkey_def example_account_def
      build_commit_tasks_def requires_uniqueness_nonce_def undelegate_task_for_def create_action_tasks_def
      create_commit_finalize_task_def delivery_for_def COMMIT_STATE_SIZE_THRESHOLD_def cft_is_buffer_def
      create_follow_up_tasks_def word_le_nat_alt)

lemma small_built:
  assumes "\<not> cft_is_buffer c"
  shows "build_plan example_wire [Task_CommitFinalize c] [Task_Undelegate u] 3 None =
     Inr (plan_of_strategy \<lparr>ts_tasks = small_combined c u, ts_lookup_tables_keys = [], ts_uniqueness_nonce = None\<rparr>)"
  using assms
  by (simp add: build_plan_def build_strategy_def try_optimize_tx_size_if_needed_def
      calculate_tx_length_def example_wire_def tasks_compute_units_def MAX_UNITED_TASKS_LEN_def
      MAX_COMPUTE_UNITS_def saturating_add_def checked_add_def cft_try_use_buffer_def
      upt_conv_Cons word_less_nat_alt Let_def plan_uses_alts_def plan_of_strategy_def uses_alts_def)

lemma small_plan:
  "\<exists>c u. intent_build_strategy (small_effects kill) Accepted example_undelegation [10] \<lparr>ir_report = rep, ir_world = small_start\<rparr> =
     Some (if kill = 0 then Killed else Ready (Inr (plan_of_strategy \<lparr>ts_tasks = small_combined c u, ts_lookup_tables_keys = [], ts_uniqueness_nonce = None\<rparr>)
        :: (unit intent_executor_error, transaction_plan) result),
        \<lparr>ir_report = rep, ir_world = small_start\<rparr>)"
proof -
  obtain c u where "commit_tasks small_provider example_undelegation = Inr [Task_CommitFinalize c]" "\<not> cft_is_buffer c"
    "\<not> requires_uniqueness_nonce [Task_CommitFinalize c]"
    "follow_up_tasks small_provider example_undelegation = Inr [Task_Undelegate u]"
    using small_tasks by blast
  then show ?thesis
    by (intro exI [of _ c] exI [of _ u])
       (simp add: intent_build_strategy_def abind_def areturn_def world_call_def await_def small_effects_def small_start_def
         choose_plan_def small_built never_def)
qed

lemma small_executed:
  "\<exists>c u s. execute_built (small_effects 4) Accepted example_undelegation \<lparr>ir_report = default_report, ir_world = small_start\<rparr> =
     Some (Ready (Inr \<lparr>eo_confirmed_commit = Some 11, eo_signature = 1\<rparr>) :: (unit intent_executor_error, execution_output) result await, s)
     \<and> sc_sent (ir_world s) = [(small_tx 12, small_combined c u), (small_tx 11, [Task_CommitFinalize c]), (small_tx 1, [Task_Undelegate u])]
     \<and> sc_fates (ir_world s) = [(1, True), (11, True), (12, False)]"
  "\<exists>c u s. execute_built (small_effects 2) Accepted example_undelegation \<lparr>ir_report = default_report, ir_world = small_start\<rparr> =
     Some (Killed :: (unit intent_executor_error, execution_output) result await, s)
     \<and> sc_sent (ir_world s) = [(small_tx 12, small_combined c u), (small_tx 11, [Task_CommitFinalize c])]
     \<and> sc_fates (ir_world s) = [(11, True), (12, False)]
     \<and> sc_record (ir_world s) = Some (Executing (TwoStage (Committing (small_tx 11))))"
proof -
  have keys: "sib_get_all_committed_pubkeys example_undelegation = [10]" "sib_intent_id example_undelegation = 1"
    by (simp_all add: example_undelegation_def example_bundle_def accepted_def default_bundle_def
      sib_get_all_committed_pubkeys_def get_all_committed_pubkeys_def example_account_def flatten_options_def
      get_commit_intent_pubkeys_def get_undelegate_intent_pubkeys_def get_commit_finalize_intent_pubkeys_def
      get_commit_finalize_and_undelegate_intent_pubkeys_def cau_get_committed_pubkeys_def ct_get_committed_pubkeys_def)
  have new: "executor_new default_report 1 [10] (plan_of_strategy \<lparr>ts_tasks = small_combined c u, ts_lookup_tables_keys = [],
      ts_uniqueness_nonce = None\<rparr>) small_start = small_state (small_combined c u) None None default_report small_start" for c u
    by (simp add: executor_new_def plan_of_strategy_def small_state_def)
  have conf: "ep_confirmed_commit (rep_progress default_report) = None"
    by (simp add: default_report_def default_progress_def)
  note simps = execute_built_def Let_def keys abind_def aread_def conf aquestion_def run_executor_def new
  obtain c u where "intent_build_strategy (small_effects 4) Accepted example_undelegation [10]
      \<lparr>ir_report = default_report, ir_world = small_start\<rparr> =
     Some (Ready (Inr (plan_of_strategy \<lparr>ts_tasks = small_combined c u, ts_lookup_tables_keys = [], ts_uniqueness_nonce = None\<rparr>)
        :: (unit intent_executor_error, transaction_plan) result), \<lparr>ir_report = default_report, ir_world = small_start\<rparr>)"
    using small_plan [of 4 default_report] by auto
  with small_execute(1) [of c u None] show "\<exists>c u s. execute_built (small_effects 4) Accepted example_undelegation \<lparr>ir_report = default_report, ir_world = small_start\<rparr> =
     Some (Ready (Inr \<lparr>eo_confirmed_commit = Some 11, eo_signature = 1\<rparr>) :: (unit intent_executor_error, execution_output) result await, s)
     \<and> sc_sent (ir_world s) = [(small_tx 12, small_combined c u), (small_tx 11, [Task_CommitFinalize c]), (small_tx 1, [Task_Undelegate u])]
     \<and> sc_fates (ir_world s) = [(1, True), (11, True), (12, False)]"
    by (elim exE conjE) (intro exI [of _ c] exI [of _ u], simp add: simps)
  obtain c u where "intent_build_strategy (small_effects 2) Accepted example_undelegation [10]
      \<lparr>ir_report = default_report, ir_world = small_start\<rparr> =
     Some (Ready (Inr (plan_of_strategy \<lparr>ts_tasks = small_combined c u, ts_lookup_tables_keys = [], ts_uniqueness_nonce = None\<rparr>)
        :: (unit intent_executor_error, transaction_plan) result), \<lparr>ir_report = default_report, ir_world = small_start\<rparr>)"
    using small_plan [of 2 default_report] by auto
  with small_execute(2) [of c u None] show "\<exists>c u s. execute_built (small_effects 2) Accepted example_undelegation \<lparr>ir_report = default_report, ir_world = small_start\<rparr> =
     Some (Killed :: (unit intent_executor_error, execution_output) result await, s)
     \<and> sc_sent (ir_world s) = [(small_tx 12, small_combined c u), (small_tx 11, [Task_CommitFinalize c])]
     \<and> sc_fates (ir_world s) = [(11, True), (12, False)]
     \<and> sc_record (ir_world s) = Some (Executing (TwoStage (Committing (small_tx 11))))"
    by (elim exE conjE) (intro exI [of _ c] exI [of _ u], simp add: simps)
qed

lemma small_intent:
  "\<exists>c u w res cleanup. execute_intent (small_effects 4) example_undelegation Accepted small_start =
     Some (Ready (res :: unit intent_execution_result, cleanup), w)
     \<and> ier_inner res = Inr \<lparr>eo_confirmed_commit = Some 11, eo_signature = 1\<rparr>
     \<and> sc_sent w = [(small_tx 12, small_combined c u), (small_tx 11, [Task_CommitFinalize c]), (small_tx 1, [Task_Undelegate u])]
     \<and> sc_fates w = [(1, True), (11, True), (12, False)]"
  "\<exists>c u w. execute_intent (small_effects 2) example_undelegation Accepted small_start =
     Some (Killed :: (unit intent_execution_result \<times> cleanup_resources list) await, w)
     \<and> sc_sent w = [(small_tx 12, small_combined c u), (small_tx 11, [Task_CommitFinalize c])]
     \<and> sc_fates w = [(11, True), (12, False)]
     \<and> sc_record w = Some (Executing (TwoStage (Committing (small_tx 11))))"
proof -
  have nonempty: "\<not> bundle_is_empty (sib_intent_bundle example_undelegation)"
    by (simp add: example_undelegation_def default_bundle_def bundle_is_empty_def none_or_def cau_is_empty_def)
  note simps = execute_intent_def execute_inner_def nonempty abind_def aread_def areturn_def report_and_close_def
    keeps_record_open_def aquestion_def amap_err_def world_call_def await_def never_def small_effects_def
  show "\<exists>c u w res cleanup. execute_intent (small_effects 4) example_undelegation Accepted small_start =
     Some (Ready (res :: unit intent_execution_result, cleanup), w)
     \<and> ier_inner res = Inr \<lparr>eo_confirmed_commit = Some 11, eo_signature = 1\<rparr>
     \<and> sc_sent w = [(small_tx 12, small_combined c u), (small_tx 11, [Task_CommitFinalize c]), (small_tx 1, [Task_Undelegate u])]
     \<and> sc_fates w = [(1, True), (11, True), (12, False)]"
    using small_executed(1) by (elim exE conjE) (simp add: simps)
  show "\<exists>c u w. execute_intent (small_effects 2) example_undelegation Accepted small_start =
     Some (Killed :: (unit intent_execution_result \<times> cleanup_resources list) await, w)
     \<and> sc_sent w = [(small_tx 12, small_combined c u), (small_tx 11, [Task_CommitFinalize c])]
     \<and> sc_fates w = [(11, True), (12, False)]
     \<and> sc_record w = Some (Executing (TwoStage (Committing (small_tx 11))))"
    using small_executed(2) by (elim exE conjE) (simp add: simps)
qed





end
