(* ===== verification/Program_Context.thy ===== *)
theory Program_Context
  imports Outbox_Model
begin

text \<open>
  The ground the builtin programs of \<^verbatim>\<open>programs/magic-program\<close> stand on: the accounts of a
  transaction, the view one instruction has of them (\<^verbatim>\<open>utils/accounts.rs\<close>), the account changes
  the handlers share (\<^verbatim>\<open>utils/account_actions.rs\<close>) and a small language of handlers. A handler
  maps the accounts of the transaction to an error, or to a result and the changed accounts; the
  engine keeps the changes only when the whole transaction succeeds, so an error carries none.
\<close>

section \<open>Handlers\<close>

named_theorems prog_simps \<open>inversion of handlers\<close>

type_synonym ('s, 'a) prog = "'s \<Rightarrow> (instruction_error, 'a \<times> 's) result"

definition pret :: "'a \<Rightarrow> ('s, 'a) prog" where
  "pret x s = Inr (x, s)"

definition plift :: "(instruction_error, 'a) result \<Rightarrow> ('s, 'a) prog" where
  "plift r s = rbind r (\<lambda>x. Inr (x, s))"

definition pguard :: "bool \<Rightarrow> instruction_error \<Rightarrow> ('s, unit) prog" where
  "pguard b e = plift (ensure b e)"

definition pbind :: "('s, 'a) prog \<Rightarrow> ('a \<Rightarrow> ('s, 'b) prog) \<Rightarrow> ('s, 'b) prog" where
  "pbind m f s = rbind (m s) (\<lambda>(x, s'). f x s')"

definition pthen :: "('s, unit) prog \<Rightarrow> ('s, 'b) prog \<Rightarrow> ('s, 'b) prog" where
  "pthen m n = pbind m (\<lambda>_. n)"

text \<open>A loop over a list, each round a handler that may stop the instruction.\<close>

fun pfor :: "'a list \<Rightarrow> ('a \<Rightarrow> 'b \<Rightarrow> ('s, 'b) prog) \<Rightarrow> 'b \<Rightarrow> ('s, 'b) prog" where
  "pfor [] f acc = pret acc"
| "pfor (x # xs) f acc = pbind (f x acc) (pfor xs f)"

text \<open>\<^verbatim>\<open>map(f).collect::<Result<Vec<_>, _>>()\<close>, \<^verbatim>\<open>map(f).transpose()\<close> and \<^verbatim>\<open>try_for_each\<close>.\<close>

fun pmap :: "('a \<Rightarrow> ('s, 'b) prog) \<Rightarrow> 'a list \<Rightarrow> ('s, 'b list) prog" where
  "pmap f [] = pret []"
| "pmap f (x # xs) = pbind (f x) (\<lambda>y. pbind (pmap f xs) (\<lambda>ys. pret (y # ys)))"

fun popt :: "('a \<Rightarrow> ('s, 'b) prog) \<Rightarrow> 'a option \<Rightarrow> ('s, 'b option) prog" where
  "popt f None = pret None"
| "popt f (Some x) = pbind (f x) (\<lambda>y. pret (Some y))"

definition peach :: "('a \<Rightarrow> ('s, unit) prog) \<Rightarrow> 'a list \<Rightarrow> ('s, unit) prog" where
  "peach f xs = pfor xs (\<lambda>x _. f x) ()"

lemma pret_eq [simp]: "pret x s = Inr r \<longleftrightarrow> r = (x, s)" "pret x s \<noteq> Inl e"
  by (auto simp: pret_def)

lemma plift_eq [simp]:
  "plift r s = Inr y \<longleftrightarrow> (\<exists>x. r = Inr x \<and> y = (x, s))" "plift r s = Inl e \<longleftrightarrow> r = Inl e"
  by (cases r; auto simp: plift_def)+

lemma pguard_eq [simp]:
  "pguard b e s = Inr y \<longleftrightarrow> b \<and> y = ((), s)" "pguard b e s = Inl d \<longleftrightarrow> \<not> b \<and> d = e"
  by (auto simp: pguard_def)

lemma pbind_Inr [prog_simps]: "pbind m f s = Inr y \<longleftrightarrow> (\<exists>x s'. m s = Inr (x, s') \<and> f x s' = Inr y)"
  by (auto simp: pbind_def rbind_Inr_iff)

lemma pbind_Inl [prog_simps]:
  "pbind m f s = Inl e \<longleftrightarrow> m s = Inl e \<or> (\<exists>x s'. m s = Inr (x, s') \<and> f x s' = Inl e)"
  by (auto simp: pbind_def rbind_Inl_iff)

lemma pthen_Inr [prog_simps]: "pthen m n s = Inr y \<longleftrightarrow> (\<exists>s'. m s = Inr ((), s') \<and> n s' = Inr y)"
  by (auto simp: pthen_def pbind_Inr)

lemma pthen_Inl [prog_simps]:
  "pthen m n s = Inl e \<longleftrightarrow> m s = Inl e \<or> (\<exists>s'. m s = Inr ((), s') \<and> n s' = Inl e)"
  by (auto simp: pthen_def pbind_Inl)

lemma prog_run:
  "pret x s = Inr (x, s)" "plift (Inr x) s = Inr (x, s)" "plift (Inl e) s = Inl e"
  "pguard True e s = Inr ((), s)" "pguard False e s = Inl e"
  "m s = Inr (x, s') \<Longrightarrow> pbind m f s = f x s'" "m s = Inl e \<Longrightarrow> pbind m f s = Inl e"
  "m' s = Inr ((), s') \<Longrightarrow> pthen m' n s = n s'" "m' s = Inl e \<Longrightarrow> pthen m' n s = Inl e"
  by (simp_all add: pret_def plift_def pguard_def pbind_def pthen_def)

text \<open>What every round keeps, the loop keeps.\<close>

lemma pfor_keeps:
  assumes "pfor xs f acc s = Inr (r, s')" and "P acc s"
    and "\<And>x acc s r s'. x \<in> set xs \<Longrightarrow> f x acc s = Inr (r, s') \<Longrightarrow> P acc s \<Longrightarrow> P r s'"
  shows "P r s'"
  using assms
proof (induction xs arbitrary: acc s)
  case (Cons x xs)
  obtain y t where step: "f x acc s = Inr (y, t)" and rest: "pfor xs f y t = Inr (r, s')"
    using Cons.prems(1) by (auto simp: prog_simps)
  have "P y t" by (rule Cons.prems(3) [OF _ step Cons.prems(2)]) simp
  with rest show ?case by (rule Cons.IH) (rule Cons.prems(3); simp)
qed simp

lemma pmap_keeps:
  assumes "pmap f xs s = Inr (ys, s')" and "P [] [] s"
    and "\<And>us x zs s y s'. x \<in> set xs \<Longrightarrow> f x s = Inr (y, s') \<Longrightarrow> P us zs s \<Longrightarrow> P (us @ [x]) (zs @ [y]) s'"
  shows "P xs ys s'"
proof -
  have "P (us @ vs) (zs @ ys) s'" if "pmap f vs t = Inr (ys, s')" "set vs \<subseteq> set xs" "P us zs t" for us vs t zs
    using that
  proof (induction vs arbitrary: us zs t ys)
    case (Cons v vs)
    obtain y w ys' where step: "f v t = Inr (y, w)" and rest: "pmap f vs w = Inr (ys', s')" and "ys = y # ys'"
      using Cons.prems(1) by (auto simp: prog_simps)
    have "P (us @ [v]) (zs @ [y]) w" by (rule assms(3) [OF _ step Cons.prems(3)]) (use Cons.prems(2) in simp)
    from Cons.IH [OF rest _ this] Cons.prems(2) \<open>ys = y # ys'\<close> show ?case by simp
  qed simp
  from this [OF assms(1) _ assms(2)] show ?thesis by simp
qed

lemma peach_keeps:
  assumes "peach f xs s = Inr (u, s')" and "P s"
    and "\<And>x s s'. x \<in> set xs \<Longrightarrow> f x s = Inr ((), s') \<Longrightarrow> P s \<Longrightarrow> P s'"
  shows "P s'"
  using assms(1) unfolding peach_def
  by (rule pfor_keeps [where P = "\<lambda>_. P", OF _ assms(2)]) (use assms(3) in simp)

text \<open>A loop whose rounds only look: each round passed, and nothing changed.\<close>

lemma peach_checks:
  assumes "peach f xs s = Inr (u, s')" and "\<And>x t t'. x \<in> set xs \<Longrightarrow> f x t = Inr ((), t') \<Longrightarrow> t' = t"
  shows "s' = s \<and> (\<forall>x \<in> set xs. f x s = Inr ((), s))"
  using assms unfolding peach_def
proof (induction xs)
  case (Cons x xs)
  obtain t where step: "f x s = Inr ((), t)" and rest: "pfor xs (\<lambda>x _. f x) () t = Inr (u, s')"
    using Cons.prems(1) by (auto simp: prog_simps)
  have "t = s" by (rule Cons.prems(2) [OF _ step]) simp
  moreover have "s' = s \<and> (\<forall>x \<in> set xs. f x s = Inr ((), s))"
    by (rule Cons.IH) (use rest \<open>t = s\<close> in simp, rule Cons.prems(2), simp_all)
  ultimately show ?case using step by simp
qed simp

section \<open>Accounts\<close>

datatype account_mode =
    Mode_Missing | Mode_Mirrored | Mode_Delegated | Mode_Undelegating | Mode_Magic | Mode_Closed | Mode_Runtime

text \<open>An account of the engine: Solana's fields, and the engine's own.\<close>

record shared_account = account +
  sh_mode :: account_mode
  sh_slot :: u64
  sh_commit_seq :: u32
  sh_rent_funded :: bool

type_synonym store = "shared_account list"

text \<open>
  One instruction's view: its program, its accounts as positions among the accounts of the
  transaction, and what the engine publishes to it.
\<close>

record instruction_meta =
  im_index :: nat
  im_signer :: bool
  im_writable :: bool

record invoke_context =
  ic_program :: pubkey
  ic_metas :: "instruction_meta list"
  ic_keys :: "pubkey list"
  ic_caller :: "(instruction_error, pubkey option) result"
  ic_clock_slot :: "slot option"
  ic_blockhash :: hash
  ic_authority :: pubkey

text \<open>
  The transitions of an account's mode and of its commit sequence are the engine's; each may be
  refused.
\<close>

record engine =
  en_set_lifecycle :: "account_mode \<Rightarrow> u64 \<Rightarrow> shared_account \<Rightarrow> shared_account option"
  en_apply_commit_seq :: "u32 \<Rightarrow> shared_account \<Rightarrow> shared_account option"
  en_find_program_address :: "seed list \<Rightarrow> pubkey \<Rightarrow> pubkey \<times> u8"
  en_create_program_address :: "seed list \<Rightarrow> pubkey \<Rightarrow> pubkey option"

text \<open>When they are granted, they change the field they are named after and nothing else.\<close>

definition engine_ok :: "engine \<Rightarrow> bool" where
  "engine_ok E \<longleftrightarrow>
     (\<forall>m sl a b. en_set_lifecycle E m sl a = Some b \<longrightarrow> b = a\<lparr>sh_mode := m, sh_slot := sl\<rparr>) \<and>
     (\<forall>n a b. en_apply_commit_seq E n a = Some b \<longrightarrow> b = a\<lparr>sh_commit_seq := n\<rparr>)"

definition ic_signers :: "invoke_context \<Rightarrow> pubkey set" where
  "ic_signers C = {ic_keys C ! im_index m | m. m \<in> set (ic_metas C) \<and> im_signer m \<and> im_index m < length (ic_keys C)}"

definition DELEGATION_PROGRAM_ID :: pubkey where
  "DELEGATION_PROGRAM_ID = 82191964697935119457304698719014317153249058529023526996863877687928147715902"
definition MAGIC_PROGRAM_ID :: pubkey where
  "MAGIC_PROGRAM_ID = 2384719993911367029706328394703110203869296270766600374971558528962422374400"
definition CALLBACK_PROGRAM_ID :: pubkey where
  "CALLBACK_PROGRAM_ID = 1341176694501392026639250359051627540475172113078789791144977402446905081856"
definition OUTBOX_INTENT_PROGRAM_ID :: pubkey where
  "OUTBOX_INTENT_PROGRAM_ID = 5435739880228775452845371622573503979635948935034856995680995162496849412096"
definition MAGIC_CONTEXT_PUBKEY :: pubkey where
  "MAGIC_CONTEXT_PUBKEY = 2384719995995694488334184341532601696774315088601791300512772824422443646976"
definition EPHEMERAL_VAULT_PUBKEY :: pubkey where
  "EPHEMERAL_VAULT_PUBKEY = 2384719998957576393998187454544447915542569594714881558902521178667331129272"
definition SYSTEM_PROGRAM_ID :: pubkey where "SYSTEM_PROGRAM_ID = 0"

section \<open>Access by instruction index\<close>

record instruction_account =
  ia_instruction_idx :: nat
  ia_tx_idx :: nat

definition meta_at :: "invoke_context \<Rightarrow> nat \<Rightarrow> (instruction_error, instruction_meta) result" where
  "meta_at C idx = (if idx < length (ic_metas C) then Inr (ic_metas C ! idx) else Inl MissingAccount)"

definition get_instruction_account_with_idx ::
    "invoke_context \<Rightarrow> nat \<Rightarrow> (instruction_error, instruction_account) result" where
  "get_instruction_account_with_idx C idx =
     rbind (meta_at C idx) (\<lambda>m. Inr \<lparr>ia_instruction_idx = idx, ia_tx_idx = im_index m\<rparr>)"

definition get_instruction_pubkey_with_idx ::
    "invoke_context \<Rightarrow> nat \<Rightarrow> (instruction_error, pubkey) result" where
  "get_instruction_pubkey_with_idx C idx =
     rbind (meta_at C idx) (\<lambda>m.
       if im_index m < length (ic_keys C) then Inr (ic_keys C ! im_index m) else Inl MissingAccount)"

definition get_writable_with_idx :: "invoke_context \<Rightarrow> nat \<Rightarrow> (instruction_error, bool) result" where
  "get_writable_with_idx C idx = rbind (meta_at C idx) (\<lambda>m. Inr (im_writable m))"

definition is_instruction_account_signer :: "invoke_context \<Rightarrow> nat \<Rightarrow> (instruction_error, bool) result" where
  "is_instruction_account_signer C idx = rbind (meta_at C idx) (\<lambda>m. Inr (im_signer m))"

definition is_writable :: "invoke_context \<Rightarrow> instruction_account \<Rightarrow> (instruction_error, bool) result" where
  "is_writable C a = get_writable_with_idx C (ia_instruction_idx a)"

text \<open>
  The handlers never hold two borrows of one account at once, so a borrow fails only when there
  is no such account. A change through \<^verbatim>\<open>borrow_mut\<close> is a function on the account, total or
  refused.
\<close>

definition borrow :: "instruction_account \<Rightarrow> (store, shared_account) prog" where
  "borrow a s = (if ia_tx_idx a < length s then Inr (s ! ia_tx_idx a, s) else Inl AccountBorrowFailed)"

definition borrow_mut_try ::
    "instruction_account \<Rightarrow> (shared_account \<Rightarrow> (instruction_error, shared_account) result) \<Rightarrow> (store, unit) prog" where
  "borrow_mut_try a f s =
     (if ia_tx_idx a < length s
      then rbind (f (s ! ia_tx_idx a)) (\<lambda>acc. Inr ((), s[ia_tx_idx a := acc]))
      else Inl AccountBorrowFailed)"

definition borrow_mut :: "instruction_account \<Rightarrow> (shared_account \<Rightarrow> shared_account) \<Rightarrow> (store, unit) prog" where
  "borrow_mut a f = borrow_mut_try a (\<lambda>acc. Inr (f acc))"

definition debit_instruction_account_at_index :: "invoke_context \<Rightarrow> nat \<Rightarrow> u64 \<Rightarrow> (store, unit) prog" where
  "debit_instruction_account_at_index C idx amount =
     pbind (plift (get_instruction_account_with_idx C idx)) (\<lambda>a.
     pbind (borrow a) (\<lambda>acc.
     pbind (plift (ok_or (checked_sub (acc_lamports acc) amount) InsufficientFunds)) (\<lambda>new_lamports.
     borrow_mut a (\<lambda>acc. acc\<lparr>acc_lamports := new_lamports\<rparr>))))"

definition credit_instruction_account_at_index :: "invoke_context \<Rightarrow> nat \<Rightarrow> u64 \<Rightarrow> (store, unit) prog" where
  "credit_instruction_account_at_index C idx amount =
     pbind (plift (get_instruction_account_with_idx C idx)) (\<lambda>a.
     pbind (borrow a) (\<lambda>acc.
     pbind (plift (ok_or (checked_add (acc_lamports acc) amount) ArithmeticOverflow)) (\<lambda>new_lamports.
     borrow_mut a (\<lambda>acc. acc\<lparr>acc_lamports := new_lamports\<rparr>))))"

section \<open>Shared account changes\<close>

definition set_account_mode ::
    "engine \<Rightarrow> account_mode \<Rightarrow> shared_account \<Rightarrow> (instruction_error, shared_account) result" where
  "set_account_mode E mode acc = ok_or (en_set_lifecycle E mode (sh_slot acc) acc) InvalidArgument"

definition mark_account_as_undelegated :: "engine \<Rightarrow> instruction_account \<Rightarrow> (store, unit) prog" where
  "mark_account_as_undelegated E a =
     borrow_mut_try a (\<lambda>acc. set_account_mode E Mode_Undelegating (acc\<lparr>acc_owner := DELEGATION_PROGRAM_ID\<rparr>))"

definition charge_delegated_payer ::
    "instruction_account \<Rightarrow> instruction_account \<Rightarrow> u64 \<Rightarrow> (store, unit) prog" where
  "charge_delegated_payer payer fee_vault fee =
     pbind (borrow payer) (\<lambda>p.
     pthen (pguard (sh_mode p = Mode_Delegated) IllegalOwner) (
     pbind (borrow fee_vault) (\<lambda>v.
     pthen (pguard (sh_mode v = Mode_Delegated) IllegalOwner) (
     if fee = 0 then pret ()
     else
       pbind (borrow payer) (\<lambda>p.
       pbind (plift (ok_or (checked_sub (acc_lamports p) fee) InsufficientFunds)) (\<lambda>new_payer_lamports.
       pthen (borrow_mut payer (\<lambda>acc. acc\<lparr>acc_lamports := new_payer_lamports\<rparr>)) (
       pbind (borrow fee_vault) (\<lambda>v.
       pbind (plift (ok_or (checked_add (acc_lamports v) fee) ArithmeticOverflow)) (\<lambda>new_vault_lamports.
       borrow_mut fee_vault (\<lambda>acc. acc\<lparr>acc_lamports := new_vault_lamports\<rparr>))))))))))"

section \<open>What the accounts of a transaction hold\<close>

definition total_lamports :: "store \<Rightarrow> nat" where
  "total_lamports s = sum_list (map (\<lambda>a. unat (acc_lamports a)) s)"

lemma borrow_Inr [prog_simps]:
  "borrow a s = Inr r \<longleftrightarrow> ia_tx_idx a < length s \<and> r = (s ! ia_tx_idx a, s)"
  by (auto simp: borrow_def)

lemma borrow_mut_try_Inr [prog_simps]:
  "borrow_mut_try a f s = Inr r \<longleftrightarrow>
     ia_tx_idx a < length s \<and> (\<exists>acc. f (s ! ia_tx_idx a) = Inr acc \<and> r = ((), s[ia_tx_idx a := acc]))"
  by (auto simp: borrow_mut_try_def rbind_Inr_iff)

lemma borrow_mut_Inr [prog_simps]:
  "borrow_mut a f s = Inr r \<longleftrightarrow> ia_tx_idx a < length s \<and> r = ((), s[ia_tx_idx a := f (s ! ia_tx_idx a)])"
  by (auto simp: borrow_mut_def borrow_mut_try_Inr)

lemma get_account_Inr [prog_simps]:
  "get_instruction_account_with_idx C idx = Inr a \<longleftrightarrow>
     idx < length (ic_metas C) \<and> a = \<lparr>ia_instruction_idx = idx, ia_tx_idx = im_index (ic_metas C ! idx)\<rparr>"
  by (auto simp: get_instruction_account_with_idx_def meta_at_def)

lemma get_pubkey_Inr [prog_simps]:
  "get_instruction_pubkey_with_idx C idx = Inr k \<longleftrightarrow>
     idx < length (ic_metas C) \<and> im_index (ic_metas C ! idx) < length (ic_keys C)
     \<and> k = ic_keys C ! im_index (ic_metas C ! idx)"
  by (auto simp: get_instruction_pubkey_with_idx_def meta_at_def)

lemma get_writable_Inr [prog_simps]:
  "get_writable_with_idx C idx = Inr w \<longleftrightarrow> idx < length (ic_metas C) \<and> w = im_writable (ic_metas C ! idx)"
  by (auto simp: get_writable_with_idx_def meta_at_def)

lemma is_signer_Inr [prog_simps]:
  "is_instruction_account_signer C idx = Inr w \<longleftrightarrow> idx < length (ic_metas C) \<and> w = im_signer (ic_metas C ! idx)"
  by (auto simp: is_instruction_account_signer_def meta_at_def)

lemma set_account_mode_Inr:
  assumes "engine_ok E" and "set_account_mode E m acc = Inr acc'"
  shows "acc' = acc\<lparr>sh_mode := m\<rparr>"
proof -
  have "acc' = acc\<lparr>sh_mode := m, sh_slot := sh_slot acc\<rparr>"
    using assms by (auto simp: engine_ok_def set_account_mode_def result_simps)
  then show ?thesis by (cases acc) simp
qed

lemma total_lamports_update:
  "i < length s \<Longrightarrow> total_lamports (s[i := a]) + unat (acc_lamports (s ! i)) = total_lamports s + unat (acc_lamports a)"
proof (induction s arbitrary: i)
  case (Cons x s)
  then show ?case by (cases i) (auto simp: total_lamports_def)
qed simp

lemma total_lamports_same:
  "i < length s \<Longrightarrow> acc_lamports a = acc_lamports (s ! i) \<Longrightarrow> total_lamports (s[i := a]) = total_lamports s"
  using total_lamports_update [of i s a] by simp

lemma debit_spec:
  assumes "debit_instruction_account_at_index C idx n s = Inr (u, s')"
  defines "i \<equiv> im_index (ic_metas C ! idx)"
  shows "idx < length (ic_metas C)" "i < length s" "n \<le> acc_lamports (s ! i)"
    "s' = s[i := (s ! i)\<lparr>acc_lamports := acc_lamports (s ! i) - n\<rparr>]"
    "total_lamports s' + unat n = total_lamports s"
proof -
  show a: "idx < length (ic_metas C)" "i < length s" "n \<le> acc_lamports (s ! i)"
    "s' = s[i := (s ! i)\<lparr>acc_lamports := acc_lamports (s ! i) - n\<rparr>]"
    using assms by (auto simp: debit_instruction_account_at_index_def prog_simps result_simps checked_sub_def split: if_splits)
  have "unat (acc_lamports (s ! i) - n) + unat n = unat (acc_lamports (s ! i))"
    using a(3) by (simp add: unat_sub word_le_nat_alt)
  then show "total_lamports s' + unat n = total_lamports s"
    using total_lamports_update [OF a(2), of "(s ! i)\<lparr>acc_lamports := acc_lamports (s ! i) - n\<rparr>"] a(4) by simp
qed

lemma credit_spec:
  assumes "credit_instruction_account_at_index C idx n s = Inr (u, s')"
  defines "i \<equiv> im_index (ic_metas C ! idx)"
  shows "idx < length (ic_metas C)" "i < length s" "unat (acc_lamports (s ! i)) + unat n < 2 ^ 64"
    "s' = s[i := (s ! i)\<lparr>acc_lamports := acc_lamports (s ! i) + n\<rparr>]"
    "total_lamports s' = total_lamports s + unat n"
proof -
  show a: "idx < length (ic_metas C)" "i < length s" "unat (acc_lamports (s ! i)) + unat n < 2 ^ 64"
    "s' = s[i := (s ! i)\<lparr>acc_lamports := acc_lamports (s ! i) + n\<rparr>]"
    using assms by (auto simp: credit_instruction_account_at_index_def prog_simps result_simps checked_add_def split: if_splits)
  have "unat (acc_lamports (s ! i) + n) = unat (acc_lamports (s ! i)) + unat n"
    using a(3) by (simp add: unat_word_ariths)
  then show "total_lamports s' = total_lamports s + unat n"
    using total_lamports_update [OF a(2), of "(s ! i)\<lparr>acc_lamports := acc_lamports (s ! i) + n\<rparr>"] a(4) by simp
qed

text \<open>A charge moves the fee, also when payer and vault are one account.\<close>

lemma charge_keeps_total:
  assumes "charge_delegated_payer p v fee s = Inr (u, s')"
  shows "total_lamports s' = total_lamports s \<and> length s' = length s"
proof (cases "fee = 0")
  case True
  with assms show ?thesis by (auto simp: charge_delegated_payer_def prog_simps)
next
  case False
  let ?i = "ia_tx_idx p" and ?j = "ia_tx_idx v"
  let ?s = "s[?i := (s ! ?i)\<lparr>acc_lamports := acc_lamports (s ! ?i) - fee\<rparr>]"
  from assms False have a: "?i < length s" "?j < length ?s" "fee \<le> acc_lamports (s ! ?i)"
    "unat (acc_lamports (?s ! ?j)) + unat fee < 2 ^ 64"
    "s' = ?s[?j := (?s ! ?j)\<lparr>acc_lamports := acc_lamports (?s ! ?j) + fee\<rparr>]"
    by (auto simp: charge_delegated_payer_def prog_simps result_simps checked_sub_def checked_add_def split: if_splits)
  have "unat (acc_lamports (s ! ?i) - fee) + unat fee = unat (acc_lamports (s ! ?i))"
    "unat (acc_lamports (?s ! ?j) + fee) = unat (acc_lamports (?s ! ?j)) + unat fee"
    using a(3,4) by (simp_all add: unat_sub word_le_nat_alt unat_word_ariths)
  then show ?thesis
    using total_lamports_update [OF a(1), of "(s ! ?i)\<lparr>acc_lamports := acc_lamports (s ! ?i) - fee\<rparr>"]
      total_lamports_update [OF a(2), of "(?s ! ?j)\<lparr>acc_lamports := acc_lamports (?s ! ?j) + fee\<rparr>"] a(5) by simp
qed

text \<open>Among distinct keys a key has one position.\<close>

lemma position_unique: "distinct K \<Longrightarrow> p < length K \<Longrightarrow> q < length K \<Longrightarrow> K ! q = K ! p \<Longrightarrow> q = p"
  by (simp add: nth_eq_iff_index_eq)

section \<open>What a change leaves alone\<close>

text \<open>A change keeps a view of the accounts: every account shows the same through it as before.\<close>

definition keeps :: "(shared_account \<Rightarrow> 'v) \<Rightarrow> store \<Rightarrow> store \<Rightarrow> bool" where
  "keeps f s s' \<longleftrightarrow> map f s' = map f s"

lemma keeps_refl [simp]: "keeps f s s"
  by (simp add: keeps_def)

lemma keeps_trans [trans]: "keeps f s t \<Longrightarrow> keeps f t u \<Longrightarrow> keeps f s u"
  by (simp add: keeps_def)

lemma keeps_length: "keeps f s s' \<Longrightarrow> length s' = length s"
  unfolding keeps_def by (rule map_eq_imp_length_eq)

text \<open>What can be read off a kept view is kept.\<close>

lemma keeps_view:
  assumes "keeps f s s'" and "\<And>a. h a = g (f a)"
  shows "keeps h s s'"
proof -
  have "map g (map f s') = map g (map f s)" using assms(1) by (simp add: keeps_def)
  moreover have "h = g \<circ> f" by (rule ext) (simp add: assms(2))
  ultimately show ?thesis by (simp add: keeps_def)
qed

lemma keeps_nth:
  assumes "keeps f s s'" and "i < length s"
  shows "f (s' ! i) = f (s ! i)"
proof -
  have "map f s' ! i = map f s ! i" using assms(1) by (simp add: keeps_def)
  then show ?thesis using assms(2) keeps_length [OF assms(1)] by simp
qed

lemma keeps_update:
  assumes "f a = f (s ! i)"
  shows "keeps f s (s[i := a])"
proof (cases "i < length s")
  case True
  then have "(map f s)[i := f (s ! i)] = map f s" using list_update_id [of "map f s" i] by simp
  then show ?thesis by (simp add: keeps_def map_update assms)
qed (simp add: list_update_beyond)

lemma mark_spec:
  assumes "engine_ok E" and "mark_account_as_undelegated E a s = Inr (u, s')"
  shows "ia_tx_idx a < length s \<and>
    s' = s[ia_tx_idx a := (s ! ia_tx_idx a)\<lparr>acc_owner := DELEGATION_PROGRAM_ID, sh_mode := Mode_Undelegating\<rparr>]"
proof -
  let ?i = "ia_tx_idx a"
  obtain acc where i: "?i < length s" and s': "s' = s[?i := acc]"
    and acc: "set_account_mode E Mode_Undelegating ((s ! ?i)\<lparr>acc_owner := DELEGATION_PROGRAM_ID\<rparr>) = Inr acc"
    using assms(2) by (auto simp: mark_account_as_undelegated_def borrow_mut_try_Inr)
  from set_account_mode_Inr [OF assms(1) acc] i s' show ?thesis by simp
qed

lemma charge_keeps:
  assumes "charge_delegated_payer p v fee s = Inr (u, s')"
    and f: "\<And>a l. f (a\<lparr>acc_lamports := l\<rparr>) = f a"
  shows "keeps f s s'"
proof (cases "fee = 0")
  case True
  with assms(1) show ?thesis by (auto simp: charge_delegated_payer_def prog_simps)
next
  case False
  let ?s = "s[ia_tx_idx p := (s ! ia_tx_idx p)\<lparr>acc_lamports := acc_lamports (s ! ia_tx_idx p) - fee\<rparr>]"
  obtain l where "s' = ?s[ia_tx_idx v := (?s ! ia_tx_idx v)\<lparr>acc_lamports := l\<rparr>]"
    using assms(1) False
    by (auto simp: charge_delegated_payer_def prog_simps result_simps checked_sub_def split: if_splits)
  moreover have "keeps f s ?s" by (rule keeps_update) (rule f)
  moreover have "keeps f ?s (?s[ia_tx_idx v := (?s ! ia_tx_idx v)\<lparr>acc_lamports := l\<rparr>])"
    by (rule keeps_update) (rule f)
  ultimately show ?thesis by (metis keeps_trans)
qed

text \<open>An engine that grants every transition, for the concrete instances.\<close>

definition example_engine :: engine where
  "example_engine = \<lparr>en_set_lifecycle = \<lambda>m sl a. Some (a\<lparr>sh_mode := m, sh_slot := sl\<rparr>),
     en_apply_commit_seq = \<lambda>n a. Some (a\<lparr>sh_commit_seq := n\<rparr>),
     en_find_program_address = \<lambda>seeds p. (example_address (seeds @ [Seed_Bump 255]) p, 255),
     en_create_program_address = \<lambda>seeds p. Some (example_address seeds p)\<rparr>"

lemma example_engine_ok: "engine_ok example_engine"
  by (simp add: engine_ok_def example_engine_def)

definition example_shared :: "u64 \<Rightarrow> bytes \<Rightarrow> pubkey \<Rightarrow> account_mode \<Rightarrow> shared_account" where
  "example_shared lamports d owner mode = \<lparr>acc_lamports = lamports, acc_data = d, acc_owner = owner,
     acc_executable = False, acc_rent_epoch = 0, sh_mode = mode, sh_slot = 1, sh_commit_seq = 0,
     sh_rent_funded = False\<rparr>"

end
