(* ===== verification/Ephemeral_Accounts.thy ===== *)
theory Ephemeral_Accounts
  imports Program_Context
begin

text \<open>
  Ephemeral accounts: \<^verbatim>\<open>programs/magic-program/src/ephemeral_accounts\<close> with the rent of
  \<^verbatim>\<open>programs/magic-interface/src/ephemeral.rs\<close>. Creating, resizing and closing an account moves
  its rent between a sponsor and one vault shared by all accounts; the theory shows that the vault
  always holds the rent of every account marked as funded, so that a close is always refunded.
\<close>

section \<open>Rent\<close>

definition EPHEMERAL_RENT_PER_BYTE :: u64 where "EPHEMERAL_RENT_PER_BYTE = 32"
definition EPHEMERAL_ACCOUNT_STATIC_SIZE :: u64 where "EPHEMERAL_ACCOUNT_STATIC_SIZE = 60"
definition MAX_DATA_LEN :: u32 where "MAX_DATA_LEN = 10485760"

definition rent_for :: "u32 \<Rightarrow> (instruction_error, u64) result" where
  "rent_for data_len =
     rbind (ok_or (checked_add (ucast data_len) EPHEMERAL_ACCOUNT_STATIC_SIZE) ArithmeticOverflow) (\<lambda>total_size.
     ok_or (checked_mul total_size EPHEMERAL_RENT_PER_BYTE) ArithmeticOverflow)"

text \<open>\<^verbatim>\<open>as i64\<close> reads the word as a signed number.\<close>

abbreviation as_i64 :: "u64 \<Rightarrow> int" where "as_i64 \<equiv> sint"

section \<open>Helpers and checks\<close>

definition SPONSOR_IDX :: nat where "SPONSOR_IDX = 0"
definition EPHEMERAL_IDX :: nat where "EPHEMERAL_IDX = 1"
definition VAULT_IDX :: nat where "VAULT_IDX = 2"

definition get_ephemeral_data_len :: "instruction_account \<Rightarrow> (store, u32) prog" where
  "get_ephemeral_data_len a =
     pbind (borrow a) (\<lambda>acc.
     if length (acc_data acc) < 2 ^ 32 then pret (of_nat (length (acc_data acc)))
     else plift (Inl ArithmeticOverflow))"

definition transfer_rent :: "invoke_context \<Rightarrow> int \<Rightarrow> (store, unit) prog" where
  "transfer_rent C amount =
     (if amount > 0
      then pthen (debit_instruction_account_at_index C SPONSOR_IDX (word_of_int amount))
                 (credit_instruction_account_at_index C VAULT_IDX (word_of_int amount))
      else pthen (credit_instruction_account_at_index C SPONSOR_IDX (word_of_int (- amount)))
                 (debit_instruction_account_at_index C VAULT_IDX (word_of_int (- amount))))"

definition validate_common :: "invoke_context \<Rightarrow> (instruction_error, pubkey) result" where
  "validate_common C =
     rbind (ic_caller C) (\<lambda>c.
     rbind (ok_or c IncorrectProgramId) (\<lambda>caller.
     rbind (is_instruction_account_signer C SPONSOR_IDX) (\<lambda>signed.
     rbind (ensure signed MissingRequiredSignature) (\<lambda>_.
     rbind (get_instruction_pubkey_with_idx C VAULT_IDX) (\<lambda>vault.
     rbind (ensure (vault = EPHEMERAL_VAULT_PUBKEY) InvalidAccountData) (\<lambda>_. Inr caller))))))"

definition validate_new_ephemeral :: "invoke_context \<Rightarrow> (store, instruction_account) prog" where
  "validate_new_ephemeral C =
     pbind (plift (is_instruction_account_signer C EPHEMERAL_IDX)) (\<lambda>signed.
     pthen (pguard signed MissingRequiredSignature) (
     pbind (plift (get_instruction_account_with_idx C EPHEMERAL_IDX)) (\<lambda>ephemeral.
     pbind (borrow ephemeral) (\<lambda>acc.
     pthen (pguard (acc_lamports acc = 0 \<and> acc_owner acc = SYSTEM_PROGRAM_ID) InvalidAccountData) (
     pret ephemeral)))))"

definition validate_existing_ephemeral :: "invoke_context \<Rightarrow> pubkey \<Rightarrow> (store, instruction_account) prog" where
  "validate_existing_ephemeral C caller_program_id =
     pbind (plift (get_instruction_account_with_idx C EPHEMERAL_IDX)) (\<lambda>ephemeral.
     pbind (borrow ephemeral) (\<lambda>acc.
     pthen (pguard (sh_mode acc = Mode_Magic \<and> sh_rent_funded acc) InvalidAccountData) (
     pthen (pguard (acc_owner acc = caller_program_id) InvalidAccountOwner) (
     pret ephemeral))))"

section \<open>Processors\<close>

text \<open>\<^verbatim>\<open>resize(len, 0)\<close> on the data of an account.\<close>

definition resize :: "nat \<Rightarrow> ('a account_scheme) \<Rightarrow> 'a account_scheme" where
  "resize n acc = acc\<lparr>acc_data := take n (acc_data acc) @ replicate (n - length (acc_data acc)) 0\<rparr>"

definition process_create_ephemeral_account :: "engine \<Rightarrow> invoke_context \<Rightarrow> u32 \<Rightarrow> (store, unit) prog" where
  "process_create_ephemeral_account E C data_len =
     pthen (pguard (data_len \<le> MAX_DATA_LEN) InvalidArgument) (
     pbind (plift (validate_common C)) (\<lambda>caller_program_id.
     pbind (validate_new_ephemeral C) (\<lambda>ephemeral.
     pbind (plift (rent_for data_len)) (\<lambda>rent.
     pthen (transfer_rent C (as_i64 rent)) (
     borrow_mut_try ephemeral (\<lambda>acc.
       rbind (set_account_mode E Mode_Magic
         (resize (unat data_len) (acc\<lparr>acc_lamports := 0, acc_owner := caller_program_id\<rparr>))) (\<lambda>acc.
       Inr (acc\<lparr>sh_rent_funded := True\<rparr>))))))))"

definition process_resize_ephemeral_account :: "engine \<Rightarrow> invoke_context \<Rightarrow> u32 \<Rightarrow> (store, unit) prog" where
  "process_resize_ephemeral_account E C new_data_len =
     pthen (pguard (new_data_len \<le> MAX_DATA_LEN) InvalidArgument) (
     pbind (plift (validate_common C)) (\<lambda>caller_program_id.
     pbind (validate_existing_ephemeral C caller_program_id) (\<lambda>ephemeral.
     pbind (get_ephemeral_data_len ephemeral) (\<lambda>old_len.
     pbind (plift (rent_for new_data_len)) (\<lambda>new_rent.
     pbind (plift (rent_for old_len)) (\<lambda>old_rent.
     pthen (transfer_rent C (as_i64 new_rent - as_i64 old_rent)) (
     borrow_mut ephemeral (resize (unat new_data_len)))))))))"

definition process_close_ephemeral_account :: "engine \<Rightarrow> invoke_context \<Rightarrow> (store, unit) prog" where
  "process_close_ephemeral_account E C =
     pbind (plift (validate_common C)) (\<lambda>caller_program_id.
     pbind (validate_existing_ephemeral C caller_program_id) (\<lambda>ephemeral.
     pbind (get_ephemeral_data_len ephemeral) (\<lambda>data_len.
     pbind (plift (rent_for data_len)) (\<lambda>refund.
     pthen (transfer_rent C (- as_i64 refund)) (
     borrow_mut_try ephemeral (\<lambda>acc.
       rbind (set_account_mode E Mode_Closed
         (resize 0 (acc\<lparr>acc_lamports := 0, acc_owner := SYSTEM_PROGRAM_ID\<rparr>))) (\<lambda>acc.
       Inr (acc\<lparr>sh_rent_funded := False\<rparr>))))))))"

datatype ephemeral_system_instruction =
    CreateEphemeralAccount u32
  | ResizeEphemeralAccount u32
  | CloseEphemeralAccount

fun ephemeral_system_entrypoint ::
    "engine \<Rightarrow> invoke_context \<Rightarrow> ephemeral_system_instruction \<Rightarrow> (store, unit) prog" where
  "ephemeral_system_entrypoint E C (CreateEphemeralAccount data_len) = process_create_ephemeral_account E C data_len"
| "ephemeral_system_entrypoint E C (ResizeEphemeralAccount new_data_len) =
     process_resize_ephemeral_account E C new_data_len"
| "ephemeral_system_entrypoint E C CloseEphemeralAccount = process_close_ephemeral_account E C"

section \<open>Deposits\<close>

text \<open>The rent of a data length, and what the vault owes to the funded accounts.\<close>

definition rent_nat :: "nat \<Rightarrow> nat" where
  "rent_nat len = (len + 60) * 32"

definition deposit :: "shared_account \<Rightarrow> nat" where
  "deposit acc = (if sh_rent_funded acc then rent_nat (length (acc_data acc)) else 0)"

definition deposits :: "store \<Rightarrow> nat" where
  "deposits s = sum_list (map deposit s)"

lemma sint_small:
  assumes "unat (w :: u64) < 2 ^ 63"
  shows "sint w = int (unat w)"
proof -
  have "int (unat w) < int (2 ^ 63)" by (rule of_nat_less_iff [THEN iffD2, OF assms])
  then have "uint w < 2 ^ 63" by simp
  moreover have "- (2 ^ 63) \<le> uint w" by (rule order_trans [of _ 0]) simp_all
  ultimately have "signed_take_bit 63 (uint w) = uint w" by (intro signed_take_bit_int_eq_self)
  then show ?thesis by (simp add: sint_uint)
qed

lemma rent_for_eq: "\<exists>r. rent_for n = Inr r \<and> unat r = rent_nat (unat n) \<and> as_i64 r = int (rent_nat (unat n)) \<and> 0 < unat r"
proof -
  have b: "unat n < 2 ^ 32" by (rule order_less_le_trans [OF unat_bound]) simp
  have u: "unat (ucast n :: u64) = unat n" using b by (simp add: unsigned_ucast_eq take_bit_nat_eq_self)
  obtain t where t: "checked_add (ucast n) EPHEMERAL_ACCOUNT_STATIC_SIZE = Some t"
    using b u by (simp add: checked_add_def EPHEMERAL_ACCOUNT_STATIC_SIZE_def)
  have ut: "unat t = unat n + 60"
    using unat_checked_add [OF t] u by (simp add: EPHEMERAL_ACCOUNT_STATIC_SIZE_def)
  obtain r where r: "checked_mul t EPHEMERAL_RENT_PER_BYTE = Some r"
    using b ut by (simp add: checked_mul_def EPHEMERAL_RENT_PER_BYTE_def)
  have ur: "unat r = rent_nat (unat n)"
    using unat_checked_mul [OF r] ut by (simp add: EPHEMERAL_RENT_PER_BYTE_def rent_nat_def)
  moreover have "as_i64 r = int (rent_nat (unat n))"
    using sint_small [of r] ur b by (simp add: rent_nat_def)
  moreover have "0 < rent_nat (unat n)" by (simp add: rent_nat_def)
  ultimately show ?thesis using t r by (simp add: rent_for_def)
qed

lemma deposits_update:
  "i < length s \<Longrightarrow> deposits (s[i := a]) + deposit (s ! i) = deposits s + deposit a"
proof (induction s arbitrary: i)
  case (Cons x s)
  then show ?case by (cases i) (auto simp: deposits_def)
qed simp

lemma length_resize [simp]: "length (acc_data (resize n acc)) = n"
  by (simp add: resize_def)

lemma resize_keeps [simp]:
  "acc_lamports (resize n acc) = acc_lamports acc" "acc_owner (resize n acc) = acc_owner acc"
  "shared_account.sh_rent_funded (resize n sacc) = sh_rent_funded sacc"
  "shared_account.sh_mode (resize n sacc) = sh_mode sacc"
  by (simp_all add: resize_def)

abbreviation sponsor_pos :: "invoke_context \<Rightarrow> nat" where "sponsor_pos C \<equiv> im_index (ic_metas C ! 0)"
abbreviation ephemeral_pos :: "invoke_context \<Rightarrow> nat" where "ephemeral_pos C \<equiv> im_index (ic_metas C ! 1)"
abbreviation vault_pos :: "invoke_context \<Rightarrow> nat" where "vault_pos C \<equiv> im_index (ic_metas C ! 2)"
abbreviation lamports_at :: "store \<Rightarrow> nat \<Rightarrow> nat" where "lamports_at s i \<equiv> unat (acc_lamports (s ! i))"

lemmas ephemeral_idx = SPONSOR_IDX_def EPHEMERAL_IDX_def VAULT_IDX_def

definition only_lamports :: "store \<Rightarrow> store \<Rightarrow> bool" where
  "only_lamports s s' \<longleftrightarrow> length s' = length s \<and>
     (\<forall>i < length s. \<exists>l. s' ! i = (s ! i)\<lparr>acc_lamports := l\<rparr>)"

lemma only_lamports_refl: "only_lamports s s"
proof -
  have "a = a\<lparr>acc_lamports := acc_lamports a\<rparr>" for a :: shared_account by simp
  then show ?thesis unfolding only_lamports_def by blast
qed

lemma only_lamports_set: "only_lamports s t \<Longrightarrow> only_lamports s (t[i := (t ! i)\<lparr>acc_lamports := l\<rparr>])"
proof -
  assume a: "only_lamports s t"
  have "\<exists>m. t[i := (t ! i)\<lparr>acc_lamports := l\<rparr>] ! j = (s ! j)\<lparr>acc_lamports := m\<rparr>" if j: "j < length s" for j
  proof -
    obtain m where m: "t ! j = (s ! j)\<lparr>acc_lamports := m\<rparr>" using a j by (auto simp: only_lamports_def)
    show ?thesis
    proof (cases "j = i")
      case True
      then show ?thesis using a j m by (intro exI [of _ l]) (simp add: only_lamports_def)
    next
      case False
      then show ?thesis using m by auto
    qed
  qed
  then show ?thesis using a by (simp add: only_lamports_def)
qed

lemma only_lamports_deposits: "only_lamports s s' \<Longrightarrow> deposits s' = deposits s"
proof -
  assume a: "only_lamports s s'"
  have "map deposit s' = map deposit s"
    by (rule nth_equalityI) (use a in \<open>auto simp: only_lamports_def deposit_def dest!: spec\<close>)
  then show ?thesis by (simp add: deposits_def)
qed

lemma word_of_int_small: "0 \<le> x \<Longrightarrow> x < 2 ^ 64 \<Longrightarrow> int (unat (word_of_int x :: u64)) = x"
  by (simp add: uint_word_of_int)

lemma transfer_rent_spec:
  assumes "transfer_rent C a s = Inr (u, s')" and "\<bar>a\<bar> < 2 ^ 64" and "sponsor_pos C \<noteq> vault_pos C"
  shows "int (lamports_at s' (vault_pos C)) = int (lamports_at s (vault_pos C)) + a \<and> only_lamports s s'
    \<and> vault_pos C < length s \<and> total_lamports s' = total_lamports s"
proof (cases "a > 0")
  case True
  let ?w = "word_of_int a :: u64"
  have w: "int (unat ?w) = a" by (rule word_of_int_small) (use True assms(2) in simp_all)
  obtain t where t: "debit_instruction_account_at_index C SPONSOR_IDX ?w s = Inr ((), t)"
      "credit_instruction_account_at_index C VAULT_IDX ?w t = Inr (u, s')"
    using assms(1) True by (auto simp: transfer_rent_def prog_simps)
  note d = debit_spec [OF t(1), unfolded ephemeral_idx] and c = credit_spec [OF t(2), unfolded ephemeral_idx]
  have "only_lamports s s'"
    unfolding c(4) d(4) by (intro only_lamports_set only_lamports_refl)
  moreover have "lamports_at s' (vault_pos C) = lamports_at s (vault_pos C) + unat ?w"
    using c(2,3) assms(3) unfolding c(4) d(4) by (simp add: unat_word_ariths)
  ultimately show ?thesis using w c(2,5) d(4,5) by simp
next
  case False
  define w :: u64 where "w = word_of_int (- a)"
  have w: "int (unat w) = - a" unfolding w_def by (rule word_of_int_small) (use False assms(2) in simp_all)
  obtain t where t: "credit_instruction_account_at_index C SPONSOR_IDX w s = Inr ((), t)"
      "debit_instruction_account_at_index C VAULT_IDX w t = Inr (u, s')"
    using assms(1) False unfolding w_def by (auto simp: transfer_rent_def prog_simps)
  note c = credit_spec [OF t(1), unfolded ephemeral_idx] and d = debit_spec [OF t(2), unfolded ephemeral_idx]
  have "only_lamports s s'"
    unfolding c(4) d(4) by (intro only_lamports_set only_lamports_refl)
  moreover have "lamports_at s' (vault_pos C) + unat w = lamports_at s (vault_pos C)"
    using d(2,3) assms(3) unfolding c(4) d(4) by (simp add: unat_sub word_le_nat_alt)
  then have "int (lamports_at s' (vault_pos C)) = int (lamports_at s (vault_pos C)) + a" using w by linarith
  moreover have "vault_pos C < length s" using d(2) c(4) by simp
  ultimately show ?thesis using d(5) c(5) by simp
qed

lemma transfer_rent_sponsor:
  assumes "transfer_rent C a s = Inr (u, s')"
  shows "sponsor_pos C < length s"
proof -
  obtain n t where "debit_instruction_account_at_index C SPONSOR_IDX n s = Inr ((), t) \<or>
      credit_instruction_account_at_index C SPONSOR_IDX n s = Inr ((), t)"
    using assms by (auto simp: transfer_rent_def prog_simps split: if_splits)
  then show ?thesis using debit_spec(2) credit_spec(2) unfolding ephemeral_idx by blast
qed

text \<open>A signature belongs to a key, so a position that signs is not the vault's.\<close>

lemma signer_not_vault:
  assumes "is_instruction_account_signer C i = Inr True" and "EPHEMERAL_VAULT_PUBKEY \<notin> ic_signers C"
    and "im_index (ic_metas C ! i) < length (ic_keys C)"
  shows "ic_keys C ! im_index (ic_metas C ! i) \<noteq> EPHEMERAL_VAULT_PUBKEY"
  using assms by (auto simp: ic_signers_def prog_simps)

lemma validate_common_spec:
  assumes "validate_common C = Inr caller" and "EPHEMERAL_VAULT_PUBKEY \<notin> ic_signers C"
    and "sponsor_pos C < length (ic_keys C)"
  shows "ic_keys C ! vault_pos C = EPHEMERAL_VAULT_PUBKEY" "vault_pos C < length (ic_keys C)"
    "sponsor_pos C \<noteq> vault_pos C" "ic_caller C = Inr (Some caller)"
  using assms signer_not_vault [of C 0]
  by (auto simp: validate_common_def result_simps prog_simps ephemeral_idx)

lemma data_len_spec:
  "get_ephemeral_data_len a s = Inr (n, s') \<Longrightarrow>
     s' = s \<and> ia_tx_idx a < length s \<and> unat n = length (acc_data (s ! ia_tx_idx a))"
  by (auto simp: get_ephemeral_data_len_def prog_simps unat_of_nat take_bit_nat_eq_self split: if_splits)

text \<open>No instruction takes more out of the vault than the deposits it removes.\<close>

definition vault_gain :: "nat \<Rightarrow> store \<Rightarrow> store \<Rightarrow> bool" where
  "vault_gain v s s' \<longleftrightarrow> length s' = length s \<and> deposit (s' ! v) = 0 \<and>
     lamports_at s v + deposits s' \<le> lamports_at s' v + deposits s"

lemma set_ephemeral_gain:
  assumes "only_lamports s t" and "int (lamports_at t v) = int (lamports_at s v) + int (deposit a) - int d"
    and "d \<le> deposit (s ! e)" and "e < length s" "e \<noteq> v" "v < length s" and "deposit (s ! v) = 0"
  shows "vault_gain v s (t[e := a])"
proof -
  have l: "length t = length s" using assms(1) by (simp add: only_lamports_def)
  have same: "deposit (t ! i) = deposit (s ! i)" if "i < length s" for i
    using assms(1) that by (auto simp: only_lamports_def deposit_def dest!: spec)
  have "deposits (t[e := a]) + deposit (s ! e) = deposits s + deposit a"
    using deposits_update [of e t a] assms(4) l same only_lamports_deposits [OF assms(1)] by simp
  moreover have "int (lamports_at t v) + int d = int (lamports_at s v) + int (deposit a)" using assms(2) by linarith
  then have "lamports_at t v + d = lamports_at s v + deposit a" by (simp only: of_nat_add [symmetric] of_nat_eq_iff)
  ultimately show ?thesis using assms(3,5,7) l same [OF assms(6)] by (simp add: vault_gain_def)
qed

lemma rent_le: "rent_nat (unat (n :: u32)) < 2 ^ 40"
  using unat_bound [of n] by (simp add: rent_nat_def)

lemma create_gain:
  assumes E: "engine_ok E" and r: "process_create_ephemeral_account E C n s = Inr (u, s')"
    and K: "EPHEMERAL_VAULT_PUBKEY \<notin> ic_signers C" "length s = length (ic_keys C)" "deposit (s ! vault_pos C) = 0"
  shows "vault_gain (vault_pos C) s s'"
proof -
  obtain caller a rent t acc where c: "validate_common C = Inr caller" "validate_new_ephemeral C s = Inr (a, s)"
      "rent_for n = Inr rent" "transfer_rent C (as_i64 rent) s = Inr ((), t)"
    and acc: "set_account_mode E Mode_Magic (resize (unat n) ((t ! ia_tx_idx a)\<lparr>acc_lamports := 0, acc_owner := caller\<rparr>)) = Inr acc"
      "s' = t[ia_tx_idx a := acc\<lparr>sh_rent_funded := True\<rparr>]"
    using r by (auto simp: process_create_ephemeral_account_def prog_simps result_simps validate_new_ephemeral_def)
  have a: "ia_tx_idx a = ephemeral_pos C" "ephemeral_pos C < length s" "is_instruction_account_signer C 1 = Inr True"
    using c(2) by (auto simp: validate_new_ephemeral_def prog_simps ephemeral_idx)
  have sp: "sponsor_pos C < length (ic_keys C)" using transfer_rent_sponsor [OF c(4)] K(2) by simp
  note v = validate_common_spec [OF c(1) K(1) sp]
  have e: "ephemeral_pos C \<noteq> vault_pos C" using signer_not_vault [OF a(3) K(1)] a(2) K(2) v(1) by auto
  have rent: "as_i64 rent = int (rent_nat (unat n))" using rent_for_eq [of n] c(3) by auto
  then have "\<bar>as_i64 rent\<bar> < 2 ^ 64" using rent_le [of n] by simp
  note t = transfer_rent_spec [OF c(4) this v(3)]
  have "deposit (acc\<lparr>sh_rent_funded := True\<rparr>) = rent_nat (unat n)"
    using set_account_mode_Inr [OF E acc(1)] by (simp add: deposit_def)
  then show ?thesis
    unfolding acc(2) a(1) using t rent e a(2) K(2,3) v(2)
    by (intro set_ephemeral_gain [where d = 0]) auto
qed

lemma existing_spec:
  assumes "validate_existing_ephemeral C caller s = Inr (a, s')"
  shows "s' = s" "ia_tx_idx a = ephemeral_pos C" "ephemeral_pos C < length s" "sh_rent_funded (s ! ephemeral_pos C)"
    "sh_mode (s ! ephemeral_pos C) = Mode_Magic" "acc_owner (s ! ephemeral_pos C) = caller"
  using assms by (auto simp: validate_existing_ephemeral_def prog_simps ephemeral_idx)

lemma funded_not_vault:
  "sh_rent_funded (s ! e) \<Longrightarrow> deposit (s ! v) = 0 \<Longrightarrow> e \<noteq> v"
  by (auto simp: deposit_def rent_nat_def)

lemma resize_gain:
  assumes r: "process_resize_ephemeral_account E C n s = Inr (u, s')"
    and K: "EPHEMERAL_VAULT_PUBKEY \<notin> ic_signers C" "length s = length (ic_keys C)" "deposit (s ! vault_pos C) = 0"
  shows "vault_gain (vault_pos C) s s'"
proof -
  obtain caller a len new_rent old_rent t where c: "validate_common C = Inr caller"
      "validate_existing_ephemeral C caller s = Inr (a, s)" "get_ephemeral_data_len a s = Inr (len, s)"
      "rent_for n = Inr new_rent" "rent_for len = Inr old_rent"
      "transfer_rent C (as_i64 new_rent - as_i64 old_rent) s = Inr ((), t)"
      "s' = t[ia_tx_idx a := resize (unat n) (t ! ia_tx_idx a)]"
    using r existing_spec(1) data_len_spec
    by (auto simp: process_resize_ephemeral_account_def prog_simps) metis
  note x = existing_spec [OF c(2)]
  have sp: "sponsor_pos C < length (ic_keys C)" using transfer_rent_sponsor [OF c(6)] K(2) by simp
  note v = validate_common_spec [OF c(1) K(1) sp]
  have e: "ephemeral_pos C \<noteq> vault_pos C" by (rule funded_not_vault [OF x(4) K(3)])
  have rent: "as_i64 new_rent = int (rent_nat (unat n))" "as_i64 old_rent = int (rent_nat (unat len))"
    using rent_for_eq [of n] rent_for_eq [of len] c(4,5) by auto
  then have "\<bar>as_i64 new_rent - as_i64 old_rent\<bar> < 2 ^ 64" using rent_le [of n] rent_le [of len] by simp
  note t = transfer_rent_spec [OF c(6) this v(3)]
  have len: "unat len = length (acc_data (s ! ephemeral_pos C))" using data_len_spec [OF c(3)] x(2) by simp
  obtain l where l: "t ! ephemeral_pos C = (s ! ephemeral_pos C)\<lparr>acc_lamports := l\<rparr>"
    using t x(3) by (auto simp: only_lamports_def)
  have "deposit (resize (unat n) (t ! ephemeral_pos C)) = rent_nat (unat n)"
    "deposit (s ! ephemeral_pos C) = rent_nat (unat len)"
    using x(4) len by (simp_all add: deposit_def l [simplified])
  then show ?thesis
    unfolding c(7) x(2) using t rent e x(3) K(2,3) v(2)
    by (intro set_ephemeral_gain [where d = "rent_nat (unat len)"]) auto
qed

lemma close_gain:
  assumes E: "engine_ok E" and r: "process_close_ephemeral_account E C s = Inr (u, s')"
    and K: "EPHEMERAL_VAULT_PUBKEY \<notin> ic_signers C" "length s = length (ic_keys C)" "deposit (s ! vault_pos C) = 0"
  shows "vault_gain (vault_pos C) s s'"
proof -
  obtain caller a len refund t acc where c: "validate_common C = Inr caller"
      "validate_existing_ephemeral C caller s = Inr (a, s)" "get_ephemeral_data_len a s = Inr (len, s)"
      "rent_for len = Inr refund" "transfer_rent C (- as_i64 refund) s = Inr ((), t)"
    and acc: "set_account_mode E Mode_Closed (resize 0 ((t ! ia_tx_idx a)\<lparr>acc_lamports := 0, acc_owner := SYSTEM_PROGRAM_ID\<rparr>)) = Inr acc"
      "s' = t[ia_tx_idx a := acc\<lparr>sh_rent_funded := False\<rparr>]"
    using r existing_spec(1) data_len_spec
    by (auto simp: process_close_ephemeral_account_def prog_simps result_simps) metis
  note x = existing_spec [OF c(2)]
  have sp: "sponsor_pos C < length (ic_keys C)" using transfer_rent_sponsor [OF c(5)] K(2) by simp
  note v = validate_common_spec [OF c(1) K(1) sp]
  have e: "ephemeral_pos C \<noteq> vault_pos C" by (rule funded_not_vault [OF x(4) K(3)])
  have rent: "as_i64 refund = int (rent_nat (unat len))" using rent_for_eq [of len] c(4) by auto
  then have "\<bar>- as_i64 refund\<bar> < 2 ^ 64" using rent_le [of len] by simp
  note t = transfer_rent_spec [OF c(5) this v(3)]
  have "unat len = length (acc_data (s ! ephemeral_pos C))" using data_len_spec [OF c(3)] x(2) by simp
  then have "deposit (s ! ephemeral_pos C) = rent_nat (unat len)" "deposit (acc\<lparr>sh_rent_funded := False\<rparr>) = 0"
    using x(4) by (simp_all add: deposit_def)
  then show ?thesis
    unfolding acc(2) x(2) using t rent e x(3) K(2,3) v(2)
    by (intro set_ephemeral_gain [where d = "rent_nat (unat len)"]) auto
qed

lemma entrypoint_gain:
  assumes "engine_ok E" and "ephemeral_system_entrypoint E C ix s = Inr (u, s')"
    and "EPHEMERAL_VAULT_PUBKEY \<notin> ic_signers C" "length s = length (ic_keys C)" "deposit (s ! vault_pos C) = 0"
  shows "vault_gain (vault_pos C) s s'"
  using assms by (cases ix) (auto intro: create_gain resize_gain close_gain)

lemma entrypoint_vault:
  assumes "ephemeral_system_entrypoint E C ix s = Inr (u, s')"
  shows "vault_pos C < length (ic_keys C) \<and> ic_keys C ! vault_pos C = EPHEMERAL_VAULT_PUBKEY"
  using assms
  by (cases ix) (auto simp: process_create_ephemeral_account_def process_resize_ephemeral_account_def
      process_close_ephemeral_account_def prog_simps validate_common_def result_simps ephemeral_idx)

section \<open>The bank over time\<close>

text \<open>
  From a bank without funded accounts: ephemeral instructions that the vault does not sign, and
  anything else that takes nothing out of the vault and funds no account or enlarges a funded one.
\<close>

definition bank_initial :: "pubkey list \<Rightarrow> store \<Rightarrow> bool" where
  "bank_initial K s \<longleftrightarrow> length s = length K \<and> list_all (\<lambda>a. \<not> sh_rent_funded a) s"

inductive bank_step :: "engine \<Rightarrow> pubkey list \<Rightarrow> nat \<Rightarrow> store \<Rightarrow> store \<Rightarrow> bool" for E K v where
  instruction: "ic_keys C = K \<Longrightarrow> EPHEMERAL_VAULT_PUBKEY \<notin> ic_signers C \<Longrightarrow>
    ephemeral_system_entrypoint E C ix s = Inr ((), s') \<Longrightarrow> bank_step E K v s s'"
| other: "length s' = length s \<Longrightarrow> lamports_at s v \<le> lamports_at s' v \<Longrightarrow>
    list_all2 (\<lambda>a' a. deposit a' \<le> deposit a) s' s \<Longrightarrow> bank_step E K v s s'"

definition bank_ok :: "engine \<Rightarrow> pubkey list \<Rightarrow> nat \<Rightarrow> bool" where
  "bank_ok E K v \<longleftrightarrow> engine_ok E \<and> distinct K \<and> v < length K \<and> K ! v = EPHEMERAL_VAULT_PUBKEY"

definition covered :: "pubkey list \<Rightarrow> nat \<Rightarrow> store \<Rightarrow> bool" where
  "covered K v s \<longleftrightarrow> length s = length K \<and> deposit (s ! v) = 0 \<and> deposits s \<le> lamports_at s v"

lemma initial_covered:
  assumes "v < length K" and "bank_initial K s"
  shows "covered K v s"
proof -
  have z: "map deposit s = map (\<lambda>_. 0) s" using assms(2) by (auto simp: bank_initial_def deposit_def list_all_iff)
  then have "deposits s = 0" by (simp add: deposits_def)
  moreover have "deposit (s ! v) = 0" using assms by (simp add: bank_initial_def deposit_def list_all_length)
  ultimately show ?thesis using assms(2) by (simp add: bank_initial_def covered_def)
qed

lemma step_covered:
  assumes ok: "bank_ok E K v" and "bank_step E K v s s'" and cov: "covered K v s"
  shows "covered K v s'"
  using assms(2)
proof cases
  case (instruction C ix)
  have "vault_pos C = v"
    by (rule position_unique [of K]) (use entrypoint_vault [OF instruction(3)] instruction(1) ok in \<open>simp_all add: bank_ok_def\<close>)
  then show ?thesis
    using entrypoint_gain [OF _ instruction(3,2)] cov instruction(1) ok by (auto simp: covered_def vault_gain_def bank_ok_def)
next
  case other
  have "deposits s' \<le> deposits s"
    using other(3) unfolding deposits_def by (induction rule: list_all2_induct) auto
  moreover have "deposit (s' ! v) \<le> deposit (s ! v)"
    by (rule list_all2_nthD [OF other(3)]) (use cov other(1) ok in \<open>simp add: covered_def bank_ok_def\<close>)
  ultimately show ?thesis using cov other(1,2) by (simp add: covered_def)
qed

interpretation bank: invariant_system "\<lambda>s. bank_ok E K v \<and> bank_initial K s" "bank_step E K v"
    "\<lambda>s. bank_ok E K v \<and> covered K v s" for E K v
  by unfold_locales (auto simp: bank_ok_def intro: initial_covered step_covered)

lemma deposit_le: "i < length s \<Longrightarrow> deposit (s ! i) \<le> deposits s"
  unfolding deposits_def by (intro member_le_sum_list) auto

lemma close_runs:
  assumes cov: "covered K v s" and C: "ic_keys C = K" "EPHEMERAL_VAULT_PUBKEY \<notin> ic_signers C"
    and c: "validate_common C = Inr caller" "validate_existing_ephemeral C caller s = Inr (a, s)"
    and v: "vault_pos C = v" "v < length K" and sp: "sponsor_pos C < length K"
    and len: "length (acc_data (s ! ephemeral_pos C)) < 2 ^ 32"
    and room: "lamports_at s (sponsor_pos C) + deposit (s ! ephemeral_pos C) < 2 ^ 64"
    and grant: "\<And>acc. en_set_lifecycle E Mode_Closed (sh_slot acc) acc \<noteq> None"
  shows "\<exists>s'. process_close_ephemeral_account E C s = Inr ((), s')"
proof -
  note x = existing_spec [OF c(2)]
  have m: "0 < length (ic_metas C)" "2 < length (ic_metas C)"
    using c(1) by (auto simp: validate_common_def result_simps prog_simps ephemeral_idx)
  have ls: "length s = length K" using cov by (simp add: covered_def)
  note vc = validate_common_spec [OF c(1) C(2)]
  let ?n = "of_nat (length (acc_data (s ! ephemeral_pos C))) :: u32"
  have n: "unat ?n = length (acc_data (s ! ephemeral_pos C))" using len by (simp add: unat_of_nat take_bit_nat_eq_self)
  have dl: "get_ephemeral_data_len a s = Inr (?n, s)"
    using x(2,3) len by (simp add: get_ephemeral_data_len_def pbind_def borrow_def pret_def)
  obtain r where r: "rent_for ?n = Inr r" "unat r = deposit (s ! ephemeral_pos C)" "as_i64 r = int (unat r)" "0 < unat r"
    using rent_for_eq [of ?n] n x(4) by (auto simp: deposit_def)
  have ne: "sponsor_pos C \<noteq> v" using vc(3) sp C(1) v(1) by simp
  let ?t = "s[sponsor_pos C := (s ! sponsor_pos C)\<lparr>acc_lamports := acc_lamports (s ! sponsor_pos C) + r\<rparr>]"
  have "credit_instruction_account_at_index C SPONSOR_IDX r s = Inr ((), ?t)"
    using m sp ls room r(2)
    by (simp add: credit_instruction_account_at_index_def prog_simps result_simps ephemeral_idx checked_add_def)
  moreover have "r \<le> acc_lamports (?t ! v)"
    using cov deposit_le [OF x(3)] r(2) ne v(2) ls by (simp add: covered_def word_le_nat_alt)
  then have "debit_instruction_account_at_index C VAULT_IDX r ?t =
      Inr ((), ?t[v := (?t ! v)\<lparr>acc_lamports := acc_lamports (?t ! v) - r\<rparr>])"
    using m v ls
    by (simp add: debit_instruction_account_at_index_def prog_simps result_simps ephemeral_idx checked_sub_def)
  ultimately obtain t where "transfer_rent C (- as_i64 r) s = Inr ((), t)" "length t = length s"
    using r(3,4) by (simp add: transfer_rent_def prog_simps)
  then show ?thesis
    using c dl r(1) x(2,3) grant
    by (auto simp: process_close_ephemeral_account_def prog_simps result_simps set_account_mode_def)
qed

section \<open>Properties\<close>


definition example_ephemeral_context :: invoke_context where
  "example_ephemeral_context = \<lparr>ic_program = 1,
     ic_metas = [\<lparr>im_index = 0, im_signer = True, im_writable = True\<rparr>,
       \<lparr>im_index = 1, im_signer = True, im_writable = True\<rparr>, \<lparr>im_index = 2, im_signer = False, im_writable = True\<rparr>],
     ic_keys = [7, 8, EPHEMERAL_VAULT_PUBKEY], ic_caller = Inr (Some 5), ic_clock_slot = None, ic_blockhash = 0,
     ic_authority = 3\<rparr>"

definition example_bank :: store where
  "example_bank = [example_shared 10000 [] 5 Mode_Delegated, example_shared 0 [] SYSTEM_PROGRAM_ID Mode_Missing,
     example_shared 0 [] 5 Mode_Magic]"

lemma example_created:
  "\<exists>s. ephemeral_system_entrypoint example_engine example_ephemeral_context (CreateEphemeralAccount 4) example_bank =
     Inr ((), s) \<and> deposits s = 2048 \<and> length s = 3 \<and> lamports_at s 0 = 7952
     \<and> length (acc_data (s ! 1)) = 4
     \<and> validate_existing_ephemeral example_ephemeral_context 5 s = Inr (\<lparr>ia_instruction_idx = 1, ia_tx_idx = 1\<rparr>, s)"
  by (simp add: process_create_ephemeral_account_def MAX_DATA_LEN_def validate_common_def validate_new_ephemeral_def
      example_ephemeral_context_def example_bank_def example_shared_def ephemeral_idx pthen_def pbind_def pguard_def
      plift_def pret_def is_instruction_account_signer_def meta_at_def get_instruction_pubkey_with_idx_def
      get_instruction_account_with_idx_def borrow_def rent_for_def checked_add_def checked_mul_def
      EPHEMERAL_ACCOUNT_STATIC_SIZE_def EPHEMERAL_RENT_PER_BYTE_def transfer_rent_def
      debit_instruction_account_at_index_def credit_instruction_account_at_index_def checked_sub_def
      borrow_mut_def borrow_mut_try_def set_account_mode_def example_engine_def resize_def deposits_def deposit_def
      rent_nat_def validate_existing_ephemeral_def)


end
