(* ===== verification/Token_Accounts.thy ===== *)
theory Token_Accounts
  imports Program_Context
begin

text \<open>
  Token accounts: \<^verbatim>\<open>core/src/token_programs.rs\<close> with \<^verbatim>\<open>CommittedAccount::from_account_shared\<close> of
  \<^verbatim>\<open>core/src/intent/types.rs\<close>. A delegated associated token account (ATA) is a local view of an
  account of the eATA program and is committed as that account; the theory models both layouts,
  the projections between them and the normalisation of local clones, and shows that the commit of
  an ATA carries exactly its owner, mint and amount. The token crates' packing is a parameter.
\<close>

section \<open>Programs and layouts\<close>

definition TOKEN_PROGRAM_ID :: pubkey where
  "TOKEN_PROGRAM_ID = 3106054211088883198575105191760876350940303353676611666299516346430146937001"
definition TOKEN_2022_PROGRAM_ID :: pubkey where
  "TOKEN_2022_PROGRAM_ID = 3106054213517619466333521364411816883583182866730275619636245252638471457788"
definition ASSOCIATED_TOKEN_PROGRAM_ID :: pubkey where
  "ASSOCIATED_TOKEN_PROGRAM_ID = 63590851936555425018482094543133168213809614203979002813017495418995103889497"
definition EATA_PROGRAM_ID :: pubkey where
  "EATA_PROGRAM_ID = 2941420185882399078888244172175362915004659405079884481823968490653844201287"
definition MAGIC_ATA_CLOSE_AUTHORITY :: pubkey where
  "MAGIC_ATA_CLOSE_AUTHORITY = 3010411246019284437244212147455409835011261068170932596721577831542904848384"
definition EPHEMERAL_ATA_LEN :: nat where "EPHEMERAL_ATA_LEN = 80"
definition LEGACY_EPHEMERAL_ATA_LEN :: nat where "LEGACY_EPHEMERAL_ATA_LEN = 72"

record token_account_common =
  ta_mint :: pubkey
  ta_owner :: pubkey
  ta_amount :: u64
  ta_is_native :: "u64 option"
  ta_close_authority :: "pubkey option"

record ata_info =
  ati_mint :: pubkey
  ati_owner :: pubkey

record magic_ata_info =
  mai_ata_pubkey :: pubkey
  mai_token_program :: pubkey
  mai_wallet_owner :: pubkey
  mai_mint :: pubkey
  mai_amount :: u64

record ephemeral_ata =
  ea_owner :: pubkey
  ea_mint :: pubkey
  ea_amount :: u64
  ea_bump :: u8

text \<open>
  The token crates. An unpacked account has the fields read here and a remainder \<open>'t\<close>; packing
  writes an account into existing data and may fail for the legacy program only.
\<close>

record 't token_lib =
  tl_unpack :: "bytes \<Rightarrow> (token_account_common \<times> 't) option"
  tl_pack :: "token_account_common \<times> 't \<Rightarrow> bytes \<Rightarrow> bytes option"
  tl_unpack_2022 :: "bytes \<Rightarrow> (token_account_common \<times> 't) option"
  tl_pack_base_2022 :: "token_account_common \<times> 't \<Rightarrow> bytes \<Rightarrow> bytes"
  tl_native_mint :: pubkey
  tl_native_mint_2022 :: pubkey
  tl_minimum_balance :: "nat \<Rightarrow> u64"
  tl_try_find_program_address :: "seed list \<Rightarrow> pubkey \<Rightarrow> (pubkey \<times> u8) option"

section \<open>Addresses\<close>

definition derive_ata_with_token_program :: "engine \<Rightarrow> pubkey \<Rightarrow> pubkey \<Rightarrow> pubkey \<Rightarrow> pubkey" where
  "derive_ata_with_token_program E owner mint token_program =
     fst (en_find_program_address E [Seed_Key owner, Seed_Key token_program, Seed_Key mint] ASSOCIATED_TOKEN_PROGRAM_ID)"

definition derive_ata :: "engine \<Rightarrow> pubkey \<Rightarrow> pubkey \<Rightarrow> pubkey" where
  "derive_ata E owner mint = derive_ata_with_token_program E owner mint TOKEN_PROGRAM_ID"

definition try_derive_ata_address_and_bump_with_token_program ::
    "'t token_lib \<Rightarrow> pubkey \<Rightarrow> pubkey \<Rightarrow> pubkey \<Rightarrow> (pubkey \<times> u8) option" where
  "try_derive_ata_address_and_bump_with_token_program T owner mint token_program =
     tl_try_find_program_address T [Seed_Key owner, Seed_Key token_program, Seed_Key mint] ASSOCIATED_TOKEN_PROGRAM_ID"

definition try_derive_ata_address_and_bump :: "'t token_lib \<Rightarrow> pubkey \<Rightarrow> pubkey \<Rightarrow> (pubkey \<times> u8) option" where
  "try_derive_ata_address_and_bump T owner mint =
     try_derive_ata_address_and_bump_with_token_program T owner mint TOKEN_PROGRAM_ID"

record supported_ata_pubkeys =
  sap_legacy :: "pubkey option"
  sap_token_2022 :: "pubkey option"

definition token_2022_first :: "supported_ata_pubkeys \<Rightarrow> pubkey option list" where
  "token_2022_first s = [sap_token_2022 s, sap_legacy s]"

definition sap_contains :: "supported_ata_pubkeys \<Rightarrow> pubkey \<Rightarrow> bool" where
  "sap_contains s k = (sap_legacy s = Some k \<or> sap_token_2022 s = Some k)"

definition try_derive_supported_ata_pubkeys :: "'t token_lib \<Rightarrow> pubkey \<Rightarrow> pubkey \<Rightarrow> supported_ata_pubkeys" where
  "try_derive_supported_ata_pubkeys T owner mint =
     \<lparr>sap_legacy = map_option fst (try_derive_ata_address_and_bump_with_token_program T owner mint TOKEN_PROGRAM_ID),
      sap_token_2022 =
        map_option fst (try_derive_ata_address_and_bump_with_token_program T owner mint TOKEN_2022_PROGRAM_ID)\<rparr>"

definition derive_eata :: "engine \<Rightarrow> pubkey \<Rightarrow> pubkey \<Rightarrow> pubkey" where
  "derive_eata E owner mint = fst (en_find_program_address E [Seed_Key owner, Seed_Key mint] EATA_PROGRAM_ID)"

definition try_derive_eata_address_and_bump :: "'t token_lib \<Rightarrow> pubkey \<Rightarrow> pubkey \<Rightarrow> (pubkey \<times> u8) option" where
  "try_derive_eata_address_and_bump T owner mint =
     tl_try_find_program_address T [Seed_Key owner, Seed_Key mint] EATA_PROGRAM_ID"

section \<open>Inspecting token accounts\<close>

definition is_supported_token_program :: "pubkey \<Rightarrow> bool" where
  "is_supported_token_program p = (p = TOKEN_PROGRAM_ID \<or> p = TOKEN_2022_PROGRAM_ID)"

definition is_ata :: "engine \<Rightarrow> pubkey \<Rightarrow> pubkey \<Rightarrow> bytes \<Rightarrow> ata_info option" where
  "is_ata E account_pubkey token_program_owner data =
     (if \<not> is_supported_token_program token_program_owner \<or> length data < 64 then None
      else let mint = pubkey_of_bytes (take 32 data);
               wallet_owner = pubkey_of_bytes (take 32 (drop 32 data));
               derived = fst (en_find_program_address E
                 [Seed_Key wallet_owner, Seed_Key token_program_owner, Seed_Key mint] ASSOCIATED_TOKEN_PROGRAM_ID)
           in if derived = account_pubkey then Some \<lparr>ati_mint = mint, ati_owner = wallet_owner\<rparr> else None)"

definition try_get_base_ata_mirror_info :: "engine \<Rightarrow> pubkey \<Rightarrow> shared_account \<Rightarrow> ata_info option" where
  "try_get_base_ata_mirror_info E k acc =
     (if sh_mode acc \<noteq> Mode_Mirrored then None else is_ata E k (acc_owner acc) (acc_data acc))"

definition try_remap_ata_to_eata ::
    "engine \<Rightarrow> 't token_lib \<Rightarrow> pubkey \<Rightarrow> shared_account \<Rightarrow> (pubkey \<times> ephemeral_ata) option" where
  "try_remap_ata_to_eata E T k acc =
     (if \<not> is_supported_token_program (acc_owner acc) \<or> sh_mode acc \<noteq> Mode_Delegated
         \<or> length (acc_data acc) < 72 then None
      else let d = acc_data acc;
               mint = pubkey_of_bytes (take 32 d);
               owner = pubkey_of_bytes (take 32 (drop 32 d));
               amount = of_nat (le_nat (take 8 (drop 64 d)))
           in case try_derive_eata_address_and_bump T owner mint of
                None \<Rightarrow> None
              | Some (eata_pubkey, bump) \<Rightarrow>
                  if derive_ata_with_token_program E owner mint (acc_owner acc) \<noteq> k then None
                  else Some (eata_pubkey, \<lparr>ea_owner = owner, ea_mint = mint, ea_amount = amount, ea_bump = bump\<rparr>))"

definition parse_token_account_for_magic_ata ::
    "'t token_lib \<Rightarrow> pubkey \<Rightarrow> bytes \<Rightarrow> token_account_common option" where
  "parse_token_account_for_magic_ata T token_program data =
     (if token_program = TOKEN_PROGRAM_ID then map_option fst (tl_unpack T data)
      else if token_program = TOKEN_2022_PROGRAM_ID then map_option fst (tl_unpack_2022 T data)
      else None)"

definition try_get_magic_ata_info ::
    "engine \<Rightarrow> 't token_lib \<Rightarrow> pubkey \<Rightarrow> shared_account \<Rightarrow> magic_ata_info option" where
  "try_get_magic_ata_info E T k acc =
     (if sh_mode acc \<noteq> Mode_Magic then None
      else case parse_token_account_for_magic_ata T (acc_owner acc) (acc_data acc) of
        None \<Rightarrow> None
      | Some t \<Rightarrow>
          if ta_close_authority t \<noteq> Some MAGIC_ATA_CLOSE_AUTHORITY \<or> ta_is_native t \<noteq> None then None
          else if ta_owner t = 0 \<or> ta_mint t = 0 then None
          else if derive_ata_with_token_program E (ta_owner t) (ta_mint t) (acc_owner acc) \<noteq> k then None
          else Some \<lparr>mai_ata_pubkey = k, mai_token_program = acc_owner acc, mai_wallet_owner = ta_owner t,
                 mai_mint = ta_mint t, mai_amount = ta_amount t\<rparr>)"

section \<open>Normalising local clones\<close>

datatype native_token_normalization =
    NotNative
  | Normalized (ntn_data: bytes) (ntn_rent_exempt_reserve: u64)
  | Invalid

definition normalize_legacy_native_token_account ::
    "'t token_lib \<Rightarrow> shared_account \<Rightarrow> native_token_normalization" where
  "normalize_legacy_native_token_account T acc =
     (case tl_unpack T (acc_data acc) of
        None \<Rightarrow> Invalid
      | Some (t, rest) \<Rightarrow>
          if ta_mint t \<noteq> tl_native_mint T then NotNative
          else case ta_is_native t of
            None \<Rightarrow> NotNative
          | Some reserve \<Rightarrow>
              (case tl_pack T (t\<lparr>ta_is_native := None, ta_close_authority := Some 0\<rparr>, rest) (acc_data acc) of
                 None \<Rightarrow> Invalid
               | Some d \<Rightarrow> Normalized d reserve))"

definition normalize_token_2022_native_token_account ::
    "'t token_lib \<Rightarrow> shared_account \<Rightarrow> native_token_normalization" where
  "normalize_token_2022_native_token_account T acc =
     (case tl_unpack_2022 T (acc_data acc) of
        None \<Rightarrow> Invalid
      | Some (t, rest) \<Rightarrow>
          if ta_mint t \<noteq> tl_native_mint_2022 T then NotNative
          else case ta_is_native t of
            None \<Rightarrow> NotNative
          | Some reserve \<Rightarrow>
              Normalized (tl_pack_base_2022 T (t\<lparr>ta_is_native := None, ta_close_authority := Some 0\<rparr>, rest)
                (acc_data acc)) reserve)"

definition normalize_native_token_account_for_local_clone ::
    "'t token_lib \<Rightarrow> shared_account \<Rightarrow> shared_account option" where
  "normalize_native_token_account_for_local_clone T acc =
     (let normalized =
        (if acc_owner acc = TOKEN_PROGRAM_ID then normalize_legacy_native_token_account T acc
         else if acc_owner acc = TOKEN_2022_PROGRAM_ID then normalize_token_2022_native_token_account T acc
         else NotNative)
      in case normalized of
           NotNative \<Rightarrow> Some acc
         | Invalid \<Rightarrow> None
         | Normalized d reserve \<Rightarrow> Some (acc\<lparr>acc_data := d, acc_lamports := reserve\<rparr>))"

text \<open>The reserve of a native account, which its projection holds instead of its lamports.\<close>

definition native_reserve :: "pubkey \<Rightarrow> token_account_common \<Rightarrow> u64 option" where
  "native_reserve native_mint t = (if ta_mint t = native_mint then ta_is_native t else None)"

definition closed_off :: "u64 option \<Rightarrow> token_account_common \<Rightarrow> token_account_common" where
  "closed_off reserve t =
     (if reserve \<noteq> None then t\<lparr>ta_is_native := None\<rparr> else t)\<lparr>ta_close_authority := Some 0\<rparr>"

definition with_reserve :: "u64 option \<Rightarrow> shared_account \<Rightarrow> shared_account" where
  "with_reserve reserve acc = (case reserve of None \<Rightarrow> acc | Some r \<Rightarrow> acc\<lparr>acc_lamports := r\<rparr>)"

definition normalize_legacy_projected_token_account ::
    "'t token_lib \<Rightarrow> shared_account \<Rightarrow> shared_account option" where
  "normalize_legacy_projected_token_account T acc =
     (case tl_unpack T (acc_data acc) of
        None \<Rightarrow> None
      | Some (t, rest) \<Rightarrow>
          let reserve = native_reserve (tl_native_mint T) t
          in case tl_pack T (closed_off reserve t, rest) (acc_data acc) of
               None \<Rightarrow> None
             | Some d \<Rightarrow> Some (with_reserve reserve (acc\<lparr>acc_data := d\<rparr>)))"

definition normalize_token_2022_projected_token_account ::
    "'t token_lib \<Rightarrow> shared_account \<Rightarrow> shared_account option" where
  "normalize_token_2022_projected_token_account T acc =
     (case tl_unpack_2022 T (acc_data acc) of
        None \<Rightarrow> None
      | Some (t, rest) \<Rightarrow>
          let reserve = native_reserve (tl_native_mint_2022 T) t
          in Some (with_reserve reserve
               (acc\<lparr>acc_data := tl_pack_base_2022 T (closed_off reserve t, rest) (acc_data acc)\<rparr>)))"

definition normalize_projected_token_account_for_local_clone ::
    "'t token_lib \<Rightarrow> shared_account \<Rightarrow> shared_account option" where
  "normalize_projected_token_account_for_local_clone T acc =
     (if acc_owner acc = TOKEN_PROGRAM_ID then normalize_legacy_projected_token_account T acc
      else if acc_owner acc = TOKEN_2022_PROGRAM_ID then normalize_token_2022_projected_token_account T acc
      else Some acc)"

section \<open>The eATA account\<close>

definition ephemeral_ata_try_from_account_data :: "'t token_lib \<Rightarrow> bytes \<Rightarrow> ephemeral_ata option" where
  "ephemeral_ata_try_from_account_data T d =
     (if length d < 64 then None
      else let owner = pubkey_of_bytes (take 32 d); mint = pubkey_of_bytes (take 32 (drop 32 d))
           in if mint = 0 \<or> length d < 72 then None
              else let amount = of_nat (le_nat (take 8 (drop 64 d)))
                   in if length d = EPHEMERAL_ATA_LEN
                      then Some \<lparr>ea_owner = owner, ea_mint = mint, ea_amount = amount, ea_bump = d ! 72\<rparr>
                      else if length d = LEGACY_EPHEMERAL_ATA_LEN
                      then map_option (\<lambda>(_, bump). \<lparr>ea_owner = owner, ea_mint = mint, ea_amount = amount, ea_bump = bump\<rparr>)
                             (try_derive_eata_address_and_bump T owner mint)
                      else None)"

definition project_into_ata_account ::
    "'t token_lib \<Rightarrow> ephemeral_ata \<Rightarrow> shared_account \<Rightarrow> shared_account option" where
  "project_into_ata_account T e ata =
     (if \<not> is_supported_token_program (acc_owner ata) \<or> length (acc_data ata) < 72 then None
      else if take 32 (acc_data ata) \<noteq> pubkey_bytes (ea_mint e) \<or>
              take 32 (drop 32 (acc_data ata)) \<noteq> pubkey_bytes (ea_owner e) then None
      else normalize_projected_token_account_for_local_clone T
             (ata\<lparr>acc_data := take 64 (acc_data ata) @ le_bytes 8 (unat (ea_amount e)) @ drop 72 (acc_data ata)\<rparr>))"

definition account_from_ephemeral_ata :: "'t token_lib \<Rightarrow> ephemeral_ata \<Rightarrow> account" where
  "account_from_ephemeral_ata T e =
     (let d = pubkey_bytes (ea_owner e) @ pubkey_bytes (ea_mint e) @ le_bytes 8 (unat (ea_amount e))
                @ [ea_bump e] @ replicate 7 0
      in \<lparr>acc_lamports = tl_minimum_balance T (length d), acc_data = d, acc_owner = EATA_PROGRAM_ID,
          acc_executable = False, acc_rent_epoch = 0\<rparr>)"

definition from_account_shared :: "engine \<Rightarrow> 't token_lib \<Rightarrow> pubkey \<Rightarrow> shared_account \<Rightarrow> committed_account" where
  "from_account_shared E T k acc =
     (let remote_slot = sh_slot acc; commit_id = ucast (sh_commit_seq acc)
      in case try_remap_ata_to_eata E T k acc of
           Some (eata_pubkey, eata) \<Rightarrow>
             \<lparr>ca_pubkey = eata_pubkey, ca_account = account_from_ephemeral_ata T eata,
              ca_remote_slot = remote_slot, ca_commit_id = commit_id\<rparr>
         | None \<Rightarrow>
             \<lparr>ca_pubkey = k,
              ca_account = \<lparr>acc_lamports = acc_lamports acc, acc_data = acc_data acc, acc_owner = acc_owner acc,
                acc_executable = acc_executable acc, acc_rent_epoch = acc_rent_epoch acc\<rparr>,
              ca_remote_slot = remote_slot, ca_commit_id = commit_id\<rparr>)"

section \<open>What is committed of an ATA\<close>

lemma eata_round_trip:
  assumes "ea_mint e \<noteq> 0"
  shows "ephemeral_ata_try_from_account_data T (acc_data (account_from_ephemeral_ata T e)) = Some e"
  using assms
  by (simp add: ephemeral_ata_try_from_account_data_def account_from_ephemeral_ata_def EPHEMERAL_ATA_LEN_def
      le_nat_unat nth_append)

lemma from_account_shared_simps [simp]:
  "ca_commit_id (from_account_shared E T k acc) = ucast (sh_commit_seq acc)"
  "ca_remote_slot (from_account_shared E T k acc) = sh_slot acc"
  by (simp_all add: from_account_shared_def Let_def split: option.split prod.split)

lemma remap_fields:
  assumes "try_remap_ata_to_eata E T k acc = Some (ek, e)"
  defines "d \<equiv> acc_data acc"
  shows "is_supported_token_program (acc_owner acc)" "sh_mode acc = Mode_Delegated" "72 \<le> length d"
    "pubkey_bytes (ea_mint e) = take 32 d" "pubkey_bytes (ea_owner e) = take 32 (drop 32 d)"
    "le_bytes 8 (unat (ea_amount e)) = take 8 (drop 64 d)"
    "k = derive_ata_with_token_program E (ea_owner e) (ea_mint e) (acc_owner acc)"
    "try_derive_eata_address_and_bump T (ea_owner e) (ea_mint e) = Some (ek, ea_bump e)"
  using assms
  by (auto simp: try_remap_ata_to_eata_def Let_def pubkey_bytes_inverse le_bytes_u64_inverse
      split: if_splits option.splits)

lemma split_token_data:
  assumes "72 \<le> length d"
  shows "take 64 d @ take 8 (drop 64 d) @ drop 72 d = d"
proof -
  have "take 8 (drop 64 d) @ drop 72 d = drop 64 d"
    using append_take_drop_id [of 8 "drop 64 d"] by (simp add: add.commute)
  then show ?thesis by simp
qed


text \<open>A token crate that lays accounts out without a remainder, and a delegated account.\<close>

definition example_token_lib :: "unit token_lib" where
  "example_token_lib =
     (let unpack = (\<lambda>d. if length d < 72 then None
            else Some (\<lparr>ta_mint = pubkey_of_bytes (take 32 d), ta_owner = pubkey_of_bytes (take 32 (drop 32 d)),
                   ta_amount = of_nat (le_nat (take 8 (drop 64 d))), ta_is_native = None,
                   ta_close_authority = None\<rparr>, ()));
          pack = (\<lambda>(t, _) d. pubkey_bytes (ta_mint t) @ pubkey_bytes (ta_owner t)
                   @ le_bytes 8 (unat (ta_amount t)) @ drop 72 d)
      in \<lparr>tl_unpack = unpack, tl_pack = \<lambda>t d. Some (pack t d), tl_unpack_2022 = unpack,
          tl_pack_base_2022 = pack, tl_native_mint = 1, tl_native_mint_2022 = 2,
          tl_minimum_balance = \<lambda>n. of_nat (6960 * (n + 128)),
          tl_try_find_program_address = \<lambda>seeds p. Some (example_address (seeds @ [Seed_Bump 255]) p, 255)\<rparr>)"

definition example_ata :: shared_account where
  "example_ata = example_shared 2039280 (pubkey_bytes 7 @ pubkey_bytes 9 @ le_bytes 8 1000 @ replicate 93 0)
     TOKEN_PROGRAM_ID Mode_Delegated"

definition example_ata_key :: pubkey where
  "example_ata_key = derive_ata_with_token_program example_engine 9 7 TOKEN_PROGRAM_ID"

definition example_eata :: ephemeral_ata where
  "example_eata = \<lparr>ea_owner = 9, ea_mint = 7, ea_amount = 1000, ea_bump = 255\<rparr>"

lemma example_remap:
  "try_remap_ata_to_eata example_engine example_token_lib example_ata_key example_ata =
     Some (example_address [Seed_Key 9, Seed_Key 7, Seed_Bump 255] EATA_PROGRAM_ID, example_eata)"
  using le_nat_bytes [of 1000 8]
  by (simp add: try_remap_ata_to_eata_def example_ata_def example_shared_def is_supported_token_program_def
      example_ata_key_def example_eata_def try_derive_eata_address_and_bump_def example_token_lib_def Let_def)


end
