(* ===== verification/Magic_Context.thy ===== *)
theory Magic_Context
  imports Token_Accounts
begin

text \<open>
  The queue of scheduled intents, \<^verbatim>\<open>programs/magic-program/src/magic_context.rs\<close>, and the steps
  the scheduling handlers share, \<^verbatim>\<open>intent_bundles/schedule/mod.rs\<close>. The queue lives in the data of
  one account; the theory shows that what is written there is read back, the shortcut for a zeroed
  account included, and that the accessors of the raw bytes agree with the decoded queue.
\<close>

section \<open>The queue\<close>

record magic_context =
  mc_intent_id :: u64
  mc_scheduled_base_intents :: "scheduled_intent_bundle list"

definition default_magic_context :: magic_context where
  "default_magic_context = \<lparr>mc_intent_id = 0, mc_scheduled_base_intents = []\<rparr>"

text \<open>
  What the handlers call outside the program: the engine, the token crates, the encoding of the
  queue and of outbox records, the estimate whether an intent can be settled at all
  (\<^verbatim>\<open>core/src/intent/limits.rs\<close>, which compiles the delegation program's instructions into
  transactions), and the frame of a cross-program call.
\<close>

record 't magic_env =
  me_engine :: engine
  me_tokens :: "'t token_lib"
  me_encode :: "magic_context \<Rightarrow> bytes option"
  me_decode :: "bytes \<Rightarrow> magic_context option"
  me_within_limits :: "magic_intent_bundle \<Rightarrow> pubkey \<Rightarrow> bool"

text \<open>
  The encoding begins with the next id and the number of intents, eight bytes each, and is read
  back with any number of zeros behind it.
\<close>

definition context_codec_ok :: "('t, 'x) magic_env_scheme \<Rightarrow> bool" where
  "context_codec_ok M \<longleftrightarrow>
     (\<forall>c bs. me_encode M c = Some bs \<longrightarrow>
        (\<forall>n. me_decode M (bs @ replicate n 0) = Some c) \<and> 16 \<le> length bs \<and>
        take 8 bs = le_bytes 8 (unat (mc_intent_id c)) \<and>
        take 8 (drop 8 bs) = le_bytes 8 (length (mc_scheduled_base_intents c)) \<and>
        length (mc_scheduled_base_intents c) < 2 ^ 64)"

definition is_zeroed :: "bytes \<Rightarrow> bool" where
  "is_zeroed buf =
     (list_all (\<lambda>i. take 8 (drop (8 * i) buf) = replicate 8 0) [0..<length buf div 8] \<and>
      (let remainder = drop (8 * (length buf div 8)) buf in remainder = replicate (length remainder) 0))"

definition magic_context_deserialize :: "('t, 'x) magic_env_scheme \<Rightarrow> bytes \<Rightarrow> magic_context option" where
  "magic_context_deserialize M d = (if d = [] \<or> is_zeroed d then Some default_magic_context else me_decode M d)"

definition write_to ::
    "('t, 'x) magic_env_scheme \<Rightarrow> magic_context \<Rightarrow> bytes \<Rightarrow> (instruction_error, bytes) result" where
  "write_to M c d =
     rbind (ok_or (me_encode M c) GenericError) (\<lambda>bs.
     if length bs > length d then Inl AccountDataTooSmall
     else Inr (bs @ replicate (length d - length bs) 0))"

definition next_intent_id :: "magic_context \<Rightarrow> u64 \<times> magic_context" where
  "next_intent_id c = (mc_intent_id c, c\<lparr>mc_intent_id := mc_intent_id c + 1\<rparr>)"

definition add_scheduled_action :: "scheduled_intent_bundle \<Rightarrow> magic_context \<Rightarrow> magic_context" where
  "add_scheduled_action i c = c\<lparr>mc_scheduled_base_intents := mc_scheduled_base_intents c @ [i]\<rparr>"

definition take_front_scheduled_commits ::
    "nat \<Rightarrow> magic_context \<Rightarrow> scheduled_intent_bundle list \<times> magic_context" where
  "take_front_scheduled_commits n c =
     (let n = min n (length (mc_scheduled_base_intents c))
      in (take n (mc_scheduled_base_intents c),
          c\<lparr>mc_scheduled_base_intents := drop n (mc_scheduled_base_intents c)\<rparr>))"

definition context_intent_id :: "bytes \<Rightarrow> u64 option" where
  "context_intent_id d = (if length d < 8 then None else Some (of_nat (le_nat (take 8 d))))"

definition scheduled_intents_len :: "bytes \<Rightarrow> u64 option" where
  "scheduled_intents_len d =
     (if is_zeroed d \<or> length d < 16 then None else Some (of_nat (le_nat (take 8 (drop 8 d)))))"

definition has_scheduled_intents :: "bytes \<Rightarrow> bool" where
  "has_scheduled_intents d = ((case scheduled_intents_len d of None \<Rightarrow> 0 | Some n \<Rightarrow> n) \<noteq> 0)"

section \<open>Shared steps\<close>

definition PAYER_IDX :: nat where "PAYER_IDX = 0"
definition MAGIC_CONTEXT_IDX :: nat where "MAGIC_CONTEXT_IDX = PAYER_IDX + 1"
definition COMMIT_LIMIT :: u64 where "COMMIT_LIMIT = 10"
definition COMMIT_LIMIT_ERR :: u32 where "COMMIT_LIMIT_ERR = 0xA0000000"
definition INTENT_TOO_LARGE_ERR :: u32 where "INTENT_TOO_LARGE_ERR = 0xA0000002"
definition CALLBACK_SEED :: string where "CALLBACK_SEED = ''callback-executor''"
definition CALLBACK_SIGNER :: "engine \<Rightarrow> pubkey" where
  "CALLBACK_SIGNER E = fst (en_find_program_address E [Seed_Bytes CALLBACK_SEED] CALLBACK_PROGRAM_ID)"

definition get_parent_program_id :: "invoke_context \<Rightarrow> (instruction_error, pubkey option) result" where
  "get_parent_program_id C = ic_caller C"

definition get_clock :: "invoke_context \<Rightarrow> (instruction_error, slot) result" where
  "get_clock C = ok_or (ic_clock_slot C) UnsupportedSysvar"

definition check_magic_context_id :: "invoke_context \<Rightarrow> nat \<Rightarrow> (instruction_error, unit) result" where
  "check_magic_context_id C idx =
     rbind (get_instruction_pubkey_with_idx C idx) (\<lambda>k. ensure (k = MAGIC_CONTEXT_PUBKEY) MissingAccount)"

definition check_commit_limits :: "committed_account list \<Rightarrow> (instruction_error, unit) result" where
  "check_commit_limits commits =
     (let limit_exceeded = foldl (\<lambda>b a. if ca_commit_id a > COMMIT_LIMIT then True else b) False commits
      in if limit_exceeded then Inl (Custom COMMIT_LIMIT_ERR) else Inr ())"

definition magic_fee_vault_pubkey :: "engine \<Rightarrow> invoke_context \<Rightarrow> pubkey" where
  "magic_fee_vault_pubkey E C =
     fst (en_find_program_address E [Seed_Bytes ''magic-fee-vault'', Seed_Key (ic_authority C)] DELEGATION_PROGRAM_ID)"

definition try_get_fee_vault ::
    "engine \<Rightarrow> invoke_context \<Rightarrow> nat \<Rightarrow> nat \<Rightarrow> (store, instruction_account option \<times> nat) prog" where
  "try_get_fee_vault E C payer_idx fee_vault_idx =
     pbind (plift (get_instruction_account_with_idx C payer_idx)) (\<lambda>payer_account.
     pbind (borrow payer_account) (\<lambda>payer.
     let payer_requires_fee_vault = (sh_mode payer = Mode_Delegated) in
     pbind
       (case get_instruction_pubkey_with_idx C fee_vault_idx of
          Inr vault_pubkey \<Rightarrow>
            if vault_pubkey = magic_fee_vault_pubkey E C then
              pbind (plift (get_instruction_account_with_idx C fee_vault_idx)) (\<lambda>vault_account.
              pbind (plift (get_writable_with_idx C fee_vault_idx)) (\<lambda>is_vault_writable.
              pbind (borrow vault_account) (\<lambda>vault.
              pthen (pguard (sh_mode vault = Mode_Delegated \<and> is_vault_writable) IllegalOwner)
                (pret (Some vault_account)))))
            else pret None
        | Inl e \<Rightarrow> if e = MissingAccount then pret None else plift (Inl e))
       (\<lambda>fee_vault.
     let next_account_idx = fee_vault_idx + (if fee_vault \<noteq> None then 1 else 0) in
     if payer_requires_fee_vault
     then pthen (pguard (fee_vault \<noteq> None) MissingAccount) (pret (fee_vault, next_account_idx))
     else pret (None, next_account_idx))))"

definition validate_callback_accounts ::
    "engine \<Rightarrow> invoke_context \<Rightarrow> account_meta list \<Rightarrow> (instruction_error, unit) result" where
  "validate_callback_accounts E C accounts_meta = try_for_each (\<lambda>m.
     if am_is_writable m \<and> am_pubkey m = CALLBACK_SIGNER E then Inl Immutable
     else if am_is_signer m \<and> am_pubkey m \<noteq> CALLBACK_SIGNER E then Inl IncorrectAuthority
     else if am_pubkey m = ic_authority C then Inl IncorrectAuthority
     else Inr ()) accounts_meta"

definition validate_intent_size ::
    "('t, 'x) magic_env_scheme \<Rightarrow> invoke_context \<Rightarrow> magic_intent_bundle \<Rightarrow> (instruction_error, unit) result" where
  "validate_intent_size M C intent =
     (if me_within_limits M intent (ic_authority C) then Inr () else Inl (Custom INTENT_TOO_LARGE_ERR))"

definition reserve_commit_id :: "engine \<Rightarrow> invoke_context \<Rightarrow> instruction_account \<Rightarrow> (store, u64) prog" where
  "reserve_commit_id E C a =
     pbind (plift (is_writable C a)) (\<lambda>w.
     pthen (pguard w ReadonlyDataModified) (
     pbind (borrow a) (\<lambda>acc.
     pbind (plift (ok_or (checked_add (sh_commit_seq acc) 1) ArithmeticOverflow)) (\<lambda>commit_seq.
     pthen (borrow_mut_try a (\<lambda>acc. ok_or (en_apply_commit_seq E commit_seq acc) InvalidAccountData))
       (pret (ucast commit_seq))))))"

definition validate_commit_schedule_permissions ::
    "invoke_context \<Rightarrow> pubkey \<Rightarrow> pubkey \<Rightarrow> pubkey option \<Rightarrow> (instruction_error, unit) result" where
  "validate_commit_schedule_permissions C committee_owner committee_pubkey parent_program_id =
     (let is_token_account_owner =
            (committee_owner = TOKEN_PROGRAM_ID \<or> committee_owner = TOKEN_2022_PROGRAM_ID);
          is_eata_token_program_call = (parent_program_id = Some EATA_PROGRAM_ID \<and> is_token_account_owner)
      in if parent_program_id \<noteq> Some committee_owner \<and> committee_pubkey \<notin> ic_signers C
            \<and> ic_authority C \<notin> ic_signers C \<and> \<not> is_eata_token_program_call
         then (case parent_program_id of None \<Rightarrow> Inl InvalidInstructionData | Some _ \<Rightarrow> Inl InvalidAccountOwner)
         else Inr ())"

text \<open>The handlers read the queue from its account, and write it back.\<close>

definition read_context ::
    "('t, 'x) magic_env_scheme \<Rightarrow> instruction_account \<Rightarrow> instruction_error \<Rightarrow> (store, magic_context) prog" where
  "read_context M a e = pbind (borrow a) (\<lambda>acc. plift (ok_or (magic_context_deserialize M (acc_data acc)) e))"

definition write_context ::
    "('t, 'x) magic_env_scheme \<Rightarrow> instruction_account \<Rightarrow> magic_context \<Rightarrow> (store, unit) prog" where
  "write_context M a c =
     borrow_mut_try a (\<lambda>acc. rbind (write_to M c (acc_data acc)) (\<lambda>d. Inr (acc\<lparr>acc_data := d\<rparr>)))"

section \<open>What is written is read back\<close>

lemma nth_eq_replicate: "xs = replicate (length xs) x \<longleftrightarrow> (\<forall>i < length xs. xs ! i = x)"
  by (metis nth_equalityI length_replicate nth_replicate)

lemma is_zeroed_iff: "is_zeroed buf \<longleftrightarrow> (\<forall>i < length buf. buf ! i = 0)"
proof
  assume z: "is_zeroed buf"
  show "\<forall>i < length buf. buf ! i = 0"
  proof (intro allI impI)
    fix i assume i: "i < length buf"
    show "buf ! i = 0"
    proof (cases "i < 8 * (length buf div 8)")
      case True
      then have "i div 8 < length buf div 8" by (simp add: div_less_iff_less_mult mult.commute)
      then have "take 8 (drop (8 * (i div 8)) buf) = replicate 8 0" using z by (simp add: is_zeroed_def list_all_iff)
      then have "take 8 (drop (8 * (i div 8)) buf) ! (i mod 8) = 0" by simp
      then show ?thesis using i by (simp add: mult_div_mod_eq)
    next
      case False
      let ?q = "8 * (length buf div 8)"
      have "\<forall>k < length buf - ?q. buf ! (?q + k) = 0"
        using z by (simp add: is_zeroed_def Let_def nth_eq_replicate)
      moreover have "i - ?q < length buf - ?q" "?q + (i - ?q) = i" using False i by simp_all
      ultimately show ?thesis by metis
    qed
  qed
next
  assume z: "\<forall>i < length buf. buf ! i = 0"
  have "take 8 (drop (8 * k) buf) = replicate 8 0" if "k < length buf div 8" for k
  proof -
    have "8 * k + 8 \<le> length buf" using that by (metis Suc_leI add.commute div_times_less_eq_dividend dual_order.trans mult.commute mult_Suc_right mult_le_mono2)
    then show ?thesis using z by (intro nth_equalityI) auto
  qed
  then show "is_zeroed buf" using z by (auto simp: is_zeroed_def list_all_iff Let_def nth_eq_replicate)
qed

lemma write_to_Inr:
  assumes "context_codec_ok M" and "write_to M c d = Inr d'"
  obtains bs n where "me_encode M c = Some bs" "d' = bs @ replicate n 0" "length d' = length d"
    "\<forall>n. me_decode M (bs @ replicate n 0) = Some c" "16 \<le> length bs"
    "take 8 bs = le_bytes 8 (unat (mc_intent_id c))"
    "take 8 (drop 8 bs) = le_bytes 8 (length (mc_scheduled_base_intents c))"
    "length (mc_scheduled_base_intents c) < 2 ^ 64"
proof -
  obtain bs where bs: "me_encode M c = Some bs" "length bs \<le> length d" "d' = bs @ replicate (length d - length bs) 0"
    using assms(2) by (auto simp: write_to_def result_simps split: if_splits)
  show ?thesis by (rule that [OF bs(1,3)]) (use assms(1) bs in \<open>auto simp: context_codec_ok_def\<close>)
qed

lemma zero_bytes_nat: "\<forall>i < length bs. bs ! i = 0 \<Longrightarrow> le_nat bs = 0"
proof (induction bs)
  case (Cons b bs)
  from Cons.prems have "b = 0" "\<forall>i < length bs. bs ! i = 0" by (force, force)
  then show ?case using Cons.IH by simp
qed simp

lemma zeroed_context:
  assumes "context_codec_ok M" and "write_to M c d = Inr d'" and "is_zeroed d'"
  shows "c = default_magic_context"
proof -
  obtain bs n where bs: "d' = bs @ replicate n 0" "16 \<le> length bs"
    "take 8 bs = le_bytes 8 (unat (mc_intent_id c))"
    "take 8 (drop 8 bs) = le_bytes 8 (length (mc_scheduled_base_intents c))"
    "length (mc_scheduled_base_intents c) < 2 ^ 64"
    by (rule write_to_Inr [OF assms(1,2)])
  have z: "\<forall>i < length bs. bs ! i = 0"
    using assms(3) bs(1) by (auto simp: is_zeroed_iff nth_append split: if_splits)
  then have "le_nat (take 8 bs) = 0" "le_nat (take 8 (drop 8 bs)) = 0"
    using bs(2) by (auto intro!: zero_bytes_nat)
  then have "unat (mc_intent_id c) = 0" "length (mc_scheduled_base_intents c) = 0"
    using bs(3-5) le_nat_bytes [of "length (mc_scheduled_base_intents c)" 8] by (simp_all add: le_nat_unat)
  then show ?thesis by (cases c) (simp add: default_magic_context_def unsigned_eq_0_iff)
qed

lemma context_round_trip:
  assumes "context_codec_ok M" and "write_to M c d = Inr d'"
  shows "magic_context_deserialize M d' = Some c" "length d' = length d" "d' \<noteq> []"
proof -
  obtain bs n where bs: "d' = bs @ replicate n 0" "length d' = length d" "16 \<le> length bs"
    "\<forall>n. me_decode M (bs @ replicate n 0) = Some c"
    by (rule write_to_Inr [OF assms])
  show "magic_context_deserialize M d' = Some c"
    using bs(1,3,4) zeroed_context [OF assms] by (auto simp: magic_context_deserialize_def)
  show "length d' = length d" "d' \<noteq> []" using bs by auto
qed

lemma raw_accessors_agree:
  assumes "context_codec_ok M" and "write_to M c d = Inr d'"
  shows "context_intent_id d' = Some (mc_intent_id c)"
    and "has_scheduled_intents d' \<longleftrightarrow> mc_scheduled_base_intents c \<noteq> []"
proof -
  obtain bs n where bs: "d' = bs @ replicate n 0" "16 \<le> length bs"
    "take 8 bs = le_bytes 8 (unat (mc_intent_id c))"
    "take 8 (drop 8 bs) = le_bytes 8 (length (mc_scheduled_base_intents c))"
    "length (mc_scheduled_base_intents c) < 2 ^ 64"
    by (rule write_to_Inr [OF assms])
  have d: "take 8 d' = le_bytes 8 (unat (mc_intent_id c))"
    "take 8 (drop 8 d') = le_bytes 8 (length (mc_scheduled_base_intents c))" "16 \<le> length d'"
    using bs by simp_all
  show "context_intent_id d' = Some (mc_intent_id c)"
    using d by (simp add: context_intent_id_def le_nat_unat)
  have "le_nat (take 8 (drop 8 d')) = length (mc_scheduled_base_intents c)"
    using d bs(5) by (simp add: le_nat_bytes)
  moreover have "unat (of_nat (length (mc_scheduled_base_intents c)) :: u64) = length (mc_scheduled_base_intents c)"
    using bs(5) by (simp add: unat_of_nat)
  ultimately show "has_scheduled_intents d' \<longleftrightarrow> mc_scheduled_base_intents c \<noteq> []"
    using d zeroed_context [OF assms]
    by (auto simp: has_scheduled_intents_def scheduled_intents_len_def default_magic_context_def unsigned_eq_0_iff)
qed

end
