(* ===== verification/Commit_Scheduling.thy ===== *)
theory Commit_Scheduling
  imports Magic_Context
begin

text \<open>
  Scheduling intents: the arguments of \<^verbatim>\<open>programs/magic-interface/src/args.rs\<close>, the construction of
  a bundle in \<^verbatim>\<open>intent_bundles/magic_scheduled_base_intent.rs\<close> and the three handlers of
  \<^verbatim>\<open>intent_bundles/schedule\<close> that change the queue: \<^verbatim>\<open>process_schedule_commit\<close>,
  \<^verbatim>\<open>process_schedule_intent_bundle\<close> and \<^verbatim>\<open>process_add_action_callback\<close>.
\<close>

section \<open>Arguments\<close>

record action_args =
  aa_escrow_index :: u8
  aa_data :: bytes

record base_action_args =
  baa_args :: action_args
  baa_compute_units :: u32
  baa_escrow_authority :: u8
  baa_destination_program :: pubkey
  baa_accounts :: "short_account_meta list"

datatype commit_type_args =
    CommitArgs_Standalone "u8 list"
  | CommitArgs_WithBaseActions "u8 list" "base_action_args list"

fun cta_committed_accounts_indices :: "commit_type_args \<Rightarrow> u8 list" where
  "cta_committed_accounts_indices (CommitArgs_Standalone value) = value"
| "cta_committed_accounts_indices (CommitArgs_WithBaseActions committed_accounts _) = committed_accounts"

datatype undelegate_type_args =
    UndelegateArgs_Standalone
  | UndelegateArgs_WithBaseActions "base_action_args list"

record commit_and_undelegate_args =
  caua_commit_type :: commit_type_args
  caua_undelegate_type :: undelegate_type_args

definition caua_committed_accounts_indices :: "commit_and_undelegate_args \<Rightarrow> u8 list" where
  "caua_committed_accounts_indices c = cta_committed_accounts_indices (caua_commit_type c)"

datatype magic_base_intent_args =
    Args_BaseActions "base_action_args list"
  | Args_Commit commit_type_args
  | Args_CommitAndUndelegate commit_and_undelegate_args
  | Args_CommitFinalize commit_type_args
  | Args_CommitFinalizeAndUndelegate commit_and_undelegate_args

record magic_intent_bundle_args =
  mia_commit :: "commit_type_args option"
  mia_commit_and_undelegate :: "commit_and_undelegate_args option"
  mia_commit_finalize :: "commit_type_args option"
  mia_commit_finalize_and_undelegate :: "commit_and_undelegate_args option"
  mia_standalone_actions :: "base_action_args list"

definition default_bundle_args :: magic_intent_bundle_args where
  "default_bundle_args = \<lparr>mia_commit = None, mia_commit_and_undelegate = None, mia_commit_finalize = None,
     mia_commit_finalize_and_undelegate = None, mia_standalone_actions = []\<rparr>"

fun bundle_args_from_base :: "magic_base_intent_args \<Rightarrow> magic_intent_bundle_args" where
  "bundle_args_from_base (Args_BaseActions value) =
     default_bundle_args\<lparr>mia_standalone_actions := mia_standalone_actions default_bundle_args @ value\<rparr>"
| "bundle_args_from_base (Args_Commit value) = default_bundle_args\<lparr>mia_commit := Some value\<rparr>"
| "bundle_args_from_base (Args_CommitAndUndelegate value) =
     default_bundle_args\<lparr>mia_commit_and_undelegate := Some value\<rparr>"
| "bundle_args_from_base (Args_CommitFinalize value) = default_bundle_args\<lparr>mia_commit_finalize := Some value\<rparr>"
| "bundle_args_from_base (Args_CommitFinalizeAndUndelegate value) =
     default_bundle_args\<lparr>mia_commit_finalize_and_undelegate := Some value\<rparr>"

record add_action_callback_args =
  aca_action_index :: u8
  aca_destination_program :: pubkey
  aca_discriminator :: bytes
  aca_payload :: bytes
  aca_compute_units :: u32
  aca_accounts :: "short_account_meta list"

section \<open>Constructing a bundle\<close>

text \<open>
  A construction works on the accounts and the next action id, under what stays fixed in the
  \<^verbatim>\<open>ConstructionContext\<close>.
\<close>

record 't construction_context =
  cc_env :: "'t magic_env"
  cc_invoke :: invoke_context
  cc_parent_program_id :: "pubkey option"
  cc_secure :: bool

type_synonym 'a construction = "(store \<times> u64, 'a) prog"

definition on_store :: "(store, 'a) prog \<Rightarrow> 'a construction" where
  "on_store m sn = rbind (m (fst sn)) (\<lambda>(x, s'). Inr (x, (s', snd sn)))"

definition next_action_id :: "u64 construction" where
  "next_action_id sn = Inr (snd sn, (fst sn, snd sn + 1))"

definition MAX_PERMITTED_DATA_INCREASE :: nat where "MAX_PERMITTED_DATA_INCREASE = 10240"

definition base_action_try_from_args :: "'t construction_context \<Rightarrow> base_action_args \<Rightarrow> base_action construction" where
  "base_action_try_from_args X args =
     pbind (plift (get_instruction_pubkey_with_idx (cc_invoke X) (unat (baa_escrow_authority args)))) (\<lambda>authority_pubkey.
     pthen (pguard (authority_pubkey \<in> ic_signers (cc_invoke X)) MissingRequiredSignature) (
     pbind (plift (ok_or (cc_parent_program_id X) UnsupportedProgramId)) (\<lambda>parent_program_id.
     pbind (plift
       (if cc_secure X then Inr (Some parent_program_id)
        else if baa_destination_program args = parent_program_id then Inr None
        else Inl UnsupportedProgramId)) (\<lambda>source_program.
     pbind next_action_id (\<lambda>i.
     pret \<lparr>act_id = i, act_compute_units = baa_compute_units args,
       act_destination_program = baa_destination_program args, act_source_program = source_program,
       act_escrow_authority = authority_pubkey,
       act_data_per_program = \<lparr>pa_escrow_index = aa_escrow_index (baa_args args), pa_data = aa_data (baa_args args)\<rparr>,
       act_account_metas_per_program = baa_accounts args, act_callback = None\<rparr>)))))"

definition extract_commit_accounts ::
    "invoke_context \<Rightarrow> u8 list \<Rightarrow> ('s, (pubkey \<times> instruction_account) list) prog" where
  "extract_commit_accounts C account_indices = pmap (\<lambda>i.
     pbind (plift (get_instruction_account_with_idx C (unat i))) (\<lambda>account.
     pbind (plift (get_instruction_pubkey_with_idx C (unat i))) (\<lambda>k. pret (k, account)))) account_indices"

definition validate_commit_type_account ::
    "'t construction_context \<Rightarrow> pubkey \<times> instruction_account \<Rightarrow> (store, unit) prog" where
  "validate_commit_type_account X = (\<lambda>(k, a).
     pbind (borrow a) (\<lambda>account.
     pthen (pguard (sh_mode account \<noteq> Mode_Magic) InvalidAccountData) (
     pthen (pguard (sh_mode account = Mode_Delegated) IllegalOwner) (
     pthen (pguard (length (acc_data account) \<le> MAX_PERMITTED_DATA_INCREASE) InvalidAccountData) (
     plift (validate_commit_schedule_permissions (cc_invoke X) (acc_owner account) k (cc_parent_program_id X)))))))"

definition validate_commit_type_accounts ::
    "'t construction_context \<Rightarrow> (pubkey \<times> instruction_account) list \<Rightarrow> (store, unit) prog" where
  "validate_commit_type_accounts X accounts = peach (validate_commit_type_account X) accounts"

definition commit_account ::
    "'t construction_context \<Rightarrow> pubkey \<times> instruction_account \<Rightarrow> (store, committed_account) prog" where
  "commit_account X = (\<lambda>(k, a).
     pbind (reserve_commit_id (me_engine (cc_env X)) (cc_invoke X) a) (\<lambda>_.
     pbind (borrow a) (\<lambda>account.
     pret (from_account_shared (me_engine (cc_env X)) (me_tokens (cc_env X)) k account))))"

definition commit_accounts :: "'t construction_context \<Rightarrow> u8 list \<Rightarrow> (store, committed_account list) prog" where
  "commit_accounts X indices =
     pbind (extract_commit_accounts (cc_invoke X) indices) (\<lambda>refs.
     pthen (validate_commit_type_accounts X refs) (
     pmap (commit_account X) refs))"

fun commit_type_try_from_args :: "'t construction_context \<Rightarrow> commit_type_args \<Rightarrow> commit_type construction" where
  "commit_type_try_from_args X (CommitArgs_Standalone accounts) =
     pbind (on_store (commit_accounts X accounts)) (\<lambda>cas. pret (Commit_Standalone cas))"
| "commit_type_try_from_args X (CommitArgs_WithBaseActions accounts base_actions) =
     pbind (on_store (commit_accounts X accounts)) (\<lambda>cas.
     pbind (pmap (base_action_try_from_args X) base_actions) (\<lambda>bas.
     pret (Commit_WithBaseActions cas bas)))"

fun undelegate_type_try_from_args ::
    "'t construction_context \<Rightarrow> undelegate_type_args \<Rightarrow> undelegate_type construction" where
  "undelegate_type_try_from_args X UndelegateArgs_Standalone = pret Undelegate_Standalone"
| "undelegate_type_try_from_args X (UndelegateArgs_WithBaseActions base_actions) =
     pbind (pmap (base_action_try_from_args X) base_actions) (\<lambda>bas. pret (Undelegate_WithBaseActions bas))"

definition validate_commit_and_undelegate_account :: "invoke_context \<Rightarrow> u8 \<Rightarrow> (store, unit) prog" where
  "validate_commit_and_undelegate_account C idx =
     pbind (plift (get_writable_with_idx C (unat idx))) (\<lambda>is_writable.
     pbind (plift (get_instruction_account_with_idx C (unat idx))) (\<lambda>delegated.
     pbind (if is_writable
            then pbind (borrow delegated) (\<lambda>acc. pret (sh_mode acc = Mode_Delegated)) else pret False) (\<lambda>ok.
     if ok then pret ()
     else pbind (plift (get_instruction_pubkey_with_idx C (unat idx))) (\<lambda>_.
          plift (Inl ReadonlyDataModified)))))"

definition validate_commit_and_undelegate_accounts :: "invoke_context \<Rightarrow> u8 list \<Rightarrow> (store, unit) prog" where
  "validate_commit_and_undelegate_accounts C account_indices =
     peach (validate_commit_and_undelegate_account C) account_indices"

definition commit_and_undelegate_try_from_args ::
    "'t construction_context \<Rightarrow> commit_and_undelegate_args \<Rightarrow> commit_and_undelegate construction" where
  "commit_and_undelegate_try_from_args X args =
     pthen (on_store (validate_commit_and_undelegate_accounts (cc_invoke X)
       (cta_committed_accounts_indices (caua_commit_type args)))) (
     pbind (commit_type_try_from_args X (caua_commit_type args)) (\<lambda>commit_action.
     pbind (undelegate_type_try_from_args X (caua_undelegate_type args)) (\<lambda>undelegate_action.
     pret \<lparr>commit_action = commit_action, undelegate_action = undelegate_action\<rparr>)))"

definition validate_magic_intent_bundle_args :: "magic_intent_bundle_args \<Rightarrow> (instruction_error, unit) result" where
  "validate_magic_intent_bundle_args args =
     (case mia_commit args of
        None \<Rightarrow> Inr ()
      | Some c \<Rightarrow>
          let committed_set = set (cta_committed_accounts_indices c)
          in case mia_commit_and_undelegate args of
               None \<Rightarrow> Inr ()
             | Some el \<Rightarrow>
                 if list_ex (\<lambda>ind. ind \<in> committed_set) (caua_committed_accounts_indices el)
                 then Inl InvalidInstructionData else Inr ())"

text \<open>One group is checked against all keys seen so far.\<close>

definition check_unseen ::
    "committed_account list \<Rightarrow> pubkey set \<Rightarrow> (instruction_error, pubkey set) result" where
  "check_unseen accounts seen = try_fold (\<lambda>seen el.
     if ca_pubkey el \<in> seen then Inl InvalidInstructionData else Inr (insert (ca_pubkey el) seen)) seen accounts"

definition post_validate_magic_intent_bundle :: "magic_intent_bundle \<Rightarrow> (instruction_error, unit) result" where
  "post_validate_magic_intent_bundle b =
     (if bundle_is_empty b then Inl InvalidInstructionData
      else rbind (check_unseen (opt_list ct_get_committed_accounts (mib_commit b)) {}) (\<lambda>seen.
           rbind (check_unseen (opt_list cau_get_committed_accounts (mib_commit_and_undelegate b)) seen) (\<lambda>seen.
           rbind (check_unseen (opt_list ct_get_committed_accounts (mib_commit_finalize b)) seen) (\<lambda>seen.
           rbind (check_unseen (opt_list cau_get_committed_accounts (mib_commit_finalize_and_undelegate b)) seen)
             (\<lambda>_. Inr ())))))"

definition bundle_try_from_args ::
    "'t construction_context \<Rightarrow> magic_intent_bundle_args \<Rightarrow> magic_intent_bundle construction" where
  "bundle_try_from_args X args =
     pthen (plift (validate_magic_intent_bundle_args args)) (
     pbind (popt (commit_type_try_from_args X) (mia_commit args)) (\<lambda>commit.
     pbind (popt (commit_and_undelegate_try_from_args X) (mia_commit_and_undelegate args)) (\<lambda>commit_and_undelegate.
     pbind (pmap (base_action_try_from_args X) (mia_standalone_actions args)) (\<lambda>actions.
     pbind (popt (commit_type_try_from_args X) (mia_commit_finalize args)) (\<lambda>commit_finalize.
     pbind (popt (commit_and_undelegate_try_from_args X) (mia_commit_finalize_and_undelegate args))
       (\<lambda>commit_finalize_and_undelegate.
     let this = \<lparr>mib_commit = commit, mib_commit_and_undelegate = commit_and_undelegate,
           mib_commit_finalize = commit_finalize,
           mib_commit_finalize_and_undelegate = commit_finalize_and_undelegate,
           mib_standalone_actions = actions\<rparr>
     in pthen (plift (post_validate_magic_intent_bundle this)) (
        pthen (plift (validate_intent_size (cc_env X) (cc_invoke X) this)) (
        pret this))))))))"

definition sib_try_new ::
    "'t construction_context \<Rightarrow> magic_intent_bundle_args \<Rightarrow> u64 \<Rightarrow> slot \<Rightarrow> pubkey \<Rightarrow> scheduled_intent_bundle construction"
where
  "sib_try_new X args new_id slot payer_pubkey =
     pbind (bundle_try_from_args X args) (\<lambda>intent_bundle.
     pret \<lparr>sib_intent_id = new_id, sib_slot = slot, sib_blockhash = ic_blockhash (cc_invoke X),
       sib_payer = payer_pubkey, sib_intent_bundle = intent_bundle\<rparr>)"

section \<open>Scheduling a commit\<close>

text \<open>One account of the instruction: the keys committed so far and the commits themselves.\<close>

definition schedule_commit_account ::
    "'t magic_env \<Rightarrow> invoke_context \<Rightarrow> bool \<Rightarrow> pubkey option \<Rightarrow> nat \<Rightarrow>
     pubkey set \<times> committed_account list \<Rightarrow> (store, pubkey set \<times> committed_account list) prog" where
  "schedule_commit_account M C request_undelegation parent_program_id idx = (\<lambda>(seen, committed_accounts).
     pbind (plift (get_instruction_pubkey_with_idx C idx)) (\<lambda>acc_pubkey.
     pbind (plift (get_instruction_account_with_idx C idx)) (\<lambda>acc.
     pbind (borrow acc) (\<lambda>account.
     pthen (pguard (sh_mode account \<noteq> Mode_Magic) InvalidAccountData) (
     pthen (pguard (length (acc_data account) \<le> MAX_PERMITTED_DATA_INCREASE) InvalidAccountData) (
     let is_delegated = (sh_mode account = Mode_Delegated) in
     pthen
       (if request_undelegation
        then pbind (plift (get_writable_with_idx C idx)) (\<lambda>is_writable.
               pguard (is_writable \<and> is_delegated) ReadonlyDataModified)
        else pguard is_delegated IllegalOwner) (
     pthen (plift (validate_commit_schedule_permissions C (acc_owner account) acc_pubkey parent_program_id)) (
     let committed = from_account_shared (me_engine M) (me_tokens M) acc_pubkey account in
     if ca_pubkey committed \<in> seen then pret (seen, committed_accounts)
     else
       pbind (reserve_commit_id (me_engine M) C acc) (\<lambda>commit_id.
       pthen (if request_undelegation then mark_account_as_undelegated (me_engine M) acc else pret ()) (
       pret (insert (ca_pubkey committed) seen,
             committed_accounts @ [committed\<lparr>ca_commit_id := commit_id\<rparr>])))))))))))"

definition schedule_commit_accounts ::
    "'t magic_env \<Rightarrow> invoke_context \<Rightarrow> bool \<Rightarrow> pubkey option \<Rightarrow> nat \<Rightarrow>
     (store, pubkey set \<times> committed_account list) prog" where
  "schedule_commit_accounts M C request_undelegation parent_program_id committees_start =
     pfor [committees_start..<length (ic_metas C)]
       (schedule_commit_account M C request_undelegation parent_program_id) ({}, [])"

definition commit_base_intent :: "bool \<Rightarrow> committed_account list \<Rightarrow> magic_intent_bundle" where
  "commit_base_intent request_undelegation committed_accounts =
     bundle_from_base_intent
       (if request_undelegation
        then CommitFinalizeAndUndelegate \<lparr>commit_action = Commit_Standalone committed_accounts,
               undelegate_action = Undelegate_Standalone\<rparr>
        else CommitFinalize (Commit_Standalone committed_accounts))"

definition process_schedule_commit :: "'t magic_env \<Rightarrow> invoke_context \<Rightarrow> bool \<Rightarrow> (store, unit) prog" where
  "process_schedule_commit M C request_undelegation =
     pthen (plift (check_magic_context_id C MAGIC_CONTEXT_IDX)) (
     pthen (pguard (ic_program C = MAGIC_PROGRAM_ID) UnsupportedProgramId) (
     pbind (plift (get_instruction_pubkey_with_idx C PAYER_IDX)) (\<lambda>payer_pubkey.
     pthen (pguard (payer_pubkey \<in> ic_signers C) MissingRequiredSignature) (
     pbind (plift (get_instruction_account_with_idx C PAYER_IDX)) (\<lambda>payer_account.
     pbind (try_get_fee_vault (me_engine M) C PAYER_IDX (MAGIC_CONTEXT_IDX + 1)) (\<lambda>(magic_fee_vault, committees_start).
     pthen (pguard (committees_start < length (ic_metas C)) MissingAccount) (
     pbind (plift (get_parent_program_id C)) (\<lambda>parent_program_id.
     pbind (schedule_commit_accounts M C request_undelegation parent_program_id committees_start)
       (\<lambda>(seen, committed_accounts).
     pthen
       (case magic_fee_vault of
          Some fee_vault \<Rightarrow>
            pbind (plift (calculate_commit_fee committed_accounts)) (\<lambda>fee.
            charge_delegated_payer payer_account fee_vault fee)
        | None \<Rightarrow>
            if \<not> request_undelegation then plift (check_commit_limits committed_accounts) else pret ()) (
     pbind (plift (get_instruction_account_with_idx C MAGIC_CONTEXT_IDX)) (\<lambda>context_acc.
     pbind (read_context M context_acc GenericError) (\<lambda>context.
     let (new_id, context) = next_intent_id context in
     pbind (plift (get_clock C)) (\<lambda>slot.
     let base_intent = commit_base_intent request_undelegation committed_accounts in
     pthen (plift (validate_intent_size M C base_intent)) (
     write_context M context_acc (add_scheduled_action
       \<lparr>sib_intent_id = new_id, sib_slot = slot, sib_blockhash = ic_blockhash C, sib_payer = payer_pubkey,
        sib_intent_bundle = base_intent\<rparr> context)))))))))))))))"

section \<open>Scheduling a bundle\<close>

definition undelegated_account_indices :: "magic_intent_bundle_args \<Rightarrow> u8 list" where
  "undelegated_account_indices args =
     opt_list caua_committed_accounts_indices (mia_commit_and_undelegate args) @
     opt_list caua_committed_accounts_indices (mia_commit_finalize_and_undelegate args)"

definition build_scheduled_intent ::
    "'t construction_context \<Rightarrow> magic_intent_bundle_args \<Rightarrow> u64 \<Rightarrow> slot \<Rightarrow> pubkey \<Rightarrow>
     (store, scheduled_intent_bundle) prog" where
  "build_scheduled_intent X args new_id slot payer_pubkey s =
     rbind (sib_try_new X args new_id slot payer_pubkey (s, 0)) (\<lambda>(i, s', _). Inr (i, s'))"

definition process_schedule_intent_bundle ::
    "'t magic_env \<Rightarrow> invoke_context \<Rightarrow> magic_intent_bundle_args \<Rightarrow> bool \<Rightarrow> (store, unit) prog" where
  "process_schedule_intent_bundle M C args secure =
     pthen (plift (check_magic_context_id C MAGIC_CONTEXT_IDX)) (
     pbind (plift (get_parent_program_id C)) (\<lambda>parent_program_id.
     pbind (plift (get_clock C)) (\<lambda>slot.
     pthen (pguard (ic_program C = MAGIC_PROGRAM_ID) UnsupportedProgramId) (
     pbind (plift (get_instruction_pubkey_with_idx C PAYER_IDX)) (\<lambda>payer_pubkey.
     pthen (pguard (payer_pubkey \<in> ic_signers C) MissingRequiredSignature) (
     pbind (plift (get_instruction_account_with_idx C MAGIC_CONTEXT_IDX)) (\<lambda>context_acc.
     pbind (read_context M context_acc GenericError) (\<lambda>context.
     let (new_id, context) = next_intent_id context in
     let X = \<lparr>cc_env = M, cc_invoke = C, cc_parent_program_id = parent_program_id, cc_secure = secure\<rparr> in
     pbind (build_scheduled_intent X args new_id slot payer_pubkey) (\<lambda>scheduled_intent.
     pbind (extract_commit_accounts C (undelegated_account_indices args)) (\<lambda>undelegated_accounts_ref.
     pthen (peach (\<lambda>(_, account_ref). mark_account_as_undelegated (me_engine M) account_ref) undelegated_accounts_ref) (
     pbind (plift (get_instruction_account_with_idx C PAYER_IDX)) (\<lambda>payer_account.
     pbind (try_get_fee_vault (me_engine M) C PAYER_IDX (MAGIC_CONTEXT_IDX + 1)) (\<lambda>(magic_fee_vault, _).
     pthen
       (case magic_fee_vault of
          Some fee_vault \<Rightarrow>
            pbind (plift (sib_calculate_fee scheduled_intent)) (\<lambda>fee.
            charge_delegated_payer payer_account fee_vault fee)
        | None \<Rightarrow>
            plift (try_for_each check_commit_limits (List.map_filter id
              [get_commit_intent_accounts (sib_intent_bundle scheduled_intent),
               get_commit_finalize_intent_accounts (sib_intent_bundle scheduled_intent)]))) (
     pbind (plift (get_instruction_account_with_idx C MAGIC_CONTEXT_IDX)) (\<lambda>context_acc.
     write_context M context_acc (add_scheduled_action scheduled_intent context))))))))))))))))"

section \<open>Attaching a callback\<close>

definition CALLBACK_FEE_LAMPORTS :: u64 where "CALLBACK_FEE_LAMPORTS = 5000"

definition callback_metas :: "engine \<Rightarrow> short_account_meta list \<Rightarrow> account_meta list" where
  "callback_metas E accounts = map (\<lambda>m. \<lparr>am_pubkey = sam_pubkey m,
     am_is_signer = (sam_pubkey m = CALLBACK_SIGNER E), am_is_writable = sam_is_writable m\<rparr>) accounts"

text \<open>
  The checks on the latest intent and the action, and the changed intent. The reference that
  \<^verbatim>\<open>get_action_mut\<close> hands out is read here as the first action with the id.
\<close>

definition attach_callback ::
    "engine \<Rightarrow> invoke_context \<Rightarrow> pubkey option \<Rightarrow> slot \<Rightarrow> pubkey \<Rightarrow> add_action_callback_args \<Rightarrow>
     scheduled_intent_bundle \<Rightarrow> (instruction_error, scheduled_intent_bundle) result" where
  "attach_callback E C parent_program_id slot payer_pubkey args latest_intent =
     rbind (ensure (sib_payer latest_intent = payer_pubkey) InvalidAccountData) (\<lambda>_.
     let i = ucast (aca_action_index args) in
     rbind (ok_or (find (\<lambda>a. act_id a = i) (bundle_actions (sib_intent_bundle latest_intent)))
       InvalidInstructionData) (\<lambda>action.
     rbind (ensure (act_callback action = None) InvalidAccountData) (\<lambda>_.
     rbind (ok_or (act_source_program action) InvalidAccountData) (\<lambda>source_program.
     rbind (ensure (Some source_program = parent_program_id) InvalidAccountData) (\<lambda>_.
     rbind (ensure (sib_slot latest_intent = slot \<and> sib_blockhash latest_intent = ic_blockhash C)
       InvalidInstructionData) (\<lambda>_.
     rbind (validate_callback_destination action (aca_destination_program args)) (\<lambda>_.
     rbind (validate_callback_accounts E C (callback_metas E (aca_accounts args))) (\<lambda>_.
     rbind (ok_or (get_action_mut i (\<lambda>a. a\<lparr>act_callback := Some
         \<lparr>cb_destination_program = aca_destination_program args, cb_discriminator = aca_discriminator args,
          cb_payload = aca_payload args, cb_compute_units = aca_compute_units args,
          cb_account_metas_per_program = aca_accounts args\<rparr>\<rparr>) (sib_intent_bundle latest_intent))
       InvalidInstructionData) (\<lambda>b.
     Inr (latest_intent\<lparr>sib_intent_bundle := b\<rparr>))))))))))"

definition process_add_action_callback ::
    "'t magic_env \<Rightarrow> invoke_context \<Rightarrow> add_action_callback_args \<Rightarrow> (store, unit) prog" where
  "process_add_action_callback M C args =
     pthen (plift (check_magic_context_id C MAGIC_CONTEXT_IDX)) (
     pbind (plift (get_clock C)) (\<lambda>slot.
     pbind (plift (get_parent_program_id C)) (\<lambda>parent_program_id.
     pthen (pguard (ic_program C = MAGIC_PROGRAM_ID) UnsupportedProgramId) (
     pbind (plift (get_instruction_pubkey_with_idx C PAYER_IDX)) (\<lambda>payer_pubkey.
     pbind (plift (get_instruction_account_with_idx C PAYER_IDX)) (\<lambda>payer_acc.
     pthen (pguard (payer_pubkey \<in> ic_signers C) MissingRequiredSignature) (
     pbind (plift (get_instruction_account_with_idx C MAGIC_CONTEXT_IDX)) (\<lambda>context_acc.
     pbind (try_get_fee_vault (me_engine M) C PAYER_IDX (MAGIC_CONTEXT_IDX + 1)) (\<lambda>(vault, _).
     pbind (plift (ok_or vault MissingAccount)) (\<lambda>magic_fee_vault.
     pthen (charge_delegated_payer payer_acc magic_fee_vault CALLBACK_FEE_LAMPORTS) (
     pbind (read_context M context_acc GenericError) (\<lambda>context.
     let intents = mc_scheduled_base_intents context in
     pthen (pguard (intents \<noteq> []) InvalidAccountData) (
     pbind (plift (attach_callback (me_engine M) C parent_program_id slot payer_pubkey args (last intents)))
       (\<lambda>latest_intent.
     write_context M context_acc
       (context\<lparr>mc_scheduled_base_intents := butlast intents @ [latest_intent]\<rparr>)))))))))))))))"

end
