(* ===== verification/Scheduling_Safety.thy ===== *)
theory Scheduling_Safety
  imports Commit_Scheduling
begin

text \<open>
  What scheduling guarantees: every account of a scheduled intent was delegated and scheduled with
  authority, its commit id is the next of its account, and accounts to be undelegated are locked;
  and the queue stays well formed under every instruction that changes it.
\<close>

section \<open>Reservations\<close>

lemma reserve_spec:
  assumes "engine_ok E" and "reserve_commit_id E C a s = Inr (n, s')"
  defines "i \<equiv> ia_tx_idx a"
  shows "i < length s" "unat (sh_commit_seq (s ! i)) + 1 < 2 ^ 32" "n = ucast (sh_commit_seq (s ! i) + 1)"
    "s' = s[i := (s ! i)\<lparr>sh_commit_seq := sh_commit_seq (s ! i) + 1\<rparr>]"
proof -
  obtain acc where "i < length s" "checked_add (sh_commit_seq (s ! i)) 1 = Some (sh_commit_seq (s ! i) + 1)"
    "n = ucast (sh_commit_seq (s ! i) + 1)"
    and acc: "en_apply_commit_seq E (sh_commit_seq (s ! i) + 1) (s ! i) = Some acc" "s' = s[i := acc]"
    using assms(2) unfolding i_def
    by (auto simp: reserve_commit_id_def prog_simps result_simps checked_add_def split: if_splits)
  then show "i < length s" "unat (sh_commit_seq (s ! i)) + 1 < 2 ^ 32" "n = ucast (sh_commit_seq (s ! i) + 1)"
    by (auto simp: checked_add_def split: if_splits)
  have "acc = (s ! i)\<lparr>sh_commit_seq := sh_commit_seq (s ! i) + 1\<rparr>"
    using assms(1) acc(1) by (simp add: engine_ok_def)
  with acc(2) show "s' = s[i := (s ! i)\<lparr>sh_commit_seq := sh_commit_seq (s ! i) + 1\<rparr>]" by simp
qed

text \<open>The key under which an account is committed does not depend on its commit sequence.\<close>

abbreviation committed_key :: "'t magic_env \<Rightarrow> pubkey \<Rightarrow> shared_account \<Rightarrow> pubkey" where
  "committed_key M k a \<equiv> ca_pubkey (from_account_shared (me_engine M) (me_tokens M) k a)"

lemma remap_seq [simp]: "try_remap_ata_to_eata E T k (a\<lparr>sh_commit_seq := n\<rparr>) = try_remap_ata_to_eata E T k a"
  by (simp add: try_remap_ata_to_eata_def Let_def cong: option.case_cong)

lemma from_account_seq:
  "from_account_shared E T k (a\<lparr>sh_commit_seq := n\<rparr>) = (from_account_shared E T k a)\<lparr>ca_commit_id := ucast n\<rparr>"
  by (simp add: from_account_shared_def Let_def split: option.split prod.split)

text \<open>
  Who may schedule a commit: the program that owns the account, the account itself, the validator,
  or the eATA program for a token account.
\<close>

definition authorised :: "invoke_context \<Rightarrow> pubkey option \<Rightarrow> pubkey \<Rightarrow> pubkey \<Rightarrow> bool" where
  "authorised C parent owner k \<longleftrightarrow> parent = Some owner \<or> k \<in> ic_signers C \<or> ic_authority C \<in> ic_signers C \<or>
     parent = Some EATA_PROGRAM_ID \<and> owner \<in> {TOKEN_PROGRAM_ID, TOKEN_2022_PROGRAM_ID}"

lemma permissions_iff: "validate_commit_schedule_permissions C owner k parent = Inr () \<longleftrightarrow> authorised C parent owner k"
  by (auto simp: validate_commit_schedule_permissions_def authorised_def Let_def split: option.split)

text \<open>
  Account \<open>j\<close> of the transaction is where a commit comes from: it is delegated, small enough and
  scheduled with authority, and the commit is its content under the next commit id.
\<close>

definition origin :: "'t magic_env \<Rightarrow> invoke_context \<Rightarrow> pubkey option \<Rightarrow> store \<Rightarrow> committed_account \<Rightarrow> nat \<Rightarrow> bool" where
  "origin M C parent s c j \<longleftrightarrow> j < length s \<and> sh_mode (s ! j) = Mode_Delegated \<and>
     length (acc_data (s ! j)) \<le> 10240 \<and>
     authorised C parent (acc_owner (s ! j)) (ic_keys C ! j) \<and>
     unat (sh_commit_seq (s ! j)) + 1 < 2 ^ 32 \<and>
     c = (from_account_shared (me_engine M) (me_tokens M) (ic_keys C ! j) (s ! j))
           \<lparr>ca_commit_id := ucast (sh_commit_seq (s ! j) + 1)\<rparr>"

text \<open>What a commit leaves of its account: the next sequence number and, for an undelegation, the lock.\<close>

definition after_commit :: "bool \<Rightarrow> shared_account \<Rightarrow> shared_account" where
  "after_commit undelegate a =
     (let b = a\<lparr>sh_commit_seq := sh_commit_seq a + 1\<rparr>
      in if undelegate then b\<lparr>acc_owner := DELEGATION_PROGRAM_ID, sh_mode := Mode_Undelegating\<rparr> else b)"

text \<open>The commits \<open>cs\<close> come from the accounts \<open>js\<close>, one each, and no other account changed.\<close>

definition commits_from ::
    "'t magic_env \<Rightarrow> invoke_context \<Rightarrow> pubkey option \<Rightarrow> bool \<Rightarrow> store \<Rightarrow> nat list \<Rightarrow> committed_account list \<Rightarrow> store \<Rightarrow> bool"
where
  "commits_from M C parent u s0 js cs s \<longleftrightarrow> length s = length s0 \<and> length js = length cs \<and>
     distinct (map ca_pubkey cs) \<and>
     (\<forall>(c, j) \<in> set (zip cs js). origin M C parent s0 c j \<and> s ! j = after_commit u (s0 ! j)) \<and>
     (\<forall>j < length s0. s ! j = s0 ! j \<or>
        s ! j = after_commit u (s0 ! j) \<and> committed_key M (ic_keys C ! j) (s0 ! j) \<in> ca_pubkey ` set cs)"

lemma origin_key: "origin M C parent s c j \<Longrightarrow> ca_pubkey c = committed_key M (ic_keys C ! j) (s ! j)"
  by (simp add: origin_def)

lemma commits_from_start: "commits_from M C parent u s [] [] s"
  by (simp add: commits_from_def)

lemma commits_from_member:
  assumes "commits_from M C parent u s0 js cs s" and "c \<in> set cs"
  obtains j where "(c, j) \<in> set (zip cs js)" "origin M C parent s0 c j" "s ! j = after_commit u (s0 ! j)"
proof -
  have len: "length cs = length js" using assms(1) by (simp add: commits_from_def)
  obtain j where j: "(c, j) \<in> set (zip cs js)" by (rule in_set_impl_in_set_zip1 [OF len assms(2)])
  then show ?thesis using assms(1) by (intro that [OF j]) (auto simp: commits_from_def)
qed

lemma commits_from_unchanged:
  "commits_from M C parent u s0 js cs s \<Longrightarrow> j < length s0 \<Longrightarrow>
     committed_key M (ic_keys C ! j) (s0 ! j) \<notin> ca_pubkey ` set cs \<Longrightarrow> s ! j = s0 ! j"
  by (auto simp: commits_from_def)

text \<open>A new commit comes from an account that no earlier commit came from.\<close>

lemma commits_from_add:
  assumes inv: "commits_from M C parent u s0 js cs s" and o: "origin M C parent s0 c j" and "s ! j = s0 ! j"
    and "ca_pubkey c \<notin> ca_pubkey ` set cs"
  shows "commits_from M C parent u s0 (js @ [j]) (cs @ [c]) (s[j := after_commit u (s ! j)])"
proof -
  let ?s = "s[j := after_commit u (s ! j)]"
  have len: "length s = length s0" "length js = length cs" and j: "j < length s0"
    using inv o by (simp_all add: commits_from_def origin_def)
  have old: "?s ! i = after_commit u (s0 ! i) \<and> origin M C parent s0 d i" if d: "(d, i) \<in> set (zip cs js)" for d i
  proof -
    have i: "origin M C parent s0 d i" "s ! i = after_commit u (s0 ! i)" using inv d by (auto simp: commits_from_def)
    have "d \<in> set cs" using d by (rule set_zip_leftD)
    then have "ca_pubkey d \<noteq> ca_pubkey c" using assms(4) by (metis imageI)
    then have "i \<noteq> j" using origin_key [OF o] origin_key [OF i(1)] by auto
    then show ?thesis using i by simp
  qed
  have new: "?s ! j = after_commit u (s0 ! j)" using assms(3) len j by simp
  have "?s ! i = s0 ! i \<or>
      ?s ! i = after_commit u (s0 ! i) \<and> committed_key M (ic_keys C ! i) (s0 ! i) \<in> ca_pubkey ` set (cs @ [c])"
    if "i < length s0" for i
    using inv that assms(3) len origin_key [OF o] by (cases "i = j") (auto simp: commits_from_def)
  then show ?thesis using inv assms(4) old new o len by (auto simp: commits_from_def)
qed

section \<open>Scheduling a commit\<close>

lemma schedule_commit_account_spec:
  assumes E: "engine_ok (me_engine M)"
    and step: "schedule_commit_account M C u parent idx (seen, cs) s = Inr ((seen', cs'), s')"
    and inv: "commits_from M C parent u s0 js cs s" "seen = ca_pubkey ` set cs"
  shows "(\<exists>js'. commits_from M C parent u s0 js' cs' s') \<and> seen' = ca_pubkey ` set cs' \<and> (cs = [] \<longrightarrow> cs' \<noteq> [])"
proof -
  let ?i = "im_index (ic_metas C ! idx)"
  let ?a = "s ! ?i" and ?k = "ic_keys C ! ?i"
  let ?c = "from_account_shared (me_engine M) (me_tokens M) ?k ?a"
  let ?ia = "\<lparr>ia_instruction_idx = idx, ia_tx_idx = ?i\<rparr>"
  have i: "?i < length s" "sh_mode ?a = Mode_Delegated" "length (acc_data ?a) \<le> 10240"
    "validate_commit_schedule_permissions C (acc_owner ?a) ?k parent = Inr ()"
    and rest: "(if ca_pubkey ?c \<in> seen then pret (seen, cs)
       else pbind (reserve_commit_id (me_engine M) C ?ia) (\<lambda>commit_id.
         pthen (if u then mark_account_as_undelegated (me_engine M) ?ia else pret ())
          (pret (insert (ca_pubkey ?c) seen, cs @ [?c\<lparr>ca_commit_id := commit_id\<rparr>])))) s = Inr ((seen', cs'), s')"
    using step unfolding schedule_commit_account_def
    by (auto simp: prog_simps Let_def MAX_PERMITTED_DATA_INCREASE_def split: if_splits)
  have len: "length s = length s0" using inv(1) by (simp add: commits_from_def)
  have same: "?a = s0 ! ?i \<or> ?a = after_commit u (s0 ! ?i) \<and> committed_key M ?k (s0 ! ?i) \<in> seen"
    using inv i(1) len by (simp add: commits_from_def)
  show ?thesis
  proof (cases "ca_pubkey ?c \<in> seen")
    case True
    then show ?thesis using rest inv by auto
  next
    case False
    have a: "?a = s0 ! ?i"
      using same False i(2) by (auto simp: after_commit_def Let_def from_account_seq split: if_splits)
    obtain n t where n: "reserve_commit_id (me_engine M) C ?ia s = Inr (n, t)"
      and m: "(if u then mark_account_as_undelegated (me_engine M) ?ia else pret ()) t = Inr ((), s')"
      and r: "seen' = insert (ca_pubkey ?c) seen" "cs' = cs @ [?c\<lparr>ca_commit_id := n\<rparr>]"
      using rest False by (auto simp: prog_simps)
    note res = reserve_spec [OF E n, simplified]
    have s': "s' = s[?i := after_commit u ?a]"
      using m mark_spec [OF E, of ?ia t "()" s'] res(1,4) by (auto simp: after_commit_def split: if_splits)
    have "origin M C parent s0 (?c\<lparr>ca_commit_id := n\<rparr>) ?i"
      using i res(2,3) a len by (simp add: origin_def permissions_iff)
    from commits_from_add [OF inv(1) this a] False inv(2) s' r show ?thesis by (simp, blast)
  qed
qed

lemma schedule_commit_accounts_spec:
  assumes E: "engine_ok (me_engine M)"
    and run: "schedule_commit_accounts M C u parent start s = Inr ((seen, cs), s')" and "start < length (ic_metas C)"
  shows "(\<exists>js. commits_from M C parent u s js cs s') \<and> cs \<noteq> []"
proof -
  let ?f = "schedule_commit_account M C u parent"
  let ?P = "\<lambda>(seen, cs) t. (\<exists>js. commits_from M C parent u s js cs t) \<and> seen = ca_pubkey ` set cs \<and> cs \<noteq> []"
  obtain r t where first: "?f start ({}, []) s = Inr (r, t)"
    and more: "pfor [Suc start..<length (ic_metas C)] ?f r t = Inr ((seen, cs), s')"
    using run assms(3) by (auto simp: schedule_commit_accounts_def upt_conv_Cons prog_simps)
  obtain seen1 cs1 where r: "r = (seen1, cs1)" by (cases r)
  have one: "(\<exists>js. commits_from M C parent u s js cs1 t) \<and> seen1 = ca_pubkey ` set cs1 \<and> cs1 \<noteq> []"
    using schedule_commit_account_spec [OF E first [unfolded r] commits_from_start] by simp
  have "?P (seen, cs) s'"
  proof (rule pfor_keeps [OF more])
    show "?P r t"
      using one r by simp
  next
    fix idx acc t r' t'
    assume step: "?f idx acc t = Inr (r', t')"
      and inv: "?P acc t"
    obtain a b a' b' where ab: "acc = (a, b)" "r' = (a', b')" by (cases acc; cases r')
    have "b' \<noteq> []" using step inv unfolding ab schedule_commit_account_def
      by (auto simp: prog_simps Let_def split: if_splits)
    moreover obtain js where "commits_from M C parent u s js b t" "a = ca_pubkey ` set b" using inv ab by auto
    ultimately show "?P r' t'"
      using schedule_commit_account_spec [OF E step [unfolded ab], of s js] ab by simp
  qed
  then show ?thesis by simp
qed

section \<open>Constructing a bundle\<close>

abbreviation pos_at :: "invoke_context \<Rightarrow> u8 \<Rightarrow> nat" where
  "pos_at C i \<equiv> im_index (ic_metas C ! unat i)"

text \<open>
  The state of a construction: so far only commit sequences changed, and as long as no key repeats
  the commits come from the accounts at the given positions.
\<close>

definition constructed ::
    "'t construction_context \<Rightarrow> store \<Rightarrow> nat list \<Rightarrow> committed_account list \<Rightarrow> store \<Rightarrow> bool" where
  "constructed X s0 js cs s \<longleftrightarrow> keeps (sh_commit_seq_update (\<lambda>_. 0)) s0 s \<and> length js = length cs \<and>
     (\<forall>c \<in> set cs. ca_commit_id c \<noteq> 0) \<and>
     (distinct (map ca_pubkey cs) \<longrightarrow>
        commits_from (cc_env X) (cc_invoke X) (cc_parent_program_id X) False s0 js cs s)"

lemma constructed_start: "constructed X s [] [] s"
  by (simp add: constructed_def commits_from_start)

text \<open>Two accounts that differ only in the commit sequence.\<close>

lemma seq_update_eq:
  assumes "sh_commit_seq_update (\<lambda>_. 0) a = sh_commit_seq_update (\<lambda>_. 0) b"
  shows "a = b\<lparr>sh_commit_seq := sh_commit_seq a\<rparr>"
  using assms by (cases a; cases b) simp

lemma seq_update_fields:
  "sh_commit_seq_update (\<lambda>_. 0) a = sh_commit_seq_update (\<lambda>_. 0) b \<Longrightarrow>
     sh_mode a = sh_mode b \<and> acc_data a = acc_data b \<and> acc_owner a = acc_owner b"
  by (cases a; cases b) simp

definition committable :: "'t construction_context \<Rightarrow> store \<Rightarrow> pubkey \<times> instruction_account \<Rightarrow> bool" where
  "committable X s = (\<lambda>(k, a). k = ic_keys (cc_invoke X) ! ia_tx_idx a \<and> sh_mode (s ! ia_tx_idx a) = Mode_Delegated \<and>
     length (acc_data (s ! ia_tx_idx a)) \<le> 10240 \<and>
     validate_commit_schedule_permissions (cc_invoke X) (acc_owner (s ! ia_tx_idx a)) k (cc_parent_program_id X) = Inr ())"

lemma commit_account_spec:
  assumes E: "engine_ok (me_engine (cc_env X))" and inv: "constructed X s0 js cs s"
    and ok: "committable X s0 r" and run: "commit_account X r s = Inr (c, s')"
  shows "constructed X s0 (js @ [ia_tx_idx (snd r)]) (cs @ [c]) s'"
proof -
  obtain k a where r: "r = (k, a)" by (cases r)
  let ?i = "ia_tx_idx a" and ?M = "cc_env X" and ?C = "cc_invoke X" and ?p = "cc_parent_program_id X"
  obtain n where n: "reserve_commit_id (me_engine ?M) ?C a s = Inr (n, s')"
    and i': "?i < length s'" and c: "c = from_account_shared (me_engine ?M) (me_tokens ?M) k (s' ! ?i)"
    using run unfolding r by (auto simp: commit_account_def prog_simps)
  note res = reserve_spec [OF E n]
  have len: "length s = length s0" using inv keeps_length unfolding constructed_def by blast
  have i: "?i < length s0" using res(1) len by simp
  let ?q = "sh_commit_seq (s ! ?i)"
  have c': "c = (from_account_shared (me_engine ?M) (me_tokens ?M) k (s ! ?i))\<lparr>ca_commit_id := ucast (?q + 1)\<rparr>"
    using c res(1,4) by (simp add: from_account_seq)
  have q: "unat (?q + 1) = unat ?q + 1" using res(2) by (simp add: unat_word_ariths)
  have nz: "ca_commit_id c \<noteq> 0"
  proof
    assume "ca_commit_id c = 0"
    then have "unat (ucast (?q + 1) :: u64) = 0" using c' by simp
    moreover have "unat (ucast (?q + 1) :: u64) = unat (?q + 1)"
      using unat_bound [of "?q + 1"] by (simp only: unsigned_ucast_eq) (simp add: take_bit_nat_eq_self)
    ultimately show False using q by linarith
  qed
  have seq: "s ! ?i = (s0 ! ?i)\<lparr>sh_commit_seq := ?q\<rparr>"
    by (rule seq_update_eq) (use inv i in \<open>auto simp: constructed_def dest: keeps_nth\<close>)
  then have key: "ca_pubkey c = committed_key ?M k (s0 ! ?i)"
    using c' from_account_seq [of "me_engine ?M" "me_tokens ?M" k ?q "s0 ! ?i"] by simp
  have "keeps (sh_commit_seq_update (\<lambda>_. 0)) s s'" unfolding res(4) by (rule keeps_update) simp
  with inv have keeps: "keeps (sh_commit_seq_update (\<lambda>_. 0)) s0 s'"
    unfolding constructed_def by (blast intro: keeps_trans)
  have "commits_from ?M ?C ?p False s0 (js @ [?i]) (cs @ [c]) s'" if d: "distinct (map ca_pubkey (cs @ [c]))"
  proof -
    have cf: "commits_from ?M ?C ?p False s0 js cs s" using inv d by (simp add: constructed_def)
    have fresh: "ca_pubkey c \<notin> ca_pubkey ` set cs" using d by simp
    have same: "s ! ?i = s0 ! ?i"
      by (rule commits_from_unchanged [OF cf i]) (use fresh key ok r in \<open>simp add: committable_def\<close>)
    have "origin ?M ?C ?p s0 c ?i" using ok i res(2) c' same r by (auto simp: origin_def committable_def permissions_iff)
    from commits_from_add [OF cf this same fresh] show ?thesis using res(4) same by (simp add: after_commit_def)
  qed
  then show ?thesis using keeps inv nz r by (simp add: constructed_def)
qed

lemma extract_spec:
  assumes "extract_commit_accounts C idxs s = Inr (refs, s')"
  shows "s' = s \<and> map (ia_tx_idx \<circ> snd) refs = map (pos_at C) idxs \<and>
    (\<forall>r \<in> set refs. fst r = ic_keys C ! ia_tx_idx (snd r))"
  using assms unfolding extract_commit_accounts_def
proof (induction idxs arbitrary: refs s)
  case (Cons i idxs)
  obtain rs where rs: "refs = (ic_keys C ! pos_at C i, \<lparr>ia_instruction_idx = unat i, ia_tx_idx = pos_at C i\<rparr>) # rs"
    and rest: "pmap (\<lambda>i. pbind (plift (get_instruction_account_with_idx C (unat i))) (\<lambda>account.
       pbind (plift (get_instruction_pubkey_with_idx C (unat i))) (\<lambda>k. pret (k, account)))) idxs s = Inr (rs, s')"
    using Cons.prems by (auto simp: prog_simps)
  from Cons.IH [OF rest] rs show ?case by simp
qed simp

lemma validate_account_spec:
  assumes "validate_commit_type_account X (k, a) t = Inr ((), t')"
  shows "t' = t \<and> sh_mode (t ! ia_tx_idx a) = Mode_Delegated \<and> length (acc_data (t ! ia_tx_idx a)) \<le> 10240 \<and>
    validate_commit_schedule_permissions (cc_invoke X) (acc_owner (t ! ia_tx_idx a)) k (cc_parent_program_id X) = Inr ()
    \<and> ia_tx_idx a < length t"
  using assms by (auto simp: validate_commit_type_account_def prog_simps MAX_PERMITTED_DATA_INCREASE_def)

lemma commit_accounts_spec:
  assumes E: "engine_ok (me_engine (cc_env X))" and inv: "constructed X s0 js cs s"
    and run: "commit_accounts X idxs s = Inr (cas, s')"
  shows "constructed X s0 (js @ map (pos_at (cc_invoke X)) idxs) (cs @ cas) s'"
proof -
  obtain refs t where refs: "extract_commit_accounts (cc_invoke X) idxs s = Inr (refs, s)"
    and val: "peach (validate_commit_type_account X) refs s = Inr ((), t)"
    and com: "pmap (commit_account X) refs t = Inr (cas, s')"
    using run extract_spec by (fastforce simp: commit_accounts_def validate_commit_type_accounts_def prog_simps)
  have "t = s \<and> (\<forall>r \<in> set refs. validate_commit_type_account X r s = Inr ((), s))"
    by (rule peach_checks [OF val]) (use validate_account_spec in force)
  then have t: "t = s" and each: "\<And>k a. (k, a) \<in> set refs \<Longrightarrow> validate_commit_type_account X (k, a) s = Inr ((), s)"
    by auto
  have ok: "committable X s0 r" if r: "r \<in> set refs" for r
  proof -
    obtain k a where ka: "r = (k, a)" by (cases r)
    note v = validate_account_spec [OF each [OF r [unfolded ka]]]
    have "keeps (sh_commit_seq_update (\<lambda>_. 0)) s0 s" using inv by (simp add: constructed_def)
    from keeps_nth [OF this] keeps_length [OF this] v
    have same: "sh_mode (s ! ia_tx_idx a) = sh_mode (s0 ! ia_tx_idx a) \<and>
      acc_data (s ! ia_tx_idx a) = acc_data (s0 ! ia_tx_idx a) \<and> acc_owner (s ! ia_tx_idx a) = acc_owner (s0 ! ia_tx_idx a)"
      by (intro seq_update_fields) simp
    have "k = ic_keys (cc_invoke X) ! ia_tx_idx a" using extract_spec [OF refs] r ka by auto
    then show ?thesis using v same ka by (simp add: committable_def)
  qed
  have "constructed X s0 (js @ map (ia_tx_idx \<circ> snd) refs) (cs @ cas) s'"
  proof (rule pmap_keeps [OF com])
    show "constructed X s0 (js @ map (ia_tx_idx \<circ> snd) []) (cs @ []) t" using inv t by simp
  next
    fix us :: "(pubkey \<times> instruction_account) list" and r zs v c v'
    assume "r \<in> set refs" "commit_account X r v = Inr (c, v')"
      "constructed X s0 (js @ map (ia_tx_idx \<circ> snd) us) (cs @ zs) v"
    from commit_account_spec [OF E this(3) ok [OF this(1)] this(2)]
    show "constructed X s0 (js @ map (ia_tx_idx \<circ> snd) (us @ [r])) (cs @ zs @ [c]) v'" by simp
  qed
  then show ?thesis using extract_spec [OF refs] by simp
qed

lemma commit_accounts_length: "commit_accounts X idxs s = Inr (cas, s') \<Longrightarrow> length cas = length idxs"
proof -
  have len: "length ys = length xs" if "pmap f xs t = Inr (ys, t')" for f :: "'x \<Rightarrow> ('s, 'y) prog" and xs ys t t'
    by (rule pmap_keeps [OF that, where P = "\<lambda>us zs _. length zs = length us"]) simp_all
  assume "commit_accounts X idxs s = Inr (cas, s')"
  then obtain refs t u where "extract_commit_accounts (cc_invoke X) idxs s = Inr (refs, t)"
    "pmap (commit_account X) refs u = Inr (cas, s')"
    by (auto simp: commit_accounts_def prog_simps)
  then show ?thesis by (simp add: extract_commit_accounts_def len)
qed

text \<open>Actions get consecutive ids and no callback.\<close>

definition acts_from :: "u64 \<Rightarrow> base_action list \<Rightarrow> u64 \<Rightarrow> bool" where
  "acts_from n acts m \<longleftrightarrow> map act_id acts = map (\<lambda>k. n + of_nat k) [0..<length acts] \<and>
     m = n + of_nat (length acts) \<and> (\<forall>a \<in> set acts. act_callback a = None)"

lemma acts_from_Nil [simp]: "acts_from n [] m \<longleftrightarrow> m = n"
  by (simp add: acts_from_def)

lemma acts_from_append:
  assumes "acts_from n xs m" and "acts_from m ys k"
  shows "acts_from n (xs @ ys) k"
proof -
  have "map act_id ys = map (\<lambda>i. n + of_nat i) [length xs..<length xs + length ys]"
  proof -
    have "[length xs..<length xs + length ys] = map (\<lambda>i. i + length xs) [0..<length ys]"
      by (simp add: map_add_upt add.commute)
    then show ?thesis using assms unfolding acts_from_def by (simp add: ac_simps comp_def)
  qed
  moreover have "[0..<length (xs @ ys)] = [0..<length xs] @ [length xs..<length xs + length ys]"
    using upt_add_eq_append [of 0 "length xs" "length ys"] by simp
  ultimately have "map act_id (xs @ ys) = map (\<lambda>k. n + of_nat k) [0..<length (xs @ ys)]"
    using assms(1) by (simp only: acts_from_def map_append)
  moreover have "k = n + of_nat (length (xs @ ys))" using assms by (simp add: acts_from_def add.assoc)
  moreover have "\<forall>a \<in> set (xs @ ys). act_callback a = None" using assms by (auto simp: acts_from_def)
  ultimately show ?thesis by (simp only: acts_from_def)
qed

lemma base_actions_spec:
  assumes "pmap (base_action_try_from_args X) args (s, n) = Inr (acts, (s', n'))"
  shows "s' = s \<and> acts_from n acts n'"
proof -
  have "(\<lambda>_ zs sn. fst sn = s \<and> acts_from n zs (snd sn)) args acts (s', n')"
  proof (rule pmap_keeps [OF assms])
    fix us :: "base_action_args list" and x zs sn y sn'
    assume "base_action_try_from_args X x sn = Inr (y, sn')" and inv: "fst sn = s \<and> acts_from n zs (snd sn)"
    then have "fst sn' = fst sn" "snd sn' = snd sn + 1" "act_id y = snd sn" "act_callback y = None"
      by (auto simp: base_action_try_from_args_def prog_simps next_action_id_def)
    then have "acts_from (snd sn) [y] (snd sn')" by (simp add: acts_from_def)
    from acts_from_append [OF _ this, of n zs] inv \<open>fst sn' = fst sn\<close>
    show "fst sn' = s \<and> acts_from n (zs @ [y]) (snd sn')" by simp
  qed simp
  then show ?thesis by simp
qed

lemma on_store_Inr [prog_simps]:
  "on_store m sn = Inr r \<longleftrightarrow> (\<exists>x s'. m (fst sn) = Inr (x, s') \<and> r = (x, (s', snd sn)))"
  by (auto simp: on_store_def rbind_Inr_iff)

text \<open>What one group of a bundle adds to the construction.\<close>

definition adds ::
    "'t construction_context \<Rightarrow> u8 list \<Rightarrow> committed_account list \<Rightarrow> base_action list \<Rightarrow> store \<times> u64 \<Rightarrow> store \<times> u64 \<Rightarrow> bool"
where
  "adds X idxs cas acts sn sn' \<longleftrightarrow> length cas = length idxs \<and> acts_from (snd sn) acts (snd sn') \<and>
     (\<forall>s0 js cs. constructed X s0 js cs (fst sn) \<longrightarrow>
        constructed X s0 (js @ map (pos_at (cc_invoke X)) idxs) (cs @ cas) (fst sn'))"

lemma adds_nothing: "adds X [] [] [] sn sn"
  by (simp add: adds_def)

lemma adds_append: "adds X i c a sn sm \<Longrightarrow> adds X j d b sm sk \<Longrightarrow> adds X (i @ j) (c @ d) (a @ b) sn sk"
  unfolding adds_def by (auto intro: acts_from_append simp flip: append_assoc)

lemma commit_type_adds:
  assumes E: "engine_ok (me_engine (cc_env X))" and run: "commit_type_try_from_args X args sn = Inr (ct, sn')"
  shows "adds X (cta_committed_accounts_indices args) (ct_get_committed_accounts ct) (ct_actions ct) sn sn'"
proof (cases args)
  case (CommitArgs_Standalone idxs)
  then obtain cas t where "commit_accounts X idxs (fst sn) = Inr (cas, t)" "ct = Commit_Standalone cas" "sn' = (t, snd sn)"
    using run by (auto simp: prog_simps)
  then show ?thesis using commit_accounts_spec [OF E] commit_accounts_length CommitArgs_Standalone
    by (auto simp: adds_def)
next
  case (CommitArgs_WithBaseActions idxs bas)
  then obtain cas t acts where c: "commit_accounts X idxs (fst sn) = Inr (cas, t)"
    and a: "pmap (base_action_try_from_args X) bas (t, snd sn) = Inr (acts, sn')" and ct: "ct = Commit_WithBaseActions cas acts"
    using run by (auto simp: prog_simps)
  obtain s' n' where sn': "sn' = (s', n')" by (cases sn')
  show ?thesis using c ct base_actions_spec [OF a [unfolded sn']] sn' commit_accounts_spec [OF E] commit_accounts_length
      CommitArgs_WithBaseActions
    by (auto simp: adds_def)
qed

lemma undelegate_type_adds:
  assumes "undelegate_type_try_from_args X args sn = Inr (ut, sn')"
  shows "adds X [] [] (ut_actions ut) sn sn'"
proof (cases args)
  case (UndelegateArgs_WithBaseActions bas)
  then obtain acts where a: "pmap (base_action_try_from_args X) bas sn = Inr (acts, sn')" "ut = Undelegate_WithBaseActions acts"
    using assms by (auto simp: prog_simps)
  obtain s n s' n' where "sn = (s, n)" "sn' = (s', n')" by (cases sn; cases sn')
  then show ?thesis using a base_actions_spec [of X bas s n acts s' n'] by (simp add: adds_def)
qed (use assms in \<open>simp add: adds_nothing\<close>)

lemma validate_undelegation_spec:
  assumes "validate_commit_and_undelegate_accounts C idxs s = Inr (u, s')"
  shows "s' = s"
proof -
  have "s' = s \<and> (\<forall>i \<in> set idxs. validate_commit_and_undelegate_account C i s = Inr ((), s))"
    by (rule peach_checks [OF assms [unfolded validate_commit_and_undelegate_accounts_def]])
      (auto simp: validate_commit_and_undelegate_account_def prog_simps split: if_splits)
  then show ?thesis by simp
qed

lemma commit_and_undelegate_adds:
  assumes E: "engine_ok (me_engine (cc_env X))" and run: "commit_and_undelegate_try_from_args X args sn = Inr (cau, sn')"
  shows "adds X (caua_committed_accounts_indices args) (cau_get_committed_accounts cau) (cau_actions cau) sn sn'"
proof -
  obtain t ct sm ut where v: "validate_commit_and_undelegate_accounts (cc_invoke X)
       (cta_committed_accounts_indices (caua_commit_type args)) (fst sn) = Inr ((), t)"
    and c: "commit_type_try_from_args X (caua_commit_type args) (t, snd sn) = Inr (ct, sm)"
    and u: "undelegate_type_try_from_args X (caua_undelegate_type args) sm = Inr (ut, sn')"
    and cau: "cau = \<lparr>commit_action = ct, undelegate_action = ut\<rparr>"
    using run by (auto simp: commit_and_undelegate_try_from_args_def prog_simps)
  have "(t, snd sn) = sn" using validate_undelegation_spec [OF v] by simp
  from adds_append [OF commit_type_adds [OF E c [unfolded this]] undelegate_type_adds [OF u]] cau show ?thesis
    by (simp add: caua_committed_accounts_indices_def cau_get_committed_accounts_def cau_actions_def)
qed

lemma popt_adds:
  assumes "popt f x sn = Inr (y, sn')" and "\<And>a sn b sn'. f a sn = Inr (b, sn') \<Longrightarrow> adds X (g a) (h b) (k b) sn sn'"
  shows "adds X (opt_list g x) (opt_list h y) (opt_list k y) sn sn'"
proof (cases x)
  case (Some a)
  then obtain b where "f a sn = Inr (b, sn')" "y = Some b" using assms(1) by (auto simp: prog_simps)
  with assms(2) [OF this(1)] Some show ?thesis by simp
qed (use assms(1) in \<open>simp add: adds_nothing\<close>)

lemma check_unseen_spec:
  "check_unseen accounts seen = Inr seen' \<Longrightarrow>
     distinct (map ca_pubkey accounts) \<and> ca_pubkey ` set accounts \<inter> seen = {} \<and> seen' = seen \<union> ca_pubkey ` set accounts"
proof (induction accounts arbitrary: seen)
  case (Cons a accounts)
  then have "ca_pubkey a \<notin> seen" "check_unseen accounts (insert (ca_pubkey a) seen) = Inr seen'"
    by (auto simp: check_unseen_def split: if_splits)
  with Cons.IH show ?case by fastforce
qed (simp add: check_unseen_def)

lemma flat_accounts:
  "get_all_committed_accounts b =
     opt_list ct_get_committed_accounts (mib_commit b) @ opt_list cau_get_committed_accounts (mib_commit_and_undelegate b) @
     opt_list ct_get_committed_accounts (mib_commit_finalize b) @
     opt_list cau_get_committed_accounts (mib_commit_finalize_and_undelegate b)"
  by (cases "mib_commit b"; cases "mib_commit_and_undelegate b"; cases "mib_commit_finalize b";
      cases "mib_commit_finalize_and_undelegate b") (simp_all add: bundle_account_defs)

lemma post_validate_spec:
  assumes "post_validate_magic_intent_bundle b = Inr ()"
  shows "\<not> bundle_is_empty b \<and> distinct (map ca_pubkey (get_all_committed_accounts b))"
  using assms
  by (auto simp: post_validate_magic_intent_bundle_def rbind_Inr_iff flat_accounts split: if_splits
      dest!: check_unseen_spec)

definition bundle_indices :: "magic_intent_bundle_args \<Rightarrow> u8 list" where
  "bundle_indices args =
     opt_list cta_committed_accounts_indices (mia_commit args) @
     opt_list caua_committed_accounts_indices (mia_commit_and_undelegate args) @
     opt_list cta_committed_accounts_indices (mia_commit_finalize args) @
     opt_list caua_committed_accounts_indices (mia_commit_finalize_and_undelegate args)"

lemma bundle_spec:
  assumes E: "engine_ok (me_engine (cc_env X))" and run: "bundle_try_from_args X args (s, 0) = Inr (b, (s', n))"
  shows "commits_from (cc_env X) (cc_invoke X) (cc_parent_program_id X) False s
      (map (pos_at (cc_invoke X)) (bundle_indices args)) (get_all_committed_accounts b) s'"
    and "\<forall>c \<in> set (get_all_committed_accounts b). ca_commit_id c \<noteq> 0"
    and "acts_from 0 (bundle_actions b) n" and "\<not> bundle_is_empty b"
    and "me_within_limits (cc_env X) b (ic_authority (cc_invoke X))"
    and "length (opt_list ct_get_committed_accounts (mib_commit b)) = length (opt_list cta_committed_accounts_indices (mia_commit args))"
    and "length (opt_list cau_get_committed_accounts (mib_commit_and_undelegate b))
      = length (opt_list caua_committed_accounts_indices (mia_commit_and_undelegate args))"
    and "length (opt_list ct_get_committed_accounts (mib_commit_finalize b))
      = length (opt_list cta_committed_accounts_indices (mia_commit_finalize args))"
proof -
  let ?ct = "commit_type_try_from_args X" and ?cau = "commit_and_undelegate_try_from_args X"
  obtain c1 s1 c2 s2 as s3 c3 s4 c4 where
      r1: "popt ?ct (mia_commit args) (s, 0) = Inr (c1, s1)"
      and r2: "popt ?cau (mia_commit_and_undelegate args) s1 = Inr (c2, s2)"
      and r3: "pmap (base_action_try_from_args X) (mia_standalone_actions args) s2 = Inr (as, s3)"
      and r4: "popt ?ct (mia_commit_finalize args) s3 = Inr (c3, s4)"
      and r5: "popt ?cau (mia_commit_finalize_and_undelegate args) s4 = Inr (c4, (s', n))"
      and b: "b = \<lparr>mib_commit = c1, mib_commit_and_undelegate = c2, mib_commit_finalize = c3,
        mib_commit_finalize_and_undelegate = c4, mib_standalone_actions = as\<rparr>"
      and post: "post_validate_magic_intent_bundle b = Inr ()"
      and size: "validate_intent_size (cc_env X) (cc_invoke X) b = Inr ()"
    using run unfolding bundle_try_from_args_def by (auto simp: prog_simps Let_def)
  note a1 = popt_adds [OF r1 commit_type_adds [OF E]] and a2 = popt_adds [OF r2 commit_and_undelegate_adds [OF E]]
    and a4 = popt_adds [OF r4 commit_type_adds [OF E]] and a5 = popt_adds [OF r5 commit_and_undelegate_adds [OF E]]
  obtain t2 n2 t3 n3 where "s2 = (t2, n2)" "s3 = (t3, n3)" by (cases s2; cases s3)
  with base_actions_spec [OF r3 [unfolded this]] have a3: "adds X [] [] as s2 s3" by (simp add: adds_def)
  note all = adds_append [OF a1 adds_append [OF a2 adds_append [OF a3 adds_append [OF a4 a5]]]]
  have "adds X (bundle_indices args) (get_all_committed_accounts b) (bundle_actions b) (s, 0) (s', n)"
    using all b by (simp add: bundle_indices_def flat_accounts bundle_actions_def)
  then have acts: "acts_from 0 (bundle_actions b) n"
    and "constructed X s ([] @ map (pos_at (cc_invoke X)) (bundle_indices args)) ([] @ get_all_committed_accounts b) s'"
    using constructed_start unfolding adds_def by (simp, metis fst_conv)
  with post_validate_spec [OF post] show
    "commits_from (cc_env X) (cc_invoke X) (cc_parent_program_id X) False s
      (map (pos_at (cc_invoke X)) (bundle_indices args)) (get_all_committed_accounts b) s'"
    "\<forall>c \<in> set (get_all_committed_accounts b). ca_commit_id c \<noteq> 0" "acts_from 0 (bundle_actions b) n"
    "\<not> bundle_is_empty b"
    by (simp_all add: constructed_def)
  show "me_within_limits (cc_env X) b (ic_authority (cc_invoke X))"
    using size by (simp add: validate_intent_size_def split: if_splits)
  show "length (opt_list ct_get_committed_accounts (mib_commit b)) = length (opt_list cta_committed_accounts_indices (mia_commit args))"
    "length (opt_list cau_get_committed_accounts (mib_commit_and_undelegate b))
      = length (opt_list caua_committed_accounts_indices (mia_commit_and_undelegate args))"
    "length (opt_list ct_get_committed_accounts (mib_commit_finalize b))
      = length (opt_list cta_committed_accounts_indices (mia_commit_finalize args))"
    using a1 a2 a4 b by (simp_all add: adds_def)
qed

section \<open>The handlers\<close>

definition locked :: "shared_account \<Rightarrow> bool" where
  "locked a \<longleftrightarrow> acc_owner a = DELEGATION_PROGRAM_ID \<and> sh_mode a = Mode_Undelegating"

lemma mark_all_spec:
  assumes E: "engine_ok E" and "peach (\<lambda>(_, r). mark_account_as_undelegated E r) refs s = Inr (u, s')"
  shows "keeps (\<lambda>a. (acc_data a, sh_commit_seq a)) s s' \<and> (\<forall>r \<in> set refs. locked (s' ! ia_tx_idx (snd r))) \<and>
    (\<forall>j. j < length s \<and> locked (s ! j) \<longrightarrow> locked (s' ! j))"
  using assms(2) unfolding peach_def
proof (induction refs arbitrary: s)
  case (Cons r refs)
  let ?i = "ia_tx_idx (snd r)"
  obtain t where t: "mark_account_as_undelegated E (snd r) s = Inr ((), t)"
    and rest: "pfor refs (\<lambda>x _. (\<lambda>(_, r). mark_account_as_undelegated E r) x) () t = Inr (u, s')"
    using Cons.prems by (cases r) (auto simp: prog_simps)
  note m = mark_spec [OF E t] and ih = Cons.IH [OF rest]
  have "keeps (\<lambda>a. (acc_data a, sh_commit_seq a)) s t" using m by (auto intro: keeps_update)
  moreover have "locked (t ! ?i)" "?i < length t" using m by (simp_all add: locked_def)
  moreover have "locked (t ! j)" if "j < length s" "locked (s ! j)" for j
    using m that by (cases "j = ?i") (auto simp: locked_def)
  ultimately show ?case using ih m by (auto intro: keeps_trans)
qed simp

lemma mark_refs_bound:
  assumes E: "engine_ok E" and "peach (\<lambda>(_, r). mark_account_as_undelegated E r) refs s = Inr (u, s')" and "r \<in> set refs"
  shows "ia_tx_idx (snd r) < length s'"
  using assms(2,3) unfolding peach_def
proof (induction refs arbitrary: s)
  case (Cons q refs)
  obtain t where t: "mark_account_as_undelegated E (snd q) s = Inr ((), t)"
    and rest: "pfor refs (\<lambda>x _. (\<lambda>(_, r). mark_account_as_undelegated E r) x) () t = Inr (u, s')"
    using Cons.prems by (cases q) (auto simp: prog_simps)
  have "length s' = length t" using mark_all_spec [OF E rest [folded peach_def]] keeps_length by blast
  then show ?case using mark_spec [OF E t] Cons.IH [OF rest] Cons.prems(2) by auto
qed simp

lemma vault_keeps_store:
  assumes "try_get_fee_vault E C i j s = Inr (r, s')" shows "s' = s"
proof -
  have "\<And>v. pguard b e s = Inr v \<Longrightarrow> v = ((), s)" for b e by auto
  then show ?thesis
    using assms by (auto simp: try_get_fee_vault_def prog_simps Let_def split: sum.splits if_splits)
qed

lemma read_context_Inr:
  "read_context M a e s = Inr (c, s') \<longleftrightarrow>
     s' = s \<and> ia_tx_idx a < length s \<and> magic_context_deserialize M (acc_data (s ! ia_tx_idx a)) = Some c"
  by (cases "magic_context_deserialize M (acc_data (s ! ia_tx_idx a))") (auto simp: read_context_def prog_simps)

lemma write_context_spec:
  assumes "context_codec_ok M" and "write_context M a c s = Inr (u, s')"
  shows "magic_context_deserialize M (acc_data (s' ! ia_tx_idx a)) = Some c"
    and "keeps (acc_data_update (\<lambda>_. [])) s s'"
    and "\<exists>d. s' = s[ia_tx_idx a := (s ! ia_tx_idx a)\<lparr>acc_data := d\<rparr>] \<and> ia_tx_idx a < length s \<and> d \<noteq> []"
proof -
  let ?i = "ia_tx_idx a"
  obtain d where d: "?i < length s" "write_to M c (acc_data (s ! ?i)) = Inr d" "s' = s[?i := (s ! ?i)\<lparr>acc_data := d\<rparr>]"
    using assms(2) by (auto simp: write_context_def prog_simps rbind_Inr_iff)
  note r = context_round_trip [OF assms(1) d(2)]
  show "magic_context_deserialize M (acc_data (s' ! ?i)) = Some c" using r d by simp
  show "keeps (acc_data_update (\<lambda>_. [])) s s'" unfolding d(3) by (rule keeps_update) simp
  show "\<exists>d. s' = s[?i := (s ! ?i)\<lparr>acc_data := d\<rparr>] \<and> ?i < length s \<and> d \<noteq> []" using d r by blast
qed

text \<open>The queue an instruction sees.\<close>

abbreviation context_pos :: "invoke_context \<Rightarrow> nat" where "context_pos C \<equiv> im_index (ic_metas C ! 1)"

definition queue :: "('t, 'x) magic_env_scheme \<Rightarrow> nat \<Rightarrow> store \<Rightarrow> magic_context option" where
  "queue M p s = magic_context_deserialize M (acc_data (s ! p))"

definition push :: "scheduled_intent_bundle \<Rightarrow> magic_context \<Rightarrow> magic_context" where
  "push i c = c\<lparr>mc_intent_id := mc_intent_id c + 1, mc_scheduled_base_intents := mc_scheduled_base_intents c @ [i]\<rparr>"

lemma commits_from_data:
  assumes "commits_from M C parent u s0 js cs s"
  shows "keeps acc_data s0 s"
  unfolding keeps_def
  by (rule nth_equalityI) (use assms in \<open>auto simp: commits_from_def after_commit_def Let_def dest!: spec split: if_splits\<close>)

abbreviation status_of :: "shared_account \<Rightarrow> u32 \<times> account_mode \<times> pubkey" where
  "status_of a \<equiv> (sh_commit_seq a, sh_mode a, acc_owner a)"

lemma keeps_of_data: "keeps (acc_data_update (\<lambda>_. [])) s s' \<Longrightarrow> keeps status_of s s'"
  by (erule keeps_view [where g = status_of]) simp

text \<open>Paying for a commit only moves lamports.\<close>

lemma payment_keeps:
  assumes "(case v of Some x \<Rightarrow> pbind (plift r) (\<lambda>fee. charge_delegated_payer a x fee) | None \<Rightarrow> m) s = Inr (u, s')"
    and "\<And>u s'. m s = Inr (u, s') \<Longrightarrow> s' = s"
  shows "keeps acc_data s s' \<and> keeps status_of s s'"
proof (cases v)
  case None
  then have "s' = s" using assms by simp
  then show ?thesis by simp
qed (use assms(1) in \<open>auto simp: prog_simps charge_keeps\<close>)

lemma schedule_commit_spec:
  assumes E: "engine_ok (me_engine M)" and codec: "context_codec_ok M" and run: "process_schedule_commit M C u s = Inr (x, s')"
  obtains parent slot payer cs js t ctx where
    "ic_caller C = Inr parent" "payer \<in> ic_signers C" "commits_from M C parent u s js cs t" "cs \<noteq> []"
    "keeps status_of t s'" "queue M (context_pos C) s = Some ctx"
    "queue M (context_pos C) s' = Some (push \<lparr>sib_intent_id = mc_intent_id ctx, sib_slot = slot,
       sib_blockhash = ic_blockhash C, sib_payer = payer, sib_intent_bundle = commit_base_intent u cs\<rparr> ctx)"
    "context_pos C < length s" "context_pos C < length (ic_keys C)" "ic_keys C ! context_pos C = MAGIC_CONTEXT_PUBKEY"
    "me_within_limits M (commit_base_intent u cs) (ic_authority C)"
proof -
  let ?p = "context_pos C" and ?payer = "ic_keys C ! im_index (ic_metas C ! 0)"
  let ?pa = "\<lparr>ia_instruction_idx = 0, ia_tx_idx = im_index (ic_metas C ! 0)\<rparr>"
  let ?ca = "\<lparr>ia_instruction_idx = 1, ia_tx_idx = ?p\<rparr>"
  obtain vault start parent seen cs t t' ctx slot where
    key: "check_magic_context_id C 1 = Inr ()" and signer: "?payer \<in> ic_signers C"
    and start: "start < length (ic_metas C)" and parent: "ic_caller C = Inr parent"
    and loop: "schedule_commit_accounts M C u parent start s = Inr ((seen, cs), t)"
    and pay: "(case vault of Some x \<Rightarrow> pbind (plift (calculate_commit_fee cs)) (\<lambda>fee. charge_delegated_payer ?pa x fee)
      | None \<Rightarrow> if \<not> u then plift (check_commit_limits cs) else pret ()) t = Inr ((), t')"
    and ctx: "read_context M ?ca GenericError t' = Inr (ctx, t')"
    and size: "validate_intent_size M C (commit_base_intent u cs) = Inr ()"
    and wr: "write_context M ?ca (push \<lparr>sib_intent_id = mc_intent_id ctx, sib_slot = slot,
       sib_blockhash = ic_blockhash C, sib_payer = ?payer, sib_intent_bundle = commit_base_intent u cs\<rparr> ctx) t' = Inr (x, s')"
    using run
    by (auto simp: process_schedule_commit_def prog_simps PAYER_IDX_def MAGIC_CONTEXT_IDX_def get_parent_program_id_def
        next_intent_id_def add_scheduled_action_def push_def read_context_Inr numeral_2_eq_2 result_simps get_clock_def
        Let_def dest!: vault_keeps_store)
  obtain js where from_: "commits_from M C parent u s js cs t" and "cs \<noteq> []"
    using schedule_commit_accounts_spec [OF E loop start] by blast
  have keeps: "keeps acc_data t t' \<and> keeps status_of t t'"
    by (rule payment_keeps [OF pay]) (auto split: if_splits)
  note w = write_context_spec [OF codec wr]
  have "keeps acc_data s t'" using commits_from_data [OF from_] keeps by (blast intro: keeps_trans)
  moreover have "?p < length t'" using ctx by (simp add: read_context_Inr)
  ultimately have "?p < length s" "acc_data (t' ! ?p) = acc_data (s ! ?p)"
    using keeps_length [of acc_data s t'] by (simp_all add: keeps_nth)
  then have q: "queue M ?p s = Some ctx" using ctx by (simp add: queue_def read_context_Inr)
  have "ic_keys C ! ?p = MAGIC_CONTEXT_PUBKEY" "?p < length (ic_keys C)"
    using key by (auto simp: check_magic_context_id_def rbind_Inr_iff get_pubkey_Inr ensure_def split: if_splits)
  moreover have "keeps status_of t s'" using keeps keeps_of_data [OF w(2)] by (blast intro: keeps_trans)
  moreover have "me_within_limits M (commit_base_intent u cs) (ic_authority C)"
    using size by (simp add: validate_intent_size_def split: if_splits)
  ultimately show ?thesis
    using that [OF parent signer from_ \<open>cs \<noteq> []\<close> _ q _ \<open>?p < length s\<close>] w(1) by (simp add: queue_def)
qed

lemma context_key:
  "check_magic_context_id C 1 = Inr () \<Longrightarrow>
     ic_keys C ! context_pos C = MAGIC_CONTEXT_PUBKEY \<and> context_pos C < length (ic_keys C)"
  by (auto simp: check_magic_context_id_def rbind_Inr_iff get_pubkey_Inr ensure_def split: if_splits)

lemma schedule_bundle_spec:
  assumes E: "engine_ok (me_engine M)" and codec: "context_codec_ok M"
    and run: "process_schedule_intent_bundle M C args secure s = Inr (x, s')"
  obtains parent slot payer b n t ctx where
    "ic_caller C = Inr parent" "payer \<in> ic_signers C"
    "bundle_try_from_args \<lparr>cc_env = M, cc_invoke = C, cc_parent_program_id = parent, cc_secure = secure\<rparr> args (s, 0)
       = Inr (b, (t, n))"
    "keeps sh_commit_seq t s'" "\<forall>i \<in> set (undelegated_account_indices args). locked (s' ! pos_at C i)"
    "queue M (context_pos C) s = Some ctx"
    "queue M (context_pos C) s' = Some (push \<lparr>sib_intent_id = mc_intent_id ctx, sib_slot = slot,
       sib_blockhash = ic_blockhash C, sib_payer = payer, sib_intent_bundle = b\<rparr> ctx)"
    "context_pos C < length s" "context_pos C < length (ic_keys C)" "ic_keys C ! context_pos C = MAGIC_CONTEXT_PUBKEY"
proof -
  let ?p = "context_pos C" and ?payer = "ic_keys C ! im_index (ic_metas C ! 0)"
  let ?pa = "\<lparr>ia_instruction_idx = 0, ia_tx_idx = im_index (ic_metas C ! 0)\<rparr>"
  let ?ca = "\<lparr>ia_instruction_idx = 1, ia_tx_idx = ?p\<rparr>"
  obtain parent slot ctx i t refs t1 t2 vault t3 where
    key: "check_magic_context_id C 1 = Inr ()" and parent: "ic_caller C = Inr parent" and signer: "?payer \<in> ic_signers C"
    and ctx: "read_context M ?ca GenericError s = Inr (ctx, s)"
    and build: "build_scheduled_intent \<lparr>cc_env = M, cc_invoke = C, cc_parent_program_id = parent, cc_secure = secure\<rparr>
      args (mc_intent_id ctx) slot ?payer s = Inr (i, t)"
    and refs: "extract_commit_accounts C (undelegated_account_indices args) t = Inr (refs, t1)"
    and mark: "peach (\<lambda>(_, account_ref). mark_account_as_undelegated (me_engine M) account_ref) refs t1 = Inr ((), t2)"
    and pay: "(case vault of Some x \<Rightarrow> pbind (plift (sib_calculate_fee i)) (\<lambda>fee. charge_delegated_payer ?pa x fee)
      | None \<Rightarrow> plift (try_for_each check_commit_limits (List.map_filter id
              [get_commit_intent_accounts (sib_intent_bundle i),
               get_commit_finalize_intent_accounts (sib_intent_bundle i)]))) t2 = Inr ((), t3)"
    and wr: "write_context M ?ca (push i ctx) t3 = Inr (x, s')"
    using run
    by (auto simp: process_schedule_intent_bundle_def prog_simps PAYER_IDX_def MAGIC_CONTEXT_IDX_def get_parent_program_id_def
        next_intent_id_def add_scheduled_action_def push_def read_context_Inr result_simps get_clock_def
        Let_def dest!: vault_keeps_store)
  obtain b n where b: "bundle_try_from_args \<lparr>cc_env = M, cc_invoke = C, cc_parent_program_id = parent, cc_secure = secure\<rparr>
      args (s, 0) = Inr (b, (t, n))"
    and i: "i = \<lparr>sib_intent_id = mc_intent_id ctx, sib_slot = slot, sib_blockhash = ic_blockhash C,
      sib_payer = ?payer, sib_intent_bundle = b\<rparr>"
    using build by (auto simp: build_scheduled_intent_def sib_try_new_def prog_simps rbind_Inr_iff)
  have t1: "t1 = t" "map (ia_tx_idx \<circ> snd) refs = map (pos_at C) (undelegated_account_indices args)"
    using extract_spec [OF refs] by auto
  note m = mark_all_spec [OF E mark] and w = write_context_spec [OF codec wr]
  have pk: "keeps acc_data t2 t3 \<and> keeps status_of t2 t3" by (rule payment_keeps [OF pay]) auto
  have status: "keeps status_of t2 s'" using pk keeps_of_data [OF w(2)] by (blast intro: keeps_trans)
  have seq: "keeps sh_commit_seq t s'"
  proof (rule keeps_trans)
    have "keeps (\<lambda>a. (acc_data a, sh_commit_seq a)) t t2" using m t1(1) by simp
    then show "keeps sh_commit_seq t t2" by (rule keeps_view [where g = snd]) simp
    show "keeps sh_commit_seq t2 s'" by (rule keeps_view [OF status, where g = fst]) simp
  qed
  have "locked (s' ! pos_at C i)" if "i \<in> set (undelegated_account_indices args)" for i
  proof -
    have "pos_at C i \<in> set (map (ia_tx_idx \<circ> snd) refs)" using that t1(2) by simp
    then obtain r where r: "r \<in> set refs" "ia_tx_idx (snd r) = pos_at C i" by auto
    then have "locked (t2 ! pos_at C i)" using m by auto
    moreover have "pos_at C i < length t2" using mark_refs_bound [OF E mark r(1)] r(2) by simp
    ultimately show ?thesis using keeps_nth [OF status] by (simp add: locked_def)
  qed
  moreover have "?p < length s" "queue M ?p s = Some ctx" using ctx by (simp_all add: queue_def read_context_Inr)
  ultimately show ?thesis
    using that [OF parent signer b seq] context_key [OF key] w(1) i by (simp add: queue_def)
qed

section \<open>Scheduling is authorised\<close>

definition undelegated_accounts :: "magic_intent_bundle \<Rightarrow> committed_account list" where
  "undelegated_accounts b =
     opt_list cau_get_committed_accounts (mib_commit_and_undelegate b) @
     opt_list cau_get_committed_accounts (mib_commit_finalize_and_undelegate b)"

lemma commit_base_intent_accounts:
  "get_all_committed_accounts (commit_base_intent u cs) = cs"
  "undelegated_accounts (commit_base_intent u cs) = (if u then cs else [])"
  "bundle_actions (commit_base_intent u cs) = []"
  by (simp_all add: flat_accounts commit_base_intent_def default_bundle_def undelegated_accounts_def
      cau_get_committed_accounts_def bundle_actions_def cau_actions_def)

text \<open>What a scheduled intent owes to the accounts before and after.\<close>

definition authorised_intent ::
    "'t magic_env \<Rightarrow> invoke_context \<Rightarrow> pubkey option \<Rightarrow> store \<Rightarrow> scheduled_intent_bundle \<Rightarrow> store \<Rightarrow> bool" where
  "authorised_intent M C parent s i s' \<longleftrightarrow>
     (\<forall>c \<in> set (sib_get_all_committed_accounts i). \<exists>j. origin M C parent s c j \<and>
        sh_commit_seq (s' ! j) = sh_commit_seq (s ! j) + 1 \<and>
        (c \<in> set (undelegated_accounts (sib_intent_bundle i)) \<longrightarrow> locked (s' ! j)))"

lemma schedule_commit_authorised:
  assumes from_: "commits_from M C parent u s js cs t" and keeps: "keeps status_of t s'"
    and i: "sib_intent_bundle i = commit_base_intent u cs"
  shows "authorised_intent M C parent s i s'"
  unfolding authorised_intent_def
proof
  fix c assume "c \<in> set (sib_get_all_committed_accounts i)"
  then have "c \<in> set cs" by (simp add: sib_get_all_committed_accounts_def i commit_base_intent_accounts)
  then obtain j where o: "origin M C parent s c j" and t: "t ! j = after_commit u (s ! j)"
    by (rule commits_from_member [OF from_])
  have "j < length t" using from_ o by (simp add: commits_from_def origin_def)
  then have "status_of (s' ! j) = status_of (after_commit u (s ! j))" using keeps_nth [OF keeps] t by simp
  then show "\<exists>j. origin M C parent s c j \<and> sh_commit_seq (s' ! j) = sh_commit_seq (s ! j) + 1 \<and>
      (c \<in> set (undelegated_accounts (sib_intent_bundle i)) \<longrightarrow> locked (s' ! j))"
    using o by (intro exI [of _ j]) (auto simp: after_commit_def i commit_base_intent_accounts locked_def Let_def)
qed

lemma bundle_origin:
  assumes "c \<in> set (A1 @ A2 @ A3 @ A4)" and "length (A1 @ A2 @ A3 @ A4) = length (map f (I1 @ I2 @ I3 @ I4))"
    and "length A1 = length I1" "length A2 = length I2" "length A3 = length I3"
  shows "\<exists>j. (c, j) \<in> set (zip (A1 @ A2 @ A3 @ A4) (map f (I1 @ I2 @ I3 @ I4))) \<and>
    (c \<in> set (A2 @ A4) \<longrightarrow> j \<in> f ` set (I2 @ I4))"
proof -
  have len: "length A4 = length I4" using assms by simp
  have z: "zip (A1 @ A2 @ A3 @ A4) (map f (I1 @ I2 @ I3 @ I4)) =
      zip A1 (map f I1) @ zip A2 (map f I2) @ zip A3 (map f I3) @ zip A4 (map f I4)"
    using assms(3-5) by simp
  have in_zip: "\<exists>j. (c, j) \<in> set (zip A (map f I)) \<and> j \<in> f ` set I" if "c \<in> set A" "length A = length I" for A I
  proof -
    have "length A = length (map f I)" using that(2) by simp
    from in_set_impl_in_set_zip1 [OF this that(1)] obtain j where "(c, j) \<in> set (zip A (map f I))" by blast
    then show ?thesis using set_zip_rightD by fastforce
  qed
  show ?thesis
  proof (cases "c \<in> set A2 \<or> c \<in> set A4")
    case True
    then show ?thesis using in_zip [of A2 I2] in_zip [of A4 I4] assms(4) len unfolding z by auto
  next
    case False
    then show ?thesis using in_zip [of A1 I1] in_zip [of A3 I3] assms(1,3,5) unfolding z by auto
  qed
qed

lemma schedule_bundle_authorised:
  assumes E: "engine_ok (me_engine M)"
    and b: "bundle_try_from_args \<lparr>cc_env = M, cc_invoke = C, cc_parent_program_id = parent, cc_secure = secure\<rparr>
      args (s, 0) = Inr (b, (t, n))"
    and keeps: "keeps sh_commit_seq t s'" and lock: "\<forall>i \<in> set (undelegated_account_indices args). locked (s' ! pos_at C i)"
    and i: "sib_intent_bundle i = b"
  shows "authorised_intent M C parent s i s'"
  unfolding authorised_intent_def
proof
  let ?X = "\<lparr>cc_env = M, cc_invoke = C, cc_parent_program_id = parent, cc_secure = secure\<rparr>"
  note spec = bundle_spec [OF _ b, simplified, OF E]
  let ?cs = "get_all_committed_accounts b" and ?js = "map (pos_at C) (bundle_indices args)"
  fix c assume "c \<in> set (sib_get_all_committed_accounts i)"
  then have "c \<in> set ?cs" by (simp add: sib_get_all_committed_accounts_def i)
  moreover have "length ?cs = length ?js" using spec(1) by (simp add: commits_from_def)
  ultimately obtain j where j: "(c, j) \<in> set (zip ?cs ?js)"
    and u: "c \<in> set (undelegated_accounts b) \<Longrightarrow> j \<in> pos_at C ` set (undelegated_account_indices args)"
    using bundle_origin [of c _ _ _ _ "pos_at C", OF _ _ spec(6-8)]
    unfolding flat_accounts bundle_indices_def undelegated_accounts_def undelegated_account_indices_def by metis
  have o: "origin M C parent s c j" and t: "t ! j = after_commit False (s ! j)" and "j < length t"
    using spec(1) j by (auto simp: commits_from_def origin_def)
  then have "sh_commit_seq (s' ! j) = sh_commit_seq (s ! j) + 1"
    using keeps_nth [OF keeps, of j] by (simp add: after_commit_def)
  then show "\<exists>j. origin M C parent s c j \<and> sh_commit_seq (s' ! j) = sh_commit_seq (s ! j) + 1 \<and>
      (c \<in> set (undelegated_accounts (sib_intent_bundle i)) \<longrightarrow> locked (s' ! j))"
    using o u lock i by (intro exI [of _ j]) auto
qed

end
