(* ===== verification/Outbox_Life.thy ===== *)
theory Outbox_Life
  imports Intent_Acceptance
begin

text \<open>
  The life of an outbox record in the accounts: any number of stage changes, through
  \<^verbatim>\<open>process_set_intent_execution_stage\<close>, and the closing. The byte length of a record is fixed by
  its intent, so the handler's copy into the account cannot panic, and the status it holds is
  always the end of a run of the stage machine of \<^verbatim>\<open>Outbox_Model\<close>.
\<close>

section \<open>One change of the stage\<close>

abbreviation record_pos :: "invoke_context \<Rightarrow> nat" where "record_pos C \<equiv> im_index (ic_metas C ! 1)"

lemma apply_stage_keeps:
  assumes "apply_stage_transition b stage nonces = (b', Inr ())"
  shows "oib_inner b' = oib_inner b" "oib_bump b' = oib_bump b"
    "status_apply_transition (oib_status b) stage = Inr (oib_status b')"
  using assms by (auto simp: apply_stage_transition_def Let_def split: sum.splits if_splits)

lemma validate_stage_Inr:
  assumes "validate_stage_change E B C i s = Inr (b, s')"
  shows "s' = s \<and> record_pos C < length s \<and> 1 < length (ic_metas C) \<and> try_from_bytes B (acc_data (s ! record_pos C)) = Some b"
  using assms by (auto simp: validate_stage_change_def prog_simps result_simps)

text \<open>The account holds a record written by the program itself.\<close>

definition holds :: "outbox_env \<Rightarrow> shared_account \<Rightarrow> outbox_intent_bundle \<Rightarrow> bool" where
  "holds B a b \<longleftrightarrow> try_to_bytes B b = Some (acc_data a)"

lemma holds_reads: "outbox_codec_ok B \<Longrightarrow> holds B a b \<Longrightarrow> try_from_bytes B (acc_data a) = Some b"
  unfolding holds_def by (erule (1) to_bytes_Some)

lemma same_length:
  assumes "outbox_codec_ok B" and "try_to_bytes B b = Some d" "try_to_bytes B b' = Some d'" and "oib_inner b' = oib_inner b"
  shows "length d' = length d"
proof -
  obtain m where "max_body_size B (oib_inner b) = Some m" "length d = 8 + m" by (rule to_bytes_Some [OF assms(1,2)])
  moreover obtain m' where "max_body_size B (oib_inner b') = Some m'" "length d' = 8 + m'"
    by (rule to_bytes_Some [OF assms(1,3)])
  ultimately show ?thesis using assms(4) by simp
qed

lemma set_stage_eq:
  assumes "1 < length (ic_metas C)" and "record_pos C < length s" and "apply_stage_transition b stage nonces = (b', res)"
  shows "set_new_execution_stage B C stage nonces b s =
    (case res of Inl _ \<Rightarrow> Some (Inl InvalidArgument)
     | Inr _ \<Rightarrow> (case try_to_bytes B b' of None \<Rightarrow> Some (Inl InvalidAccountData)
        | Some d \<Rightarrow> map_option (\<lambda>d. Inr ((), s[record_pos C := (s ! record_pos C)\<lparr>acc_data := d\<rparr>]))
            (copy_record (acc_data (s ! record_pos C)) d)))"
  using assms
  by (simp add: set_new_execution_stage_def get_instruction_account_with_idx_def meta_at_def
      split: sum.split option.split unit.split)

lemma stage_change_no_panic:
  assumes "outbox_codec_ok B" and "holds B (s ! record_pos C) b"
  shows "process_set_intent_execution_stage E B C i stage nonces s \<noteq> None"
proof (cases "validate_stage_change E B C i s")
  case (Inl e)
  then show ?thesis by (simp add: process_set_intent_execution_stage_def)
next
  case (Inr r)
  obtain b0 s0 where r: "r = (b0, s0)" by (cases r)
  note v = validate_stage_Inr [OF Inr [unfolded r]]
  have b: "b0 = b" using v holds_reads [OF assms] by simp
  obtain b' res where p: "apply_stage_transition b stage nonces = (b', res)" by (cases "apply_stage_transition b stage nonces")
  have eq: "process_set_intent_execution_stage E B C i stage nonces s = set_new_execution_stage B C stage nonces b s"
    using Inr r v b by (simp add: process_set_intent_execution_stage_def)
  note set_eq = set_stage_eq [OF _ _ p, of C s B]
  show ?thesis
  proof (cases res)
    case (Inl e)
    then show ?thesis using eq set_eq v by simp
  next
    case Ok: (Inr u)
    then have inner: "oib_inner b' = oib_inner b" using apply_stage_keeps(1) p by simp
    show ?thesis
    proof (cases "try_to_bytes B b'")
      case None
      then show ?thesis using eq set_eq v Ok by simp
    next
      case (Some d)
      have "length d = length (acc_data (s ! record_pos C))"
        by (rule same_length [OF assms(1) assms(2) [unfolded holds_def] Some inner])
      then show ?thesis using eq set_eq v Ok Some by (simp add: copy_record_def)
    qed
  qed
qed

lemma stage_change_spec:
  assumes "outbox_codec_ok B" and "process_set_intent_execution_stage E B C i stage nonces s = Some (Inr (u, s'))"
  obtains b b' d where "record_pos C < length s" "try_from_bytes B (acc_data (s ! record_pos C)) = Some b"
    "apply_stage_transition b stage nonces = (b', Inr ())" "try_to_bytes B b' = Some d"
    "s' = s[record_pos C := (s ! record_pos C)\<lparr>acc_data := d\<rparr>]"
proof -
  obtain b s0 where v: "validate_stage_change E B C i s = Inr (b, s0)"
    and set_: "set_new_execution_stage B C stage nonces b s0 = Some (Inr (u, s'))"
    using assms(2) by (auto simp: process_set_intent_execution_stage_def split: sum.splits)
  note spec = validate_stage_Inr [OF v]
  obtain b' res where p: "apply_stage_transition b stage nonces = (b', res)" by (cases "apply_stage_transition b stage nonces")
  have eq: "set_new_execution_stage B C stage nonces b s = Some (Inr (u, s'))" using set_ spec by simp
  note eq' = eq [unfolded set_stage_eq [OF conjunct1 [OF conjunct2 [OF conjunct2 [OF spec]]] conjunct1 [OF conjunct2 [OF spec]] p]]
  show ?thesis
  proof (cases res)
    case Ok: (Inr v)
    show ?thesis
    proof (cases "try_to_bytes B b'")
      case (Some d)
      then have "s' = s[record_pos C := (s ! record_pos C)\<lparr>acc_data := d\<rparr>]"
        using eq' Ok by (simp add: copy_record_def split: if_splits)
      then show ?thesis using that [of b b' d] spec p Ok Some by simp
    qed (use eq' Ok in simp)
  qed (use eq' in simp)
qed

section \<open>Any number of changes\<close>

inductive stage_step :: "engine \<Rightarrow> outbox_env \<Rightarrow> store \<Rightarrow> store \<Rightarrow> bool" for E B where
  change: "process_set_intent_execution_stage E B C i stage nonces s = Some (Inr (u, s')) \<Longrightarrow> stage_step E B s s'"

definition living :: "outbox_env \<Rightarrow> scheduled_intent_bundle \<Rightarrow> u8 \<Rightarrow> shared_account \<Rightarrow> bool" where
  "living B i bump a \<longleftrightarrow> (\<exists>b ss. holds B a b \<and> oib_inner b = i \<and> oib_bump b = bump \<and> stage_run ss \<and> last ss = oib_status b)"

lemma accepted_living:
  assumes "holds B a (accepted i bump)" shows "living B i bump a"
proof -
  have "stage_run [Accepted]" by (rule run_start)
  then show ?thesis
    unfolding living_def using assms by (intro exI [of _ "accepted i bump"] exI [of _ "[Accepted]"]) (simp add: accepted_def)
qed

lemma step_living:
  assumes codec: "outbox_codec_ok B" and "stage_step E B s s'" and j: "j < length s" and l: "living B i bump (s ! j)"
  shows "j < length s' \<and> living B i bump (s' ! j)"
  using assms(2)
proof cases
  case (change C k stage nonces u)
  obtain b b' d where c: "record_pos C < length s" "try_from_bytes B (acc_data (s ! record_pos C)) = Some b"
    "apply_stage_transition b stage nonces = (b', Inr ())" "try_to_bytes B b' = Some d"
    "s' = s[record_pos C := (s ! record_pos C)\<lparr>acc_data := d\<rparr>]"
    by (rule stage_change_spec [OF codec change])
  show ?thesis
  proof (cases "record_pos C = j")
    case True
    obtain b0 ss where b0: "holds B (s ! j) b0" "oib_inner b0 = i" "oib_bump b0 = bump" "stage_run ss" "last ss = oib_status b0"
      using l by (auto simp: living_def)
    have "b = b0" using c(2) True holds_reads [OF codec b0(1)] by simp
    note k = apply_stage_keeps [OF c(3)]
    have "stage_run (ss @ [oib_status b'])" by (rule run_step [OF b0(4)]) (use k(3) b0(5) \<open>b = b0\<close> in simp)
    then have "living B i bump (s' ! j)"
      unfolding living_def using c True k(1,2) b0(2,3) \<open>b = b0\<close>
      by (intro exI [of _ b'] exI [of _ "ss @ [oib_status b']"]) (simp add: holds_def)
    then show ?thesis using j c(5) by simp
  qed (use l j c(5) in simp)
qed

interpretation outbox_record: invariant_system
    "\<lambda>s. outbox_codec_ok B \<and> j < length s \<and> holds B (s ! j) (accepted i bump)" "stage_step E B"
    "\<lambda>s. outbox_codec_ok B \<and> j < length s \<and> living B i bump (s ! j)" for B j i bump E
  by unfold_locales (auto simp: accepted_living dest: step_living)

lemma close_final:
  assumes "process_close_outbox_intent E B C k s = Inr (u, s')"
  shows "\<exists>b. try_from_bytes B (acc_data (s ! record_pos C)) = Some b \<and> is_final_stage b"
  using assms by (auto simp: process_close_outbox_intent_def validate_close_def validate_closing_authority_def prog_simps result_simps)

text \<open>
  Claim C11. A record of the outbox survives every stage change: from the record of an accepted
  intent, after any sequence of successful stage changes, on this or on other records, the account
  still reads as that intent with that bump, its status is the end of a run of the stage machine,
  no further stage change of it panics, and it can be closed as finished only in a final status.
\<close>

theorem record_survives:
  assumes "outbox_codec_ok B" and "j < length s" and "try_to_bytes B (accepted i bump) = Some (acc_data (s ! j))"
    and "(stage_step E B)\<^sup>*\<^sup>* s t"
  shows "(\<exists>b ss. try_from_bytes B (acc_data (t ! j)) = Some b \<and> oib_inner b = i \<and> oib_bump b = bump \<and>
           stage_run ss \<and> last ss = oib_status b \<and>
           (\<forall>C k t'. record_pos C = j \<longrightarrow> process_close_outbox_intent E B C k t = Inr ((), t') \<longrightarrow> is_final_status (last ss))) \<and>
         (\<forall>C k stage nonces. record_pos C = j \<longrightarrow> process_set_intent_execution_stage E B C k stage nonces t \<noteq> None)"
proof -
  obtain b ss where b: "holds B (t ! j) b" "oib_inner b = i" "oib_bump b = bump" "stage_run ss" "last ss = oib_status b"
    using outbox_record.reachable_inv [OF _ assms(4), of j i bump] assms(1-3) by (auto simp: living_def holds_def)
  note r = holds_reads [OF assms(1) b(1)]
  have "is_final_status (last ss)" if "record_pos C = j" "process_close_outbox_intent E B C k t = Inr ((), t')" for C k t'
    using close_final [OF that(2)] that(1) r b(5) by (simp add: is_final_stage_def)
  moreover have "process_set_intent_execution_stage E B C k stage nonces t \<noteq> None" if "record_pos C = j" for C k stage nonces
    using stage_change_no_panic [OF assms(1)] b(1) that by blast
  ultimately show ?thesis using b r by blast
qed

end
