(* ===== verification/Queue_Invariant.thy ===== *)
theory Queue_Invariant
  imports Outbox_Life
begin

text \<open>
  The queue of scheduled intents over the whole life of the validator: a well-formedness of queues
  that every instruction of the magic program keeps, and the authority behind every scheduled intent.
\<close>

section \<open>Attaching a callback\<close>

lemma add_callback_spec:
  assumes E: "engine_ok (me_engine M)" and codec: "context_codec_ok M"
    and run: "process_add_action_callback M C args s = Inr (x, s')"
  obtains parent slot payer ctx i where
    "queue M (context_pos C) s = Some ctx" "mc_scheduled_base_intents ctx \<noteq> []"
    "attach_callback (me_engine M) C parent slot payer args (last (mc_scheduled_base_intents ctx)) = Inr i"
    "queue M (context_pos C) s' = Some (ctx\<lparr>mc_scheduled_base_intents := butlast (mc_scheduled_base_intents ctx) @ [i]\<rparr>)"
    "context_pos C < length s" "context_pos C < length (ic_keys C)" "ic_keys C ! context_pos C = MAGIC_CONTEXT_PUBKEY"
    "length s' = length s"
proof -
  let ?p = "context_pos C" and ?payer = "ic_keys C ! im_index (ic_metas C ! 0)"
  let ?pa = "\<lparr>ia_instruction_idx = 0, ia_tx_idx = im_index (ic_metas C ! 0)\<rparr>"
  let ?ca = "\<lparr>ia_instruction_idx = 1, ia_tx_idx = ?p\<rparr>"
  obtain slot parent vault t ctx i where
    key: "check_magic_context_id C 1 = Inr ()"
    and pay: "charge_delegated_payer ?pa vault CALLBACK_FEE_LAMPORTS s = Inr ((), t)"
    and ctx: "read_context M ?ca GenericError t = Inr (ctx, t)" "mc_scheduled_base_intents ctx \<noteq> []"
    and i: "attach_callback (me_engine M) C parent slot ?payer args (last (mc_scheduled_base_intents ctx)) = Inr i"
    and wr: "write_context M ?ca (ctx\<lparr>mc_scheduled_base_intents := butlast (mc_scheduled_base_intents ctx) @ [i]\<rparr>) t = Inr (x, s')"
    using run
    by (auto simp: process_add_action_callback_def prog_simps PAYER_IDX_def MAGIC_CONTEXT_IDX_def get_parent_program_id_def
        read_context_Inr result_simps get_clock_def Let_def dest!: vault_keeps_store)
  have k: "keeps acc_data s t" by (rule charge_keeps [OF pay]) simp
  note w = write_context_spec [OF codec wr]
  have "?p < length t" using ctx(1) by (simp add: read_context_Inr)
  then have "?p < length s" "acc_data (t ! ?p) = acc_data (s ! ?p)"
    using keeps_length [OF k] by (simp_all add: keeps_nth [OF k])
  moreover have "length s' = length s" using keeps_length [OF k] keeps_length [OF w(2)] by simp
  ultimately show ?thesis
    using that [of ctx parent slot ?payer i] ctx i w(1) context_key [OF key] by (simp add: queue_def read_context_Inr)
qed

lemma update_first_spec:
  assumes "update_first p f xs = Some ys"
  obtains a where "a \<in> set xs" "p a" "find p xs = Some a" "set ys \<subseteq> insert (f a) (set xs)" "length ys = length xs"
    "(\<forall>x. g (f x) = g x) \<longrightarrow> map g ys = map g xs"
proof -
  have "\<exists>a. a \<in> set xs \<and> p a \<and> find p xs = Some a \<and> set ys \<subseteq> insert (f a) (set xs) \<and> length ys = length xs
      \<and> ((\<forall>x. g (f x) = g x) \<longrightarrow> map g ys = map g xs)"
    using assms
  proof (induction xs arbitrary: ys)
    case (Cons x xs)
    show ?case
    proof (cases "p x")
      case True
      then show ?thesis using Cons.prems by auto
    next
      case False
      then obtain zs where zs: "update_first p f xs = Some zs" "ys = x # zs" using Cons.prems by auto
      from Cons.IH [OF zs(1)] zs(2) False show ?thesis by auto
    qed
  qed simp
  then show ?thesis using that by blast
qed

lemma get_action_mut_standalone:
  assumes "get_action_mut i f b = Some b'" shows "mib_standalone_actions b' = [] \<longleftrightarrow> mib_standalone_actions b = []"
proof (cases "mib_standalone_actions b' = mib_standalone_actions b")
  case False
  then have "update_first (\<lambda>a. act_id a = i) f (mib_standalone_actions b) = Some (mib_standalone_actions b')"
    using assms by (auto simp: get_action_mut_def split: option.splits)
  then show ?thesis by (rule update_first_spec) auto
qed simp

lemma get_action_mut_empty:
  "get_action_mut i f b = Some b' \<Longrightarrow> bundle_is_empty b' = bundle_is_empty b"
  by (simp add: bundle_is_empty_iff get_action_mut_accounts get_action_mut_standalone)

section \<open>Well-formed queues\<close>

text \<open>
  A well-formed bundle commits something or acts, commits no key twice and under reserved ids only,
  numbers its actions in their order, and calls back only the program an action came from.
\<close>

definition wf_bundle :: "magic_intent_bundle \<Rightarrow> bool" where
  "wf_bundle b \<longleftrightarrow> \<not> bundle_is_empty b \<and> distinct (get_all_committed_pubkeys b) \<and>
     \<not> has_unreserved (get_all_committed_accounts b) \<and>
     map act_id (bundle_actions b) = map of_nat [0..<length (bundle_actions b)] \<and>
     (\<forall>a \<in> set (bundle_actions b). \<forall>cb. act_callback a = Some cb \<longrightarrow>
        act_source_program a = Some (cb_destination_program cb))"

text \<open>The ids of a queue are consecutive and end right before the next id, in 64-bit arithmetic.\<close>

definition wf_context :: "magic_context \<Rightarrow> bool" where
  "wf_context c \<longleftrightarrow> (let is = mc_scheduled_base_intents c in
     (\<forall>i \<in> set is. wf_bundle (sib_intent_bundle i)) \<and>
     map sib_intent_id is = map (\<lambda>k. mc_intent_id c - of_nat (length is - k)) [0..<length is])"

lemma wf_default: "wf_context default_magic_context"
  by (simp add: wf_context_def default_magic_context_def)

lemma wf_push:
  assumes "wf_context c" and "wf_bundle (sib_intent_bundle i)" and "sib_intent_id i = mc_intent_id c"
  shows "wf_context (push i c)"
proof -
  let ?is = "mc_scheduled_base_intents c"
  have "map sib_intent_id ?is = map (\<lambda>k. mc_intent_id c + 1 - of_nat (Suc (length ?is) - k)) [0..<length ?is]"
    using assms(1) by (auto simp: wf_context_def Let_def Suc_diff_le)
  then show ?thesis using assms by (auto simp: wf_context_def push_def Let_def)
qed

lemma wf_drop:
  assumes "wf_context c" and "n \<le> length (mc_scheduled_base_intents c)"
  shows "wf_context (c\<lparr>mc_scheduled_base_intents := drop n (mc_scheduled_base_intents c)\<rparr>)"
proof -
  let ?is = "mc_scheduled_base_intents c"
  have "map sib_intent_id (drop n ?is) = drop n (map (\<lambda>k. mc_intent_id c - of_nat (length ?is - k)) [0..<length ?is])"
    using assms(1) by (simp add: wf_context_def Let_def flip: drop_map)
  also have "\<dots> = map (\<lambda>k. mc_intent_id c - of_nat (length ?is - n - k)) [0..<length ?is - n]"
    by (rule nth_equalityI) (simp_all add: add.commute diff_diff_left)
  finally show ?thesis using assms(1) by (auto simp: wf_context_def Let_def dest: in_set_dropD)
qed

lemma wf_replace_last:
  assumes "wf_context c" and "mc_scheduled_base_intents c \<noteq> []" and "wf_bundle (sib_intent_bundle i)"
    and "sib_intent_id i = sib_intent_id (last (mc_scheduled_base_intents c))"
  shows "wf_context (c\<lparr>mc_scheduled_base_intents := butlast (mc_scheduled_base_intents c) @ [i]\<rparr>)"
proof -
  let ?is = "mc_scheduled_base_intents c"
  have "map sib_intent_id (butlast ?is @ [i]) = map sib_intent_id ?is"
    using assms(2,4) by (metis append_butlast_last_id list.simps(8,9) map_append)
  then show ?thesis using assms(1-3) by (auto simp: wf_context_def Let_def dest: in_set_butlastD)
qed

lemma attach_wf:
  assumes "attach_callback E C parent slot payer args i = Inr i'" and "wf_bundle (sib_intent_bundle i)"
  shows "wf_bundle (sib_intent_bundle i') \<and> sib_intent_id i' = sib_intent_id i"
proof -
  let ?k = "ucast (aca_action_index args) :: u64" and ?b = "sib_intent_bundle i"
  let ?cb = "\<lparr>cb_destination_program = aca_destination_program args, cb_discriminator = aca_discriminator args,
          cb_payload = aca_payload args, cb_compute_units = aca_compute_units args,
          cb_account_metas_per_program = aca_accounts args\<rparr>"
  let ?f = "\<lambda>a :: base_action. a\<lparr>act_callback := Some ?cb\<rparr>"
  obtain action b' where action: "find (\<lambda>a. act_id a = ?k) (bundle_actions ?b) = Some action"
    and dest: "act_source_program action = Some (aca_destination_program args)"
    and b': "get_action_mut ?k ?f ?b = Some b'" and i': "i' = i\<lparr>sib_intent_bundle := b'\<rparr>"
    using assms(1)
    by (auto simp: attach_callback_def Let_def result_simps validate_callback_destination_def split: if_splits)
  have up: "update_first (\<lambda>a. act_id a = ?k) ?f (bundle_actions ?b) = Some (bundle_actions b')"
    using get_action_mut_actions [of ?k ?f ?b] b' by simp
  obtain a where a: "find (\<lambda>a. act_id a = ?k) (bundle_actions ?b) = Some a"
    "set (bundle_actions b') \<subseteq> insert (?f a) (set (bundle_actions ?b))" "length (bundle_actions b') = length (bundle_actions ?b)"
    "(\<forall>x. act_id (?f x) = act_id x) \<longrightarrow> map act_id (bundle_actions b') = map act_id (bundle_actions ?b)"
    by (rule update_first_spec [OF up, where g = act_id])
  have "map act_id (bundle_actions b') = map act_id (bundle_actions ?b)" using a(4) by simp
  moreover have "\<forall>x \<in> set (bundle_actions b'). \<forall>cb. act_callback x = Some cb \<longrightarrow>
      act_source_program x = Some (cb_destination_program cb)"
  proof (intro ballI allI impI)
    fix x cb assume x: "x \<in> set (bundle_actions b')" "act_callback x = Some cb"
    show "act_source_program x = Some (cb_destination_program cb)"
    proof (cases "x = ?f a")
      case True
      then show ?thesis using x(2) a(1) action dest by auto
    next
      case False
      then show ?thesis using x a(2) assms(2) by (auto simp: wf_bundle_def)
    qed
  qed
  ultimately show ?thesis
    using assms(2) get_action_mut_accounts [OF b'] get_action_mut_empty [OF b'] a(3) i'
    by (simp add: wf_bundle_def get_all_committed_pubkeys_map)
qed

lemma commit_intent_wf:
  assumes "commits_from M C parent u s js cs t" and "cs \<noteq> []"
  shows "wf_bundle (commit_base_intent u cs)"
proof -
  have "ca_commit_id c \<noteq> 0" if c: "c \<in> set cs" for c
  proof -
    obtain j where o: "origin M C parent s c j" by (rule commits_from_member [OF assms(1) c])
    let ?q = "sh_commit_seq (s ! j)"
    have "unat (ucast (?q + 1) :: u64) = unat (?q + 1)"
      using unat_bound [of "?q + 1"] by (simp only: unsigned_ucast_eq) (simp add: take_bit_nat_eq_self)
    moreover have "unat ?q + 1 < 2 ^ 32" using o by (simp add: origin_def)
    then have "unat (?q + 1) = unat ?q + 1" by (simp add: unat_word_ariths)
    ultimately have "unat (ucast (?q + 1) :: u64) \<noteq> 0" by linarith
    moreover have "ca_commit_id c = ucast (?q + 1)" using o by (simp add: origin_def)
    ultimately show ?thesis by auto
  qed
  moreover have "\<not> bundle_is_empty (commit_base_intent u cs)"
    using assms(2) by (simp add: bundle_is_empty_def commit_base_intent_def default_bundle_def none_or_def cau_is_empty_def)
  ultimately show ?thesis using assms(1)
    by (auto simp: wf_bundle_def commit_base_intent_accounts get_all_committed_pubkeys_map has_unreserved_def
        commits_from_def list_ex_iff)
qed

lemma constructed_bundle_wf:
  assumes "engine_ok (me_engine (cc_env X))" and "bundle_try_from_args X args (s, 0) = Inr (b, (t, n))"
  shows "wf_bundle b"
proof -
  note spec = bundle_spec [OF assms]
  have "distinct (get_all_committed_pubkeys b)" using spec(1) by (simp add: commits_from_def get_all_committed_pubkeys_map)
  then show ?thesis using spec(2-4) by (auto simp: wf_bundle_def has_unreserved_def list_ex_iff acts_from_def)
qed

section \<open>All instructions keep the queue well formed\<close>

text \<open>
  The accounts \<open>K\<close> of a ledger, the queue at position \<open>p\<close>: it starts zeroed, changes by the four
  instructions of the magic program, in any order and from any frame, and otherwise keeps its data,
  since no other program owns it.
\<close>

definition queue_initial :: "nat \<Rightarrow> store \<Rightarrow> bool" where
  "queue_initial p s \<longleftrightarrow> p < length s \<and> is_zeroed (acc_data (s ! p))"

inductive queue_step :: "'t magic_env \<Rightarrow> outbox_env \<Rightarrow> pubkey list \<Rightarrow> nat \<Rightarrow> store \<Rightarrow> store \<Rightarrow> bool" for M B K p where
  schedule_commit: "ic_keys C = K \<Longrightarrow> process_schedule_commit M C u s = Inr (x, s') \<Longrightarrow> queue_step M B K p s s'"
| schedule_bundle: "ic_keys C = K \<Longrightarrow> process_schedule_intent_bundle M C args secure s = Inr (x, s') \<Longrightarrow>
    queue_step M B K p s s'"
| add_callback: "ic_keys C = K \<Longrightarrow> process_add_action_callback M C cargs s = Inr (x, s') \<Longrightarrow> queue_step M B K p s s'"
| accept: "ic_keys C = K \<Longrightarrow> process_accept_scheduled_commits M B C s = Inr (x, s') \<Longrightarrow> queue_step M B K p s s'"
| other: "acc_data (s' ! p) = acc_data (s ! p) \<Longrightarrow> queue_step M B K p s s'"

definition ledger_ok :: "'t magic_env \<Rightarrow> outbox_env \<Rightarrow> pubkey list \<Rightarrow> nat \<Rightarrow> bool" where
  "ledger_ok M B K p \<longleftrightarrow> engine_ok (me_engine M) \<and> context_codec_ok M \<and> outbox_codec_ok B \<and> calls_ok B \<and>
     distinct K \<and> p < length K \<and> K ! p = MAGIC_CONTEXT_PUBKEY"

definition wf_queue :: "'t magic_env \<Rightarrow> nat \<Rightarrow> store \<Rightarrow> bool" where
  "wf_queue M p s \<longleftrightarrow> (\<exists>c. queue M p s = Some c \<and> wf_context c)"

lemma ledger_position:
  "ledger_ok M B K p \<Longrightarrow> ic_keys C = K \<Longrightarrow> q < length (ic_keys C) \<Longrightarrow> ic_keys C ! q = MAGIC_CONTEXT_PUBKEY \<Longrightarrow> q = p"
  by (rule position_unique [of K]) (simp_all add: ledger_ok_def)

lemma schedule_commit_wf:
  assumes ok: "ledger_ok M B K p" and keys: "ic_keys C = K" and run: "process_schedule_commit M C u s = Inr (x, s')"
    and wf: "wf_queue M p s"
  shows "wf_queue M p s'"
proof -
  have E: "engine_ok (me_engine M)" and mc: "context_codec_ok M" using ok by (simp_all add: ledger_ok_def)
  obtain parent slot payer cs js t ctx where c: "commits_from M C parent u s js cs t" "cs \<noteq> []"
    "queue M (context_pos C) s = Some ctx"
    "queue M (context_pos C) s' = Some (push \<lparr>sib_intent_id = mc_intent_id ctx, sib_slot = slot,
       sib_blockhash = ic_blockhash C, sib_payer = payer, sib_intent_bundle = commit_base_intent u cs\<rparr> ctx)"
    "context_pos C < length (ic_keys C)" "ic_keys C ! context_pos C = MAGIC_CONTEXT_PUBKEY"
    by (rule schedule_commit_spec [OF E mc run])
  note p = ledger_position [OF ok keys c(5,6)]
  have "wf_context (push \<lparr>sib_intent_id = mc_intent_id ctx, sib_slot = slot,
       sib_blockhash = ic_blockhash C, sib_payer = payer, sib_intent_bundle = commit_base_intent u cs\<rparr> ctx)"
    by (rule wf_push) (use wf c(3) p commit_intent_wf [OF c(1,2)] in \<open>simp_all add: wf_queue_def\<close>)
  then show ?thesis using c(4) p by (simp add: wf_queue_def)
qed

lemma schedule_bundle_wf:
  assumes ok: "ledger_ok M B K p" and keys: "ic_keys C = K"
    and run: "process_schedule_intent_bundle M C args secure s = Inr (x, s')" and wf: "wf_queue M p s"
  shows "wf_queue M p s'"
proof -
  have E: "engine_ok (me_engine M)" and mc: "context_codec_ok M" using ok by (simp_all add: ledger_ok_def)
  obtain parent slot payer b n t ctx where c:
    "bundle_try_from_args \<lparr>cc_env = M, cc_invoke = C, cc_parent_program_id = parent, cc_secure = secure\<rparr> args (s, 0)
       = Inr (b, (t, n))" "queue M (context_pos C) s = Some ctx"
    "queue M (context_pos C) s' = Some (push \<lparr>sib_intent_id = mc_intent_id ctx, sib_slot = slot,
       sib_blockhash = ic_blockhash C, sib_payer = payer, sib_intent_bundle = b\<rparr> ctx)"
    "context_pos C < length (ic_keys C)" "ic_keys C ! context_pos C = MAGIC_CONTEXT_PUBKEY"
    by (rule schedule_bundle_spec [OF E mc run])
  note p = ledger_position [OF ok keys c(4,5)]
  have "wf_bundle b" by (rule constructed_bundle_wf [OF _ c(1)]) (simp add: E)
  then have "wf_context (push \<lparr>sib_intent_id = mc_intent_id ctx, sib_slot = slot,
       sib_blockhash = ic_blockhash C, sib_payer = payer, sib_intent_bundle = b\<rparr> ctx)"
    by (intro wf_push) (use wf c(2) p in \<open>simp_all add: wf_queue_def\<close>)
  then show ?thesis using c(3) p by (simp add: wf_queue_def)
qed

lemma add_callback_wf:
  assumes ok: "ledger_ok M B K p" and keys: "ic_keys C = K" and run: "process_add_action_callback M C cargs s = Inr (x, s')"
    and wf: "wf_queue M p s"
  shows "wf_queue M p s'"
proof -
  have E: "engine_ok (me_engine M)" and mc: "context_codec_ok M" using ok by (simp_all add: ledger_ok_def)
  obtain parent slot payer ctx i where c: "queue M (context_pos C) s = Some ctx" "mc_scheduled_base_intents ctx \<noteq> []"
    "attach_callback (me_engine M) C parent slot payer cargs (last (mc_scheduled_base_intents ctx)) = Inr i"
    "queue M (context_pos C) s' = Some (ctx\<lparr>mc_scheduled_base_intents := butlast (mc_scheduled_base_intents ctx) @ [i]\<rparr>)"
    "context_pos C < length (ic_keys C)" "ic_keys C ! context_pos C = MAGIC_CONTEXT_PUBKEY"
    by (rule add_callback_spec [OF E mc run])
  note p = ledger_position [OF ok keys c(5,6)]
  have ctx: "wf_context ctx" using wf c(1) p by (simp add: wf_queue_def)
  then have "wf_bundle (sib_intent_bundle (last (mc_scheduled_base_intents ctx)))"
    using c(2) by (simp add: wf_context_def Let_def)
  from attach_wf [OF c(3) this] have "wf_context (ctx\<lparr>mc_scheduled_base_intents := butlast (mc_scheduled_base_intents ctx) @ [i]\<rparr>)"
    by (intro wf_replace_last [OF ctx c(2)]) simp_all
  then show ?thesis using c(4) p by (simp add: wf_queue_def)
qed

lemma accept_wf:
  assumes ok: "ledger_ok M B K p" and keys: "ic_keys C = K" and run: "process_accept_scheduled_commits M B C s = Inr (x, s')"
    and wf: "wf_queue M p s"
  shows "wf_queue M p s'"
proof -
  have laws: "engine_ok (me_engine M)" "context_codec_ok M" "outbox_codec_ok B" "calls_ok B"
    using ok by (simp_all add: ledger_ok_def)
  note a = accept_spec [OF laws run]
  have p: "im_index (ic_metas C ! 2) = p" by (rule ledger_position [OF ok keys]) (use a in simp_all)
  show ?thesis using a [unfolded p] wf wf_drop unfolding wf_queue_def by fastforce
qed

lemma initial_wf: "queue_initial p s \<Longrightarrow> wf_queue M p s"
  by (simp add: queue_initial_def wf_queue_def queue_def magic_context_deserialize_def wf_default)

lemma queue_step_wf:
  assumes "ledger_ok M B K p" and "wf_queue M p s" and "queue_step M B K p s s'"
  shows "wf_queue M p s'"
  using assms(3)
proof cases
  case schedule_commit
  then show ?thesis by (rule schedule_commit_wf [OF assms(1) _ _ assms(2)])
next
  case schedule_bundle
  then show ?thesis by (rule schedule_bundle_wf [OF assms(1) _ _ assms(2)])
next
  case add_callback
  then show ?thesis by (rule add_callback_wf [OF assms(1) _ _ assms(2)])
next
  case accept
  then show ?thesis by (rule accept_wf [OF assms(1) _ _ assms(2)])
next
  case other
  then show ?thesis using assms(2) by (simp add: wf_queue_def queue_def)
qed

interpretation ledger: invariant_system "\<lambda>s. ledger_ok M B K p \<and> queue_initial p s" "queue_step M B K p"
    "\<lambda>s. ledger_ok M B K p \<and> wf_queue M p s" for M B K p
  by unfold_locales (auto intro: initial_wf queue_step_wf)

text \<open>
  Claim C8. The queue of scheduled intents is always well formed: whatever sequence of commits,
  bundles, callbacks and acceptances ran, in any order, the account of the queue decodes; its
  intents carry consecutive ids that end right before the next id; and every bundle in it is not
  empty, commits no key twice, has a reserved id for each commit, numbers its actions by their
  position, and has callbacks only to the program its action came from.
\<close>

theorem queue_well_formed:
  assumes "engine_ok (me_engine M)" and "context_codec_ok M" and "outbox_codec_ok B" and "calls_ok B"
    and "distinct K" and "p < length K" and "K ! p = MAGIC_CONTEXT_PUBKEY"
    and "queue_initial p s0" and "(queue_step M B K p)\<^sup>*\<^sup>* s0 s"
  shows "\<exists>c. magic_context_deserialize M (acc_data (s ! p)) = Some c \<and> wf_context c"
  using ledger.reachable_inv [of M B K p s0 s] assms by (simp add: ledger_ok_def wf_queue_def queue_def)


end
