(* ===== verification/Scheduling_Instances.thy ===== *)
theory Scheduling_Instances
  imports Queue_Invariant
begin

text \<open>
  The refusal of sponsored commits beyond the limit, and a concrete run for the properties of the
  scheduling and outbox programs: an account is committed, its intent accepted into the outbox and
  its record set to a stage.
\<close>

section \<open>The sponsored limit\<close>

text \<open>The accounts of an instruction pass every check, nobody pays, and they would be committed as \<open>cs\<close>.\<close>

definition sponsored_commits ::
    "'t magic_env \<Rightarrow> invoke_context \<Rightarrow> bool \<Rightarrow> pubkey option \<Rightarrow> store \<Rightarrow> committed_account list \<Rightarrow> bool" where
  "sponsored_commits M C u parent s cs \<longleftrightarrow>
     check_magic_context_id C MAGIC_CONTEXT_IDX = Inr () \<and> ic_program C = MAGIC_PROGRAM_ID \<and>
     (\<exists>payer. get_instruction_pubkey_with_idx C PAYER_IDX = Inr payer \<and> payer \<in> ic_signers C) \<and>
     ic_caller C = Inr parent \<and>
     (\<exists>start seen t. try_get_fee_vault (me_engine M) C PAYER_IDX (MAGIC_CONTEXT_IDX + 1) s = Inr ((None, start), s) \<and>
        start < length (ic_metas C) \<and> schedule_commit_accounts M C u parent start s = Inr ((seen, cs), t))"

lemma check_commit_limits_iff:
  "check_commit_limits cs = (if \<exists>c \<in> set cs. COMMIT_LIMIT < ca_commit_id c then Inl (Custom COMMIT_LIMIT_ERR) else Inr ())"
proof -
  have "foldl (\<lambda>b a. if ca_commit_id a > COMMIT_LIMIT then True else b) b cs
      \<longleftrightarrow> b \<or> (\<exists>c \<in> set cs. COMMIT_LIMIT < ca_commit_id c)" for b
    by (induction cs arbitrary: b) auto
  then show ?thesis by (simp add: check_commit_limits_def)
qed

lemma write_context_Inl:
  "write_context M a c s = Inl e \<Longrightarrow> e \<in> {AccountBorrowFailed, GenericError, AccountDataTooSmall}"
  by (auto simp: write_context_def borrow_mut_try_def write_to_def rbind_Inl_iff result_simps split: if_splits option.splits)

lemma read_context_Inl: "read_context M a GenericError s = Inl e \<Longrightarrow> e \<in> {AccountBorrowFailed, GenericError}"
  by (auto simp: read_context_def borrow_def prog_simps result_simps split: if_splits)

lemma origin_commit_id:
  assumes "origin M C parent s c j"
  shows "COMMIT_LIMIT < ca_commit_id c \<longleftrightarrow> 10 \<le> unat (sh_commit_seq (s ! j))"
proof -
  let ?q = "sh_commit_seq (s ! j)"
  have "unat (ucast (?q + 1) :: u64) = unat (?q + 1)"
    using unat_bound [of "?q + 1"] by (simp only: unsigned_ucast_eq) (simp add: take_bit_nat_eq_self)
  moreover have "unat ?q + 1 < 2 ^ 32" using assms by (simp add: origin_def)
  then have "unat (?q + 1) = unat ?q + 1" by (simp add: unat_word_ariths)
  moreover have "ca_commit_id c = ucast (?q + 1)" using assms by (simp add: origin_def)
  ultimately have "unat (ca_commit_id c) = unat ?q + 1" by simp
  then show ?thesis by (simp add: COMMIT_LIMIT_def word_less_nat_alt) arith
qed

text \<open>
  Claim C13. The limit on sponsored commits is exact: when nobody pays for a commit whose accounts
  pass every check, the instruction is refused with the limit's error code if and only if it is a
  plain commit and one of the accounts already had ten commits; an undelegation is never refused
  for that reason.
\<close>

theorem sponsored_limit_exact:
  assumes E: "engine_ok (me_engine M)" and ok: "sponsored_commits M C u parent s cs"
  shows "process_schedule_commit M C u s = Inl (Custom COMMIT_LIMIT_ERR) \<longleftrightarrow>
    \<not> u \<and> (\<exists>c \<in> set cs. \<exists>j. origin M C parent s c j \<and> 10 \<le> unat (sh_commit_seq (s ! j)))"
proof -
  obtain payer start seen t where pre: "check_magic_context_id C MAGIC_CONTEXT_IDX = Inr ()" "ic_program C = MAGIC_PROGRAM_ID"
    "get_instruction_pubkey_with_idx C PAYER_IDX = Inr payer" "payer \<in> ic_signers C" "ic_caller C = Inr parent"
    "try_get_fee_vault (me_engine M) C PAYER_IDX (MAGIC_CONTEXT_IDX + 1) s = Inr ((None, start), s)"
    "start < length (ic_metas C)" and loop: "schedule_commit_accounts M C u parent start s = Inr ((seen, cs), t)"
    using ok unfolding sponsored_commits_def by blast
  obtain js where from_: "commits_from M C parent u s js cs t"
    using schedule_commit_accounts_spec [OF E loop pre(7)] by blast
  have origins: "\<exists>j. origin M C parent s c j" if c: "c \<in> set cs" for c
    by (rule commits_from_member [OF from_ c]) blast
  have limit: "(\<exists>c \<in> set cs. COMMIT_LIMIT < ca_commit_id c) \<longleftrightarrow>
      (\<exists>c \<in> set cs. \<exists>j. origin M C parent s c j \<and> 10 \<le> unat (sh_commit_seq (s ! j)))"
    using origins origin_commit_id by blast
  obtain pa where pa: "get_instruction_account_with_idx C PAYER_IDX = Inr pa"
    using pre(3) by (auto simp: get_instruction_pubkey_with_idx_def get_instruction_account_with_idx_def rbind_Inr_iff)
  let ?pay = "if \<not> u then plift (check_commit_limits cs) else pret ()"
  define rest :: "(store, unit) prog" where "rest =
     pbind (plift (get_instruction_account_with_idx C MAGIC_CONTEXT_IDX)) (\<lambda>context_acc.
     pbind (read_context M context_acc GenericError) (\<lambda>context.
     let (new_id, context) = next_intent_id context in
     pbind (plift (get_clock C)) (\<lambda>slot.
     let base_intent = commit_base_intent u cs in
     pthen (plift (validate_intent_size M C base_intent)) (
     write_context M context_acc (add_scheduled_action
       \<lparr>sib_intent_id = new_id, sib_slot = slot, sib_blockhash = ic_blockhash C, sib_payer = payer,
        sib_intent_bundle = base_intent\<rparr> context)))))"
  have run: "process_schedule_commit M C u s = pthen ?pay rest t"
    using pre loop pa unfolding process_schedule_commit_def rest_def
    by (simp add: prog_run get_parent_program_id_def pbind_def pthen_def plift_def pguard_def ensure_def)
  have "rest t \<noteq> Inl (Custom COMMIT_LIMIT_ERR)"
    by (auto simp: rest_def prog_simps get_instruction_account_with_idx_def meta_at_def next_intent_id_def get_clock_def
        validate_intent_size_def result_simps INTENT_TOO_LARGE_ERR_def COMMIT_LIMIT_ERR_def Let_def
        dest!: read_context_Inl write_context_Inl split: if_splits)
  then show ?thesis using run limit by (auto simp: check_commit_limits_iff prog_simps split: if_splits)
qed

section \<open>A concrete run\<close>

text \<open>The account at position two is committed once, for its first commit.\<close>

definition first_commit :: committed_account where
  "first_commit = \<lparr>ca_pubkey = 6,
     ca_account = \<lparr>acc_lamports = 50, acc_data = [1, 2], acc_owner = 9, acc_executable = False, acc_rent_epoch = 0\<rparr>,
     ca_remote_slot = 1, ca_commit_id = 1\<rparr>"

definition example_intent :: scheduled_intent_bundle where
  "example_intent = \<lparr>sib_intent_id = 0, sib_slot = 3, sib_blockhash = 8, sib_payer = 5,
     sib_intent_bundle = commit_base_intent False [first_commit]\<rparr>"

text \<open>Codecs that carry queues and records of that intent.\<close>

definition example_encode :: "magic_context \<Rightarrow> bytes option" where
  "example_encode c = (if mc_scheduled_base_intents c \<in> {[], [example_intent]}
     then Some (le_bytes 8 (unat (mc_intent_id c)) @ le_bytes 8 (length (mc_scheduled_base_intents c))) else None)"

definition example_decode :: "bytes \<Rightarrow> magic_context option" where
  "example_decode d = Some \<lparr>mc_intent_id = of_nat (le_nat (take 8 d)),
     mc_scheduled_base_intents = (if le_nat (take 8 (drop 8 d)) = 0 then [] else [example_intent])\<rparr>"

definition example_magic :: "unit magic_env" where
  "example_magic = \<lparr>me_engine = example_engine, me_tokens = example_token_lib, me_encode = example_encode,
     me_decode = example_decode, me_within_limits = \<lambda>_ _. True\<rparr>"

definition example_pending :: pending_transaction where
  "example_pending = \<lparr>pt_signature = 1, pt_blockhash = 1\<rparr>"

definition example_record :: "bool \<Rightarrow> u8 \<Rightarrow> outbox_intent_bundle" where
  "example_record executing bump = \<lparr>oib_inner = example_intent,
     oib_status = (if executing then Executing (SingleStage example_pending) else Accepted),
     oib_recovery_commit_nonces = [], oib_bump = bump\<rparr>"

definition example_record_encode :: "outbox_intent_bundle \<Rightarrow> bytes option" where
  "example_record_encode b =
     (if b = example_record False (oib_bump b) then Some ([0, oib_bump b] @ replicate 8 0)
      else if b = example_record True (oib_bump b) then Some ([1, oib_bump b] @ replicate 8 0) else None)"

definition example_record_decode :: "bytes \<Rightarrow> outbox_intent_bundle option" where
  "example_record_decode d = (case d of x # b # _ \<Rightarrow> Some (example_record (x = 1) b) | _ \<Rightarrow> None)"

fun key_index :: "pubkey list \<Rightarrow> pubkey \<Rightarrow> nat" where
  "key_index [] k = 0"
| "key_index (x # xs) k = (if x = k then 0 else Suc (key_index xs k))"

definition example_call ::
    "invoke_context \<Rightarrow> pubkey \<Rightarrow> account_meta list \<Rightarrow> (instruction_error, invoke_context) result" where
  "example_call C p ms =
     (if list_all (\<lambda>m. am_pubkey m \<in> set (ic_keys C)) ms
      then Inr (C\<lparr>ic_program := p, ic_caller := Inr (Some (ic_program C)),
             ic_metas := map (\<lambda>m. \<lparr>im_index = key_index (ic_keys C) (am_pubkey m), im_signer = am_is_signer m,
               im_writable = am_is_writable m\<rparr>) ms\<rparr>)
      else Inl MissingAccount)"

definition example_outbox :: outbox_env where
  "example_outbox = \<lparr>ob_inner_size = \<lambda>_. Some 0, ob_status_size = \<lambda>_. 1, ob_encode = example_record_encode,
     ob_decode = example_record_decode, ob_call = example_call, ob_serialisable = \<lambda>_. True\<rparr>"

lemma example_codec: "context_codec_ok example_magic"
proof -
  have "le_nat (le_bytes 8 (unat x)) = unat x" for x :: u64 by (simp add: le_nat_unat)
  moreover have "le_nat (le_bytes 8 (Suc 0)) = 1" by (simp add: le_nat_bytes)
  moreover have "le_nat (le_bytes 8 0) = 0" by (simp add: le_nat_bytes)
  ultimately show ?thesis
    by (auto simp: context_codec_ok_def example_magic_def example_encode_def example_decode_def)
qed

lemma example_record_encoded:
  assumes "ob_encode example_outbox b = Some bs"
  obtains x where "bs = (if x then 1 else 0) # oib_bump b # replicate 8 0" "b = example_record x (oib_bump b)"
proof (cases "b = example_record False (oib_bump b)")
  case True
  then show ?thesis using assms by (intro that [of False]) (auto simp: example_outbox_def example_record_encode_def)
next
  case False
  then show ?thesis using assms
    by (intro that [of True]) (auto simp: example_outbox_def example_record_encode_def split: if_splits)
qed

lemma example_outbox_codec: "outbox_codec_ok example_outbox"
  unfolding outbox_codec_ok_def
proof (intro conjI allI impI)
  fix b bs n assume "ob_encode example_outbox b = Some bs"
  then obtain x where "bs = (if x then 1 else 0) # oib_bump b # replicate 8 0" "b = example_record x (oib_bump b)"
    by (rule example_record_encoded)
  then show "ob_decode example_outbox (bs @ replicate n 0) = Some b"
    by (cases x) (simp_all add: example_outbox_def example_record_decode_def)
next
  fix b bs assume "ob_encode example_outbox b = Some bs"
  then obtain x where b: "length bs = 10" "b = example_record x (oib_bump b)"
    by (rule example_record_encoded) auto
  then have "oib_recovery_commit_nonces b = []" by (metis example_record_def outbox_intent_bundle.select_convs(3))
  then show "\<exists>inner. ob_inner_size example_outbox (oib_inner b) = Some inner \<and>
      length bs = inner + ob_status_size example_outbox (oib_status b) + nonces_size (length (oib_recovery_commit_nonces b)) + 1"
    using b(1) by (simp add: example_outbox_def nonces_size_def)
qed (simp add: example_outbox_def)

lemma key_index_nth: "k \<in> set ks \<Longrightarrow> key_index ks k < length ks \<and> ks ! key_index ks k = k"
  by (induction ks) auto

lemma example_calls: "calls_ok example_outbox"
  by (auto simp: calls_ok_def example_outbox_def example_call_def list_all_length key_index_nth split: if_splits)

definition example_keys :: "pubkey list" where
  "example_keys = [5, MAGIC_CONTEXT_PUBKEY, 6, outbox_intent_pda example_engine 0, OUTBOX_INTENT_PROGRAM_ID, 77]"

definition example_frame :: "pubkey \<Rightarrow> instruction_meta list \<Rightarrow> invoke_context" where
  "example_frame p ms = \<lparr>ic_program = p, ic_metas = ms, ic_keys = example_keys, ic_caller = Inr None,
     ic_clock_slot = Some 3, ic_blockhash = 8, ic_authority = 77\<rparr>"

definition frame_meta :: "nat \<Rightarrow> bool \<Rightarrow> bool \<Rightarrow> instruction_meta" where
  "frame_meta i signs w = \<lparr>im_index = i, im_signer = signs, im_writable = w\<rparr>"

definition example_schedule :: invoke_context where
  "example_schedule = example_frame MAGIC_PROGRAM_ID [frame_meta 0 True True, frame_meta 1 False True, frame_meta 2 True True]"

definition example_accept :: invoke_context where
  "example_accept = example_frame MAGIC_PROGRAM_ID
     [frame_meta 5 True True, frame_meta 4 False False, frame_meta 1 False True, frame_meta 3 False True]"

definition example_stage :: invoke_context where
  "example_stage = example_frame OUTBOX_INTENT_PROGRAM_ID [frame_meta 5 True True, frame_meta 3 False True]"

text \<open>The accounts with the queue's bytes, the committed account's sequence number and the record's account.\<close>

definition example_accounts :: "bytes \<Rightarrow> u32 \<Rightarrow> shared_account \<Rightarrow> store" where
  "example_accounts d n r = [example_shared 100 [] SYSTEM_PROGRAM_ID Mode_Mirrored, example_shared 1 d MAGIC_PROGRAM_ID Mode_Magic,
     (example_shared 50 [1, 2] 9 Mode_Delegated)\<lparr>sh_commit_seq := n\<rparr>, r,
     example_shared 1 [] SYSTEM_PROGRAM_ID Mode_Mirrored, example_shared 1 [] SYSTEM_PROGRAM_ID Mode_Mirrored]"

definition example_bytes :: "magic_context \<Rightarrow> bytes" where
  "example_bytes c = the (example_encode c) @ replicate 48 0"

definition queued :: "scheduled_intent_bundle list \<Rightarrow> magic_context" where
  "queued xs = \<lparr>mc_intent_id = 1, mc_scheduled_base_intents = xs\<rparr>"

lemma example_write:
  assumes "example_encode c \<noteq> None" and "length d = 64"
  shows "write_to example_magic c d = Inr (example_bytes c)"
  using assms by (auto simp: write_to_def example_magic_def example_bytes_def example_encode_def result_simps split: if_splits)

lemma example_bytes_length: "example_encode c \<noteq> None \<Longrightarrow> length (example_bytes c) = 64"
  by (auto simp: example_bytes_def example_encode_def split: if_splits)

lemma example_read:
  assumes "example_encode c \<noteq> None"
  shows "magic_context_deserialize example_magic (example_bytes c) = Some c"
  using context_round_trip(1) [OF example_codec example_write [OF assms, of "replicate 64 0"]] by simp

lemma example_read_zeroed: "magic_context_deserialize example_magic (replicate 64 0) = Some default_magic_context"
  by (simp add: magic_context_deserialize_def is_zeroed_iff)

lemma ic_signers_code:
  "ic_signers C = set (map (\<lambda>m. ic_keys C ! im_index m)
     (filter (\<lambda>m. im_signer m \<and> im_index m < length (ic_keys C)) (ic_metas C)))"
  by (auto simp: ic_signers_def)

lemmas example_defs = example_frame_def frame_meta_def example_keys_def example_accounts_def example_shared_def
  example_schedule_def example_accept_def example_stage_def
lemmas run_defs = pthen_def pbind_def pguard_def plift_def pret_def pfor.simps peach_def ensure_def
  get_instruction_pubkey_with_idx_def get_instruction_account_with_idx_def get_writable_with_idx_def meta_at_def
  borrow_def borrow_mut_def borrow_mut_try_def is_writable_def ic_signers_code checked_add_def

definition example_vacant :: shared_account where
  "example_vacant = example_shared 0 [] SYSTEM_PROGRAM_ID Mode_Missing"

lemma example_no_vault:
  "try_get_fee_vault example_engine example_schedule 0 2 (example_accounts d n r) = Inr ((None, 2), example_accounts d n r)"
  by (simp add: try_get_fee_vault_def magic_fee_vault_pubkey_def example_defs run_defs example_engine_def
      example_address_def DELEGATION_PROGRAM_ID_def)

lemma example_reserved:
  assumes "unat n + 1 < 2 ^ 32"
  shows "schedule_commit_accounts example_magic example_schedule False None 2 (example_accounts d n r) =
     Inr (({6}, [first_commit\<lparr>ca_commit_id := ucast (n + 1)\<rparr>]), example_accounts d (n + 1) r)"
  using assms
  by (simp add: schedule_commit_accounts_def schedule_commit_account_def example_defs run_defs
      MAX_PERMITTED_DATA_INCREASE_def validate_commit_schedule_permissions_def from_account_shared_def
      try_remap_ata_to_eata_def is_supported_token_program_def TOKEN_PROGRAM_ID_def TOKEN_2022_PROGRAM_ID_def
      reserve_commit_id_def example_magic_def example_engine_def first_commit_def)

lemma example_read_context:
  assumes "ia_tx_idx a = 1" and "magic_context_deserialize example_magic d = Some c"
  shows "read_context example_magic a e (example_accounts d n r) = Inr (c, example_accounts d n r)"
  using assms by (simp add: read_context_def run_defs example_accounts_def example_shared_def)

lemma example_write_context:
  assumes "ia_tx_idx a = 1" and "example_encode c \<noteq> None" and "length d = 64"
  shows "write_context example_magic a c (example_accounts d n r) = Inr ((), example_accounts (example_bytes c) n r)"
  using assms by (simp add: write_context_def run_defs example_accounts_def example_shared_def example_write)

lemma example_schedule_frame:
  "get_instruction_pubkey_with_idx example_schedule 0 = Inr 5"
  "get_instruction_pubkey_with_idx example_schedule 1 = Inr MAGIC_CONTEXT_PUBKEY"
  "get_instruction_account_with_idx example_schedule 0 = Inr \<lparr>ia_instruction_idx = 0, ia_tx_idx = 0\<rparr>"
  "get_instruction_account_with_idx example_schedule 1 = Inr \<lparr>ia_instruction_idx = 1, ia_tx_idx = 1\<rparr>"
  "5 \<in> ic_signers example_schedule" "ic_program example_schedule = MAGIC_PROGRAM_ID" "ic_caller example_schedule = Inr None"
  "length (ic_metas example_schedule) = 3" "ic_clock_slot example_schedule = Some 3" "ic_blockhash example_schedule = 8"
  "ic_keys example_schedule = example_keys"
  by (simp_all add: example_defs run_defs)

lemma example_encodes: "example_encode (queued [example_intent]) \<noteq> None" "example_encode (queued []) \<noteq> None"
  by (simp_all add: example_encode_def queued_def)

lemma example_scheduled:
  "process_schedule_commit example_magic example_schedule False (example_accounts (replicate 64 0) 0 example_vacant) =
     Inr ((), example_accounts (example_bytes (queued [example_intent])) 1 example_vacant)"
proof -
  let ?s = "example_accounts (replicate 64 0) 0 example_vacant"
  note run = example_no_vault [of "replicate 64 0" 0 example_vacant, unfolded numeral_2_eq_2] example_schedule_frame
  have "first_commit\<lparr>ca_commit_id := 1\<rparr> = first_commit" by (simp add: first_commit_def)
  then have c: "schedule_commit_accounts example_magic example_schedule False None 2 ?s =
      Inr (({6}, [first_commit]), example_accounts (replicate 64 0) 1 example_vacant)"
    using example_reserved [of 0 "replicate 64 0" example_vacant] by simp
  have i: "\<lparr>sib_intent_id = 0, sib_slot = 3, sib_blockhash = 8, sib_payer = 5,
      sib_intent_bundle = commit_base_intent False [first_commit]\<rparr> = example_intent"
    by (simp add: example_intent_def)
  have q: "add_scheduled_action example_intent \<lparr>mc_intent_id = 1, mc_scheduled_base_intents = []\<rparr> = queued [example_intent]"
    by (simp add: add_scheduled_action_def queued_def)
  have limit: "check_commit_limits [first_commit] = Inr ()"
    by (simp add: check_commit_limits_def COMMIT_LIMIT_def first_commit_def)
  have size: "validate_intent_size example_magic example_schedule b = Inr ()" for b
    by (simp add: validate_intent_size_def example_magic_def)
  have E: "me_engine example_magic = example_engine" by (simp add: example_magic_def)
  show ?thesis
    using run c [unfolded numeral_2_eq_2] i q limit size E example_read_context [OF _ example_read_zeroed]
      example_write_context [OF _ example_encodes(1), of _ "replicate 64 0"]
    by (simp add: process_schedule_commit_def check_magic_context_id_def MAGIC_CONTEXT_IDX_def PAYER_IDX_def
        pthen_def pbind_def pguard_def plift_def pret_def ensure_def get_parent_program_id_def get_clock_def
        next_intent_id_def default_magic_context_def)
qed

definition example_data :: "bool \<Rightarrow> bytes" where
  "example_data executing = OUTBOX_INTENT_DISCRIMINATOR @ [if executing then 1 else 0, 255] @ replicate 48 0"

definition example_filed :: "bool \<Rightarrow> shared_account" where
  "example_filed executing = example_shared 0 (example_data executing) OUTBOX_INTENT_PROGRAM_ID Mode_Magic"

lemma example_to_bytes: "try_to_bytes example_outbox (example_record x 255) = Some (example_data x)"
proof -
  have "length (sib_get_all_committed_pubkeys example_intent) = 1"
    by (simp add: example_intent_def sib_get_all_committed_pubkeys_def get_all_committed_pubkeys_def commit_base_intent_def
      default_bundle_def ct_get_committed_pubkeys_def get_commit_intent_pubkeys_def get_commit_finalize_intent_pubkeys_def
      get_undelegate_intent_pubkeys_def get_commit_finalize_and_undelegate_intent_pubkeys_def)
  then have "max_body_size example_outbox (oib_inner (example_record x 255)) = Some 50"
    by (simp add: max_body_size_def example_outbox_def example_record_def nonces_size_def)
  moreover have "ob_encode example_outbox (example_record x 255) = Some ((if x then 1 else 0) # 255 # replicate 8 0)"
    by (cases x) (simp_all add: example_outbox_def example_record_encode_def example_record_def)
  moreover have "replicate 8 0 @ replicate 40 0 = replicate 48 (0 :: u8)" by (simp flip: replicate_add)
  ultimately show ?thesis by (simp add: try_to_bytes_def example_data_def)
qed

lemma example_from_bytes: "try_from_bytes example_outbox (example_data x) = Some (example_record x 255)"
  by (rule to_bytes_Some [OF example_outbox_codec example_to_bytes])

lemma example_is_accepted: "accepted example_intent 255 = example_record False 255"
  by (simp add: accepted_def example_record_def)

lemma example_pda: "outbox_intent_pda_with_bump example_engine 0 = (outbox_intent_pda example_engine 0, 255)"
  by (simp add: outbox_intent_pda_def outbox_intent_pda_with_bump_def example_engine_def)

lemma example_keys_distinct: "distinct example_keys"
  by (simp add: example_keys_def outbox_intent_pda_def outbox_intent_pda_with_bump_def example_engine_def
      example_address_def MAGIC_CONTEXT_PUBKEY_def OUTBOX_INTENT_PROGRAM_ID_def)

lemma example_record_created:
  "create_outbox_intent_cpi example_engine example_outbox example_accept 77 (outbox_intent_pda example_engine 0)
     (example_record False 255) (example_accounts d n example_vacant) = Inr ((), example_accounts d n (example_filed False))"
proof -
  let ?p = "outbox_intent_pda example_engine 0"
  have idx: "key_index example_keys ?p = 3" "key_index example_keys 77 = 5"
    using example_keys_distinct by (auto simp: example_keys_def)
  have member: "?p \<in> set example_keys" "77 \<in> set example_keys" by (simp_all add: example_keys_def)
  have keys: "example_keys ! 5 = 77" "length example_keys = 6" by (simp_all add: example_keys_def)
  have engine: "en_set_lifecycle example_engine m sl a = Some (a\<lparr>sh_mode := m, sh_slot := sl\<rparr>)" for m sl a
    by (simp add: example_engine_def)
  have call: "ob_call example_outbox = example_call" "ob_serialisable example_outbox b" for b
    by (simp_all add: example_outbox_def)
  have frame: "ic_keys example_accept = example_keys" "ic_authority example_accept = 77" "ic_program example_accept = MAGIC_PROGRAM_ID"
    by (simp_all add: example_accept_def example_frame_def)
  show ?thesis using idx member keys engine call frame
    by (simp add: create_outbox_intent_cpi_def example_to_bytes example_call_def process_create_outbox_intent_def
        validate_create_def example_from_bytes run_defs example_accounts_def example_vacant_def example_filed_def
        example_shared_def set_account_mode_def) force
qed

lemma example_accept_frame:
  "get_instruction_pubkey_with_idx example_accept 0 = Inr 77"
  "get_instruction_pubkey_with_idx example_accept 1 = Inr OUTBOX_INTENT_PROGRAM_ID"
  "get_instruction_pubkey_with_idx example_accept 2 = Inr MAGIC_CONTEXT_PUBKEY"
  "get_instruction_pubkey_with_idx example_accept 3 = Inr (outbox_intent_pda example_engine 0)"
  "get_instruction_account_with_idx example_accept 2 = Inr \<lparr>ia_instruction_idx = 2, ia_tx_idx = 1\<rparr>"
  "77 \<in> ic_signers example_accept" "ic_authority example_accept = 77" "length (ic_metas example_accept) = 4"
  "im_index (ic_metas example_accept ! 2) = 1" "ic_keys example_accept = example_keys"
  by (simp_all add: example_defs run_defs)

lemma example_popped:
  "pop_scheduled_intents example_magic example_accept
     (example_accounts (example_bytes (queued [example_intent])) n r) =
     Inr ([example_intent], example_accounts (example_bytes (queued [])) n r)"
proof -
  have "take_front_scheduled_commits 1 (queued [example_intent]) = ([example_intent], queued [])"
    by (simp add: take_front_scheduled_commits_def queued_def)
  then show ?thesis
    using example_read_context [OF _ example_read [OF example_encodes(1)]] example_bytes_length [OF example_encodes(1)]
      example_write_context [OF _ example_encodes(2), of _ "example_bytes (queued [example_intent])"] example_accept_frame
    by (simp add: pop_scheduled_intents_def INTENT_PDAS_OFFSET_def ACCEPT_CONTEXT_IDX_def pthen_def pbind_def plift_def
        pguard_def pret_def ensure_def)
qed

lemma example_accepted:
  "process_accept_scheduled_commits example_magic example_outbox example_accept
     (example_accounts (example_bytes (queued [example_intent])) n example_vacant) =
     Inr ((), example_accounts (example_bytes (queued [])) n (example_filed False))"
proof -
  have "sib_intent_id example_intent = 0" "me_engine example_magic = example_engine"
    by (simp_all add: example_intent_def example_magic_def)
  then show ?thesis
    using example_popped [of n example_vacant] example_record_created [of "example_bytes (queued [])" n] example_accept_frame example_pda
      example_is_accepted
    by (simp add: process_accept_scheduled_commits_def validate_accept_def check_magic_context_id_def INTENT_PDAS_OFFSET_def
        ACCEPT_CONTEXT_IDX_def accept_intent_def verify_intent_pda_def peach_def pthen_def pbind_def plift_def
        pguard_def pret_def ensure_def)
qed

lemma example_stage_changed:
  "process_set_intent_execution_stage example_engine example_outbox example_stage 0 (SingleStage example_pending) []
     (example_accounts d n (example_filed False)) = Some (Inr ((), example_accounts d n (example_filed True)))"
proof -
  have frame: "get_instruction_pubkey_with_idx example_stage 0 = Inr 77"
    "get_instruction_pubkey_with_idx example_stage 1 = Inr (outbox_intent_pda example_engine 0)"
    "get_instruction_account_with_idx example_stage 1 = Inr \<lparr>ia_instruction_idx = 1, ia_tx_idx = 3\<rparr>"
    "77 \<in> ic_signers example_stage" "ic_authority example_stage = 77"
    by (simp_all add: example_defs run_defs)
  have "verify_outbox_intent_pda example_engine 0 255 (outbox_intent_pda example_engine 0)"
    by (simp add: verify_outbox_intent_pda_def outbox_intent_pda_def outbox_intent_pda_with_bump_def example_engine_def)
  moreover have "apply_stage_transition (example_record False 255) (SingleStage example_pending) [] = (example_record True 255, Inr ())"
    by (simp add: apply_stage_transition_def example_record_def)
  moreover have "length (example_data False) = length (example_data True)" by (simp add: example_data_def)
  moreover have "oib_bump (example_record False 255) = 255" by (simp add: example_record_def)
  moreover have "example_accounts d n (example_filed x) ! 3 = example_filed x" "length (example_accounts d n r) = 6"
    "acc_data (example_filed x) = example_data x" "(example_filed False)\<lparr>acc_data := example_data True\<rparr> = example_filed True"
    "(example_accounts d n r)[3 := r'] = example_accounts d n r'" for x r r'
    by (simp_all add: example_accounts_def example_filed_def example_shared_def)
  ultimately show ?thesis using frame
    by (simp add: process_set_intent_execution_stage_def validate_stage_change_def set_new_execution_stage_def
        copy_record_def example_from_bytes example_to_bytes pthen_def pbind_def plift_def pguard_def pret_def ensure_def
        borrow_def case_unit_Unity)
qed

section \<open>The properties on this run\<close>

lemma example_engine_used: "engine_ok (me_engine example_magic)"
  by (simp add: example_magic_def example_engine_ok)


theorem acceptance_in_order_witness:
  "\<exists>j < 6. example_keys ! j = outbox_intent_pda example_engine 0 \<and>
     try_from_bytes example_outbox
       (acc_data (example_accounts (example_bytes (queued [])) 1 (example_filed False) ! j)) = Some (accepted example_intent 255)"
proof -
  have q: "queue example_magic 1 (example_accounts (example_bytes (queued [example_intent])) 1 example_vacant) =
      Some (queued [example_intent])"
    by (simp add: queue_def example_accounts_def example_shared_def example_read example_encodes)
  have engine: "me_engine example_magic = example_engine" "sib_intent_id example_intent = 0"
    by (simp_all add: example_magic_def example_intent_def)
  have len: "length (example_accounts d n r) = 6" for d n r by (simp add: example_accounts_def)
  show ?thesis
    using acceptance_in_order [OF example_engine_used example_codec example_outbox_codec example_calls example_accepted [of 1]] q
      engine len by (auto simp: example_accept_frame queued_def Let_def example_pda)
qed

theorem record_survives_witness:
  "\<exists>b. try_from_bytes example_outbox (acc_data (example_accounts [] 1 (example_filed True) ! 3)) = Some b \<and>
     oib_inner b = example_intent \<and> oib_bump b = 255 \<and> oib_status b = Executing (SingleStage example_pending)"
proof -
  let ?s = "example_accounts [] 1 (example_filed False)"
  have "(stage_step example_engine example_outbox)\<^sup>*\<^sup>* ?s (example_accounts [] 1 (example_filed True))"
    by (intro r_into_rtranclp) (rule stage_step.change [OF example_stage_changed])
  moreover have "try_to_bytes example_outbox (accepted example_intent 255) = Some (acc_data (?s ! 3))" "3 < length ?s"
    by (simp_all add: example_is_accepted example_to_bytes example_accounts_def example_filed_def example_shared_def)
  moreover have "try_from_bytes example_outbox (acc_data (example_accounts [] 1 (example_filed True) ! 3)) = Some (example_record True 255)"
    by (simp add: example_from_bytes example_accounts_def example_filed_def example_shared_def)
  ultimately show ?thesis
    using record_survives [OF example_outbox_codec, of 3 ?s example_intent 255 example_engine] by (auto simp: example_record_def)
qed

lemma example_initial: "queue_initial 1 (example_accounts (replicate 64 0) 0 example_vacant)"
  by (simp add: queue_initial_def example_accounts_def example_shared_def is_zeroed_iff)

lemma example_queue_scheduled:
  "(queue_step example_magic example_outbox example_keys 1)\<^sup>*\<^sup>* (example_accounts (replicate 64 0) 0 example_vacant)
     (example_accounts (example_bytes (queued [example_intent])) 1 example_vacant)"
  by (intro r_into_rtranclp) (rule queue_step.schedule_commit [OF example_schedule_frame(11) example_scheduled])

lemma example_queue_accepted:
  "(queue_step example_magic example_outbox example_keys 1)\<^sup>*\<^sup>* (example_accounts (replicate 64 0) 0 example_vacant)
     (example_accounts (example_bytes (queued [])) 1 (example_filed False))"
  by (rule rtranclp.rtrancl_into_rtrancl [OF example_queue_scheduled])
    (rule queue_step.accept [OF example_accept_frame(10) example_accepted])

theorem queue_well_formed_witness:
  "\<exists>c. magic_context_deserialize example_magic
     (acc_data (example_accounts (example_bytes (queued [])) 1 (example_filed False) ! 1)) = Some c \<and> wf_context c"
  by (rule queue_well_formed [OF example_engine_used example_codec example_outbox_codec example_calls example_keys_distinct
        _ _ example_initial example_queue_accepted]) (simp_all add: example_keys_def)

theorem sponsored_limit_exact_witness:
  "process_schedule_commit example_magic example_schedule False (example_accounts [] 10 example_vacant) =
     Inl (Custom COMMIT_LIMIT_ERR)"
proof -
  let ?s = "example_accounts [] 10 example_vacant" and ?c = "first_commit\<lparr>ca_commit_id := 11\<rparr>"
  have "schedule_commit_accounts example_magic example_schedule False None 2 ?s = Inr (({6}, [?c]), example_accounts [] 11 example_vacant)"
    using example_reserved [of 10 "[]" example_vacant] by simp
  then have ok: "sponsored_commits example_magic example_schedule False None ?s [?c]"
    using example_schedule_frame example_no_vault [of "[]" 10 example_vacant]
    by (simp add: sponsored_commits_def check_magic_context_id_def MAGIC_CONTEXT_IDX_def PAYER_IDX_def example_magic_def numeral_2_eq_2)
  have "origin example_magic example_schedule None ?s ?c 2"
    by (simp add: origin_def example_defs authorised_def run_defs from_account_shared_def try_remap_ata_to_eata_def
        is_supported_token_program_def TOKEN_PROGRAM_ID_def TOKEN_2022_PROGRAM_ID_def first_commit_def)
  then have "\<exists>c \<in> set [?c]. \<exists>j. origin example_magic example_schedule None ?s c j \<and> 10 \<le> unat (sh_commit_seq (?s ! j))"
    by (auto simp: example_accounts_def intro!: exI [of _ 2])
  then show ?thesis using sponsored_limit_exact [OF example_engine_used ok] by simp
qed

end
