(* ===== verification/Spec2Isabelle.thy ===== *)
theory Spec2Isabelle
  imports Intent_Executor Committor_Runtime Changeset Execution_Life Ephemeral_Accounts Scheduling_Instances
begin

text \<open>
  Verification of the settlement path of the validator: how changes of delegated accounts are
  scheduled inside the validator, recorded, ordered, turned into transactions and landed on the base
  layer, with the on-chain programs at both ends. Paths below are relative to \<^verbatim>\<open>src/\<close>.

  \<^bold>\<open>The parts and how they interact.\<close>
  A program running in the validator schedules an \<^emph>\<open>intent\<close> (commits, undelegations and actions)
  with an instruction of the magic program; the intent is appended to the queue in the magic context
  account. The validator accepts intents from the front of the queue: each becomes a record in an
  account of the outbox intent program. The committor service takes the records through a bounded
  channel with a backlog, or after a restart from an outbox reader; a scheduler keeps intents with
  common accounts in order; the worker starts the ready ones as tasks. A task builds settlement
  tasks, plans one or two transactions, delivers large data through buffers of the committor program,
  sends, waits, recovers, and moves the stage stored in the outbox record, so that a killed execution
  can be resumed. At the end the record is closed.

  \<^bold>\<open>Conventions.\<close> Machine integers are words of their width; \<^verbatim>\<open>usize\<close> is \<open>nat\<close> where it cannot
  overflow. \<^verbatim>\<open>Result\<close> is a sum with the error on the left and \<^verbatim>\<open>?\<close> is \<open>rbind\<close>; a panic is \<open>None\<close> (or
  an error value of its own where an on-chain program aborts). A \<^verbatim>\<open>HashMap\<close> is an association list
  with distinct keys, and no property depends on its order. Definitions keep the names of the source;
  a prefix tells apart methods of different types with one name. Logging and metrics are left out.

  \<^bold>\<open>Prelude.\<close> \<open>Prelude\<close> holds the types, results, checked arithmetic, little-endian bytes, hash maps
  and the locale \<open>invariant_system\<close> of invariants of step relations, interpreted below for the bank
  of ephemeral accounts, the queue, the outbox records and the worker. \<open>Async_Run\<close> models asynchronous
  code: a run that may never return, may be killed at any await, and may be dropped by a timeout.
  \<open>Program_Context\<close> models what an instruction of a builtin program sees
  (\<^verbatim>\<open>programs/magic-program/src/utils\<close>): a list of accounts, the positions the instruction names,
  signers, caller and clock; handlers are state-passing functions with an error.

  \<^bold>\<open>Intents and records.\<close> \<open>Intent_Model\<close> (\<^verbatim>\<open>core/src/intent\<close>) has bundles, their accounts, fees and
  callbacks: the fee is exact (\<open>intent_fee_exact\<close>), writing through a mutable reference is an update
  of the list of actions (\<open>get_action_mut_refines\<close>). \<open>Outbox_Model\<close>
  (\<^verbatim>\<open>programs/magic-interface/src/outbox.rs\<close>, \<^verbatim>\<open>outbox_intent_bundles.rs\<close>) has the records and the
  stage machine, which never goes back (\<open>outbox_stage_progress\<close>). \<open>Token_Accounts\<close>
  (\<^verbatim>\<open>core/src/token_programs.rs\<close>) has the token accounts that are committed under another key; their
  content survives the way to the chain and back (\<open>ata_commit_round_trip\<close>).

  \<^bold>\<open>Inside the validator.\<close> \<open>Ephemeral_Accounts\<close> (\<^verbatim>\<open>ephemeral_accounts\<close>) keeps the rent of every
  ephemeral account in the vault (\<open>deposits_always_refundable\<close>). \<open>Magic_Context\<close>
  (\<^verbatim>\<open>magic_context.rs\<close>, \<^verbatim>\<open>schedule/mod.rs\<close>) has the queue and the shared checks; \<open>Commit_Scheduling\<close>
  has the three scheduling instructions and the construction of an intent from its arguments
  (\<^verbatim>\<open>process_schedule_commit.rs\<close>, \<^verbatim>\<open>process_schedule_intent_bundle.rs\<close>,
  \<^verbatim>\<open>process_add_action_callback.rs\<close>, \<^verbatim>\<open>magic_scheduled_base_intent.rs\<close>); \<open>Scheduling_Safety\<close> has the
  specifications of their steps. \<open>Intent_Acceptance\<close> has the acceptance
  (\<^verbatim>\<open>process_accept_scheduled_commits.rs\<close>) and the outbox intent program (\<^verbatim>\<open>outbox_intent\<close>):
  intents move in order and unchanged (\<open>acceptance_in_order\<close>). \<open>Outbox_Life\<close> follows a record through
  its stage changes to its closing (\<open>record_survives\<close>); \<open>Queue_Invariant\<close> shows the queue well formed
  in every reachable state (\<open>queue_well_formed\<close>) and every scheduled commit authorised
  (\<open>scheduling_authorised\<close>); \<open>Scheduling_Instances\<close> has the exact condition of the limit on sponsored
  commits (\<open>sponsored_limit_exact\<close>) and a concrete run for these properties.

  \<^bold>\<open>Ordering.\<close> \<open>Intent_Intake\<close> (\<^verbatim>\<open>queue.rs\<close>, \<^verbatim>\<open>stream.rs\<close>, \<^verbatim>\<open>backlog.rs\<close>, the outbox reader and client)
  refines one first-in first-out queue, by the locale \<open>fifo\<close> (\<open>intake_is_fifo\<close>), and reads and
  recovers records in id order. \<open>Intent_Scheduler\<close> has the operations of \<^verbatim>\<open>scheduler.rs\<close>,
  \<open>Scheduler_Invariant\<close> what its queues mean, \<open>Scheduler_Failure\<close> what a failure voids.
  \<open>Intent_Executor\<close> has the worker (\<^verbatim>\<open>worker.rs\<close>) as a step relation: exclusive execution, order per
  account, dependents of a failure, no forgotten intent, accepted outcomes, bounds and retries. The
  theorem at the end of this theory joins the two sides: records accepted from a reachable queue are
  what the worker's step relation asks of the intents it admits.

  \<^bold>\<open>Execution.\<close> \<open>Task_Model\<close> (\<^verbatim>\<open>shared/tasks\<close>, \<^verbatim>\<open>task_builder.rs\<close>, \<^verbatim>\<open>task_strategist.rs\<close>) builds tasks
  and plans that fit. \<open>Execution_Errors\<close> has the errors, their classification, the sending loop and the
  report. \<open>Transaction_Runner\<close> and \<open>Intent_Execution\<close> have the executor
  (\<^verbatim>\<open>execution/transaction/runner.rs\<close>, \<^verbatim>\<open>recovery.rs\<close>, \<^verbatim>\<open>execution/intent.rs\<close>); RPC node, outbox client
  and preparator are a record of effects. \<open>Runner_Safety\<close> proves the invariant of the executor under
  named laws of the chain (\<open>chain_laws\<close>), \<open>Runner_Returns\<close> that its loops end, and \<open>Execution_Life\<close>
  composes executions, kills and restarts: commits land at most once (\<open>commits_land_once\<close>), a restart
  knows what is pending (\<open>restart_knows_pending\<close>), success settles everything (\<open>success_settles\<close>), an
  execution returns (\<open>execution_returns\<close>). A small chain satisfies the laws.

  \<^bold>\<open>Buffers.\<close> \<open>Chunk_Tracker\<close>, \<open>Chunk_Data\<close> and \<open>Changeset\<close> (\<^verbatim>\<open>programs/committor-interface\<close>) have the
  delivery bit field (locale \<open>delivery_tracker\<close>), the chunk iterators and change sets;
  \<open>Committor_Program\<close> the on-chain program; \<open>Buffer_Delivery\<close> runs a preparation against it
  (\<open>buffer_delivered\<close>); \<open>Committor_Runtime\<close> is a concrete runtime that satisfies its hypotheses.

  \<^bold>\<open>Bounds and fuel.\<close> Loops that end by their data are structural recursion or have a termination
  measure. \<open>retry_loop\<close> and \<open>reschedule_loop\<close> take fuel: \<open>send_terminates\<close> and
  \<open>recovery_queues_in_order\<close> state how much is enough (the attempts until the retry window is over, one
  more than the records of the outbox). \<open>resolve_loop\<close>, \<open>execute_loop\<close> and \<open>execute\<close> are partial
  functions, whose return is \<open>execution_returns\<close>, under the law that a blockhash expires.

  \<^bold>\<open>Parameters.\<close> Code outside the repository is a parameter with named hypotheses: the engine's mode
  and sequence transitions and address derivation (\<open>engine_ok\<close>), the encodings of the queue
  (\<open>context_codec_ok\<close>) and of records (\<open>outbox_codec_ok\<close>), the frame of a cross-program call
  (\<open>calls_ok\<close>), the token crates (\<open>token_lib\<close>), the Solana runtime and Borsh (\<open>runtime_ok\<close>), the chain
  (\<open>chain_laws\<close>), and the sizes of compiled transactions. Each has a concrete instance.

  \<^bold>\<open>Not modelled.\<close> The estimate of an intent's size (\<^verbatim>\<open>core/src/intent/limits.rs\<close>) compiles
  instructions of the delegation program, which is not in the repository; it is a parameter. The
  dispatch of the magic program, the callback program, scheduled tasks and magic token accounts are
  left for an extension. Account cloning and subscriptions (\<^verbatim>\<open>chainlink\<close>), the RPC front end
  (\<^verbatim>\<open>aperture\<close>), the services and the cranks (\<^verbatim>\<open>task-scheduler\<close>) are asynchronous plumbing around
  network calls; the ledger (\<^verbatim>\<open>ledger\<close>) is access to RocksDB; \<^verbatim>\<open>table-mania\<close> manages lookup tables on
  chain and appears here through its errors; \<^verbatim>\<open>storage-proto\<close> converts generated types; configuration,
  metrics, logging and the binaries have no behaviour the parts above read.
\<close>

section \<open>From the queue to the worker\<close>

text \<open>The ids of a queue whose next id has not wrapped around.\<close>

lemma queue_id:
  assumes "wf_context c" and "k < length (mc_scheduled_base_intents c)"
    and "length (mc_scheduled_base_intents c) \<le> unat (mc_intent_id c)"
  shows "unat (sib_intent_id (mc_scheduled_base_intents c ! k)) = unat (mc_intent_id c) - length (mc_scheduled_base_intents c) + k"
proof -
  let ?xs = "mc_scheduled_base_intents c" and ?d = "length (mc_scheduled_base_intents c) - k"
  have "map sib_intent_id ?xs ! k = map (\<lambda>k. mc_intent_id c - of_nat (length ?xs - k)) [0..<length ?xs] ! k"
    using assms(1) by (simp add: wf_context_def Let_def)
  then have i: "sib_intent_id (?xs ! k) = mc_intent_id c - of_nat ?d" using assms(2) by simp
  have "unat (mc_intent_id c) < 2 ^ 64" using unat_bound [of "mc_intent_id c"] by simp
  then have d: "unat (of_nat ?d :: u64) = ?d" using assms(3) by (simp add: unat_of_nat)
  then have "(of_nat ?d :: u64) \<le> mc_intent_id c" using assms(3) by (simp add: word_le_nat_alt)
  then have "unat (sib_intent_id (?xs ! k)) = unat (mc_intent_id c) - ?d" using i d by (simp add: unat_sub)
  then show ?thesis using assms(2,3) by simp
qed

text \<open>All ids of a queue, and those to come, are at least the first.\<close>

definition first_id :: "magic_context \<Rightarrow> nat" where
  "first_id c = unat (mc_intent_id c) - length (mc_scheduled_base_intents c)"

text \<open>Intents under consecutive ids above the admitted ones are orderly, one after the other.\<close>

lemma batch_orderly:
  assumes ids: "\<And>k. k < length bs \<Longrightarrow> unat (intent_id (bs ! k)) = f + k \<and> distinct (intent_pubkeys (bs ! k))"
    and below: "\<forall>a \<in> set (h_admitted h). unat (intent_id a) < f"
  shows "(\<forall>k < length bs. \<forall>x. orderly x (h\<lparr>h_admitted := h_admitted h @ take k bs\<rparr>) (bs ! k)) \<and>
    (\<forall>a \<in> set (h_admitted h @ bs). unat (intent_id a) < f + length bs)"
proof -
  have admitted: "unat (intent_id a) < f + k" if a: "a \<in> set (h_admitted h @ take k bs)" and k: "k \<le> length bs" for a k
  proof (cases "a \<in> set (h_admitted h)")
    case True
    then show ?thesis using below by auto
  next
    case False
    then have "a \<in> set (take k bs)" using a by simp
    then obtain m where "m < k" "a = bs ! m" using k unfolding in_set_conv_nth by auto
    then show ?thesis using ids [of m] k by simp
  qed
  have "orderly x (h\<lparr>h_admitted := h_admitted h @ take k bs\<rparr>) (bs ! k)" if k: "k < length bs" for k x
  proof -
    have "intent_id a < intent_id (bs ! k)" if "a \<in> set (h_admitted h @ take k bs)" for a
      using admitted [OF that] ids [OF k] k by (simp add: word_less_nat_alt)
    then show ?thesis using ids [OF k] by (simp add: orderly_def)
  qed
  then show ?thesis using admitted [of _ "length bs"] by simp
qed



end
